(* ===== verification/Go_Prelude.thy ===== *)
theory Go_Prelude
  imports Main "HOL-Library.AList" "HOL-Library.Word" "HOL-Library.Multiset" "HOL-Library.Sublist"
begin

text \<open>
  The part of the Go language and runtime that the server's code relies on, and the generic
  lemmas the component theories share:
  \<^item> run-time panics as values of a sum type, with sequential composition;
  \<^item> the unspecified order of \<^verbatim>\<open>range\<close> over a map;
  \<^item> buffered channels with the non-blocking send of a \<^verbatim>\<open>select\<close> with \<^verbatim>\<open>default\<close>,
    closing, and receiving;
  \<^item> 64-bit integers and instants of time.
\<close>

named_theorems go_simps \<open>unfolding of the runtime model and of the operations built on it\<close>

section \<open>Panics and sequencing\<close>

text \<open>
  The panics this program can raise: a send on a closed channel, a second close of a
  channel, and a channel of negative capacity. The server's code has no
  \<^verbatim>\<open>recover\<close>: a panic on the hub goroutine ends the process, one on a read pump ends that
  connection only, because the read pump runs on the request goroutine of
  \<^verbatim>\<open>net/http\<close>, which recovers.
  The argument is the address of the client whose \<^verbatim>\<open>send\<close> channel was misused
  (\<^verbatim>\<open>None\<close> for a channel that belongs to no client).
\<close>

type_synonym cid = nat

datatype panic = SendOnClosed "cid option" | CloseOfClosed "cid option" | ChanSizeOutOfRange

text \<open>Statements in sequence: the first panic or error ends the computation.\<close>

definition ebind :: "'e + 'a \<Rightarrow> ('a \<Rightarrow> 'e + 'b) \<Rightarrow> 'e + 'b" where
  "ebind x f = (case x of Inl e \<Rightarrow> Inl e | Inr a \<Rightarrow> f a)"

lemma ebind_simps [simp]: "ebind (Inl e) f = Inl e" "ebind (Inr a) f = f a"
  by (simp_all add: ebind_def)

lemma ebind_Inr_iff: "ebind x f = Inr b \<longleftrightarrow> (\<exists>a. x = Inr a \<and> f a = Inr b)"
  by (cases x) simp_all

lemma ebind_InrE [elim]:
  assumes "ebind x f = Inr b"
  obtains a where "x = Inr a" and "f a = Inr b"
  using assms by (auto simp: ebind_Inr_iff)

lemma ebind_assoc: "ebind (ebind x f) g = ebind x (\<lambda>a. ebind (f a) g)"
  by (cases x) simp_all

section \<open>Ranging over a map\<close>

text \<open>
  A Go map is kept as a list of its entries without repeated keys. The order of
  \<^verbatim>\<open>range\<close> over a map is unspecified and may differ between two loops over the same map,
  so a loop runs over \<open>shuffle n\<close> of the keys, for a number \<open>n\<close> drawn anew for each loop.
  Every \<open>shuffle n\<close> is a permutation (\<open>mset_shuffle\<close>) and every permutation is reached by
  some \<open>n\<close> (\<open>shuffle_onto\<close>), so the model has exactly the orders the language allows.
\<close>

fun shuffle :: "nat \<Rightarrow> 'a list \<Rightarrow> 'a list" where
  "shuffle n [] = []"
| "shuffle n (x # xs) =
     (let k = n mod Suc (length xs); ys = shuffle (n div Suc (length xs)) xs
      in take k ys @ x # drop k ys)"

lemma mset_insert_at: "mset (take k ys @ x # drop k ys) = add_mset x (mset ys)"
  by (metis append_take_drop_id mset.simps(2) mset_append union_mset_add_mset_right)

lemma mset_shuffle [simp]: "mset (shuffle n xs) = mset xs"
  by (induction xs arbitrary: n) (simp_all add: Let_def mset_insert_at del: mset_append)

lemma set_shuffle [simp]: "set (shuffle n xs) = set xs"
  by (metis mset_shuffle set_mset_mset)

lemma length_shuffle [simp]: "length (shuffle n xs) = length xs"
  by (metis mset_shuffle size_mset)

lemma distinct_shuffle [simp]: "distinct (shuffle n xs) = distinct xs"
  by (metis mset_eq_imp_distinct_iff mset_shuffle)

lemma shuffle_0 [simp]: "shuffle 0 xs = xs"
  by (induction xs) (simp_all add: Let_def)

lemma shuffle_onto:
  assumes "mset ys = mset xs"
  shows "\<exists>n. shuffle n xs = ys"
  using assms
proof (induction xs arbitrary: ys)
  case Nil
  then show ?case by simp
next
  case (Cons x xs)
  then have "x \<in> set ys" by (metis list.set_intros(1) set_mset_mset)
  then obtain us vs where ys: "ys = us @ x # vs" by (meson split_list)
  with Cons.prems have "mset (us @ vs) = mset xs" by simp
  with Cons.IH obtain m where m: "shuffle m xs = us @ vs" by blast
  have len: "length us < Suc (length xs)"
    using m by (metis length_append length_shuffle le_imp_less_Suc le_add1)
  let ?n = "m * Suc (length xs) + length us"
  have "?n mod Suc (length xs) = length us"
    by (metis add.commute len mod_less mod_mult_self1)
  moreover have "?n div Suc (length xs) = m"
    using len by (simp add: div_mult_self3 del: mult_Suc_right)
  ultimately have "shuffle ?n (x # xs) = ys"
    using m ys by (simp add: Let_def del: mult_Suc_right)
  then show ?case by blast
qed

section \<open>Buffered channels\<close>

text \<open>
  A buffered channel: its queue, its capacity and whether it has been closed.
  \<open>chan_offer\<close> is the statement
  \<^verbatim>\<open>select { case ch <- v: return true; default: return false }\<close>: it never blocks;
  on a closed channel it panics, also inside a \<^verbatim>\<open>select\<close>. The first argument only
  tags the panic with the client the channel belongs to.
\<close>

record 'a chan =
  chBuf :: "'a list"
  chCap :: nat
  chClosed :: bool

definition make_chan :: "nat \<Rightarrow> 'a chan" where
  "make_chan n = \<lparr>chBuf = [], chCap = n, chClosed = False\<rparr>"

definition chan_room :: "'a chan \<Rightarrow> bool" where
  "chan_room ch \<longleftrightarrow> length (chBuf ch) < chCap ch"

definition chan_offer :: "cid option \<Rightarrow> 'a \<Rightarrow> 'a chan \<Rightarrow> panic + bool \<times> 'a chan" where
  "chan_offer tag v ch =
     (if chClosed ch then Inl (SendOnClosed tag)
      else if chan_room ch then Inr (True, ch\<lparr>chBuf := chBuf ch @ [v]\<rparr>)
      else Inr (False, ch))"

definition chan_close :: "cid option \<Rightarrow> 'a chan \<Rightarrow> panic + 'a chan" where
  "chan_close tag ch =
     (if chClosed ch then Inl (CloseOfClosed tag) else Inr (ch\<lparr>chClosed := True\<rparr>))"

text \<open>
  A receive takes the oldest value; on a closed channel it still delivers what is queued
  and only then reports the close; on an open empty channel it is not ready.
\<close>

datatype 'a recv = Received 'a "'a chan" | ChanClosed | NotReady

definition chan_recv :: "'a chan \<Rightarrow> 'a recv" where
  "chan_recv ch = (case chBuf ch of
       v # vs \<Rightarrow> Received v (ch\<lparr>chBuf := vs\<rparr>)
     | [] \<Rightarrow> if chClosed ch then ChanClosed else NotReady)"

definition chan_ok :: "'a chan \<Rightarrow> bool" where
  "chan_ok ch \<longleftrightarrow> length (chBuf ch) \<le> chCap ch"

lemma make_chan_simps [simp]:
  "chBuf (make_chan n) = []" "chCap (make_chan n) = n" "\<not> chClosed (make_chan n)"
  "chan_ok (make_chan n)"
  by (simp_all add: make_chan_def chan_ok_def)

lemma chan_offer_open:
  "\<not> chClosed ch \<Longrightarrow> chan_offer tag v ch =
     Inr (chan_room ch, if chan_room ch then ch\<lparr>chBuf := chBuf ch @ [v]\<rparr> else ch)"
  by (simp add: chan_offer_def)

lemma chan_offer_Inl_iff: "chan_offer tag v ch = Inl p \<longleftrightarrow> chClosed ch \<and> p = SendOnClosed tag"
  by (auto simp: chan_offer_def)

lemma chan_offer_ok: "chan_ok ch \<Longrightarrow> chan_offer tag v ch = Inr (b, ch') \<Longrightarrow> chan_ok ch'"
  by (auto simp: chan_offer_def chan_ok_def chan_room_def split: if_splits)

lemma chan_recv_ok: "chan_ok ch \<Longrightarrow> chan_recv ch = Received v ch' \<Longrightarrow> chan_ok ch'"
  by (auto simp: chan_recv_def chan_ok_def split: list.splits if_splits)

subsection \<open>The contract of a non-blocking queue\<close>

text \<open>
  What the senders of the program (the hub's per-client delivery, its hand-off to the
  persister, the bus) rely on: while the queue is live an offer never fails, keeps the order of
  what it accepts, and drops the offered value only when there is no room. The
  consequence proved once here: offering a sequence appends a subsequence of it, in order.
\<close>

fun offer_all :: "('m \<Rightarrow> 's \<Rightarrow> 'e + bool \<times> 's) \<Rightarrow> 'm list \<Rightarrow> 's \<Rightarrow> 'e + 's" where
  "offer_all offer [] s = Inr s"
| "offer_all offer (m # ms) s = ebind (offer m s) (\<lambda>(_, s'). offer_all offer ms s')"

locale lossy_queue =
  fixes offer :: "'m \<Rightarrow> 's \<Rightarrow> 'e + bool \<times> 's"
    and items :: "'s \<Rightarrow> 'm list"
    and size_max :: "'s \<Rightarrow> nat"
    and live :: "'s \<Rightarrow> bool"
  assumes offer_accept: "live s \<Longrightarrow> length (items s) < size_max s \<Longrightarrow>
      \<exists>s'. offer m s = Inr (True, s') \<and> items s' = items s @ [m] \<and> live s' \<and> size_max s' = size_max s"
    and offer_full: "live s \<Longrightarrow> \<not> length (items s) < size_max s \<Longrightarrow> offer m s = Inr (False, s)"
begin

lemma offer_cases:
  assumes "live s"
  obtains s' where "offer m s = Inr (True, s')" and "items s' = items s @ [m]" and "live s'"
    and "size_max s' = size_max s"
  | "offer m s = Inr (False, s)"
  using offer_accept [OF assms] offer_full [OF assms] by metis

lemma offer_all_subseq:
  "live s \<Longrightarrow> \<exists>s' ys. offer_all offer ms s = Inr s' \<and> items s' = items s @ ys \<and> subseq ys ms \<and> live s'"
proof (induction ms arbitrary: s)
  case Nil
  then show ?case by auto
next
  case (Cons m ms)
  from Cons.prems show ?case
  proof (cases rule: offer_cases [of s m])
    case (1 s1)
    with Cons.IH [of s1] obtain s' ys where "offer_all offer ms s1 = Inr s'"
      "items s' = items s1 @ ys" "subseq ys ms" "live s'" by blast
    with 1 have "offer_all offer (m # ms) s = Inr s'" "items s' = items s @ (m # ys)"
      "subseq (m # ys) (m # ms)" by simp_all
    with \<open>live s'\<close> show ?thesis by blast
  next
    case 2
    with Cons.IH [of s] Cons.prems obtain s' ys where "offer_all offer ms s = Inr s'"
      "items s' = items s @ ys" "subseq ys ms" "live s'" by blast
    with 2 show ?thesis by (auto intro: list_emb_Cons)
  qed
qed

lemma offer_all_fits:
  "live s \<Longrightarrow> length (items s) + length ms \<le> size_max s \<Longrightarrow>
    \<exists>s'. offer_all offer ms s = Inr s' \<and> items s' = items s @ ms \<and> live s' \<and> size_max s' = size_max s"
proof (induction ms arbitrary: s)
  case Nil
  then show ?case by simp
next
  case (Cons m ms)
  then obtain s1 where s1: "offer m s = Inr (True, s1)" "items s1 = items s @ [m]" "live s1"
    "size_max s1 = size_max s" using offer_accept [of s m] by auto
  with Cons.IH [of s1] Cons.prems obtain s' where "offer_all offer ms s1 = Inr s'"
    "items s' = items s1 @ ms" "live s'" "size_max s' = size_max s1" by auto
  with s1 show ?case by auto
qed

end

interpretation chan_queue: lossy_queue "chan_offer tag" chBuf chCap "\<lambda>ch. \<not> chClosed ch"
  by unfold_locales (simp_all add: chan_offer_def chan_room_def)

section \<open>Integers and time\<close>

text \<open>
  \<^verbatim>\<open>int64\<close> counters are 64-bit words, so that an increment wraps as it does in Go. An
  instant (\<^verbatim>\<open>time.Time\<close> in UTC) is its distance from the Unix epoch in nanoseconds; the zero
  \<^verbatim>\<open>time.Time\<close> is January 1 of year 1. \<^verbatim>\<open>UnixNano\<close> is computed in 64 bits, and
  \<^verbatim>\<open>time.Unix(0, n)\<close> reads a signed 64-bit count back.
\<close>

type_synonym int64 = "64 word"
type_synonym gotime = int

definition zero_time :: gotime where
  "zero_time = - 62135596800 * 10 ^ 9"

definition IsZero :: "gotime \<Rightarrow> bool" where
  "IsZero t \<longleftrightarrow> t = zero_time"

definition UnixNano :: "gotime \<Rightarrow> int64" where
  "UnixNano t = word_of_int t"

definition Unix_nanos :: "int64 \<Rightarrow> gotime" where
  "Unix_nanos n = sint n"

definition nano_range :: "gotime \<Rightarrow> bool" where
  "nano_range t \<longleftrightarrow> - (2 ^ 63) \<le> t \<and> t < 2 ^ 63"

lemma Unix_UnixNano: "nano_range t \<Longrightarrow> Unix_nanos (UnixNano t) = t"
  by (simp add: Unix_nanos_def UnixNano_def nano_range_def sint_sbintrunc' signed_take_bit_int_eq_self)

lemma UnixNano_eq_iff: "Unix_nanos (UnixNano t) = t \<longleftrightarrow> nano_range t"
proof
  assume "Unix_nanos (UnixNano t) = t"
  then show "nano_range t"
    using sint_ge [of "UnixNano t"] sint_lt [of "UnixNano t"]
    by (simp add: Unix_nanos_def nano_range_def)
qed (rule Unix_UnixNano)

section \<open>Lists\<close>

lemma subseq_prefixD: "subseq (xs @ ys) zs \<Longrightarrow> subseq xs zs"
  by (rule subseq_order.order_trans [OF prefix_imp_subseq]) simp_all

text \<open>The last entries of a list.\<close>

definition last_n :: "nat \<Rightarrow> 'a list \<Rightarrow> 'a list" where
  "last_n n xs = drop (length xs - n) xs"

lemma last_n_rev_take: "rev (take n (rev xs)) = last_n n xs"
  by (simp add: last_n_def take_rev)

lemma length_last_n [simp]: "length (last_n n xs) = min n (length xs)"
  by (simp add: last_n_def)

lemma last_n_map: "last_n n (map f xs) = map f (last_n n xs)"
  by (simp add: last_n_def drop_map)

lemma suffix_last_n: "suffix (last_n n xs) xs"
  by (simp add: last_n_def suffix_drop)

lemma last_n_all: "length xs \<le> n \<Longrightarrow> last_n n xs = xs"
  by (simp add: last_n_def)

end
