(* ===== verification/Wire.thy ===== *)
theory Wire
  imports Go_Prelude
begin

text \<open>
  The wire protocol of \<^verbatim>\<open>internal/message/message.go\<close>: the frame types, the envelope
  that travels over a connection in both directions, and the message record that is
  delivered live, stored, and sent back as history. \<^verbatim>\<open>Type\<close> is a Go string type, so a
  frame that came from a client may hold any string there; the six constants are the ones
  the server knows.
\<close>

type_synonym Type = string

definition TypeJoin :: Type where "TypeJoin = ''join''"
definition TypeLeave :: Type where "TypeLeave = ''leave''"
definition TypeMessage :: Type where "TypeMessage = ''message''"
definition TypeHistory :: Type where "TypeHistory = ''history''"
definition TypePresence :: Type where "TypePresence = ''presence''"
definition TypeError :: Type where "TypeError = ''error''"

lemmas Type_defs = TypeJoin_def TypeLeave_def TypeMessage_def TypeHistory_def TypePresence_def
  TypeError_def

lemma Type_distinct [simp]:
  "TypeJoin \<noteq> TypeLeave" "TypeJoin \<noteq> TypeMessage" "TypeJoin \<noteq> TypePresence"
  "TypeLeave \<noteq> TypeJoin" "TypeLeave \<noteq> TypeMessage" "TypeMessage \<noteq> TypeJoin"
  "TypeMessage \<noteq> TypeLeave" "TypeMessage \<noteq> TypePresence" "TypePresence \<noteq> TypeMessage"
  "TypePresence \<noteq> TypeJoin" "TypeHistory \<noteq> TypePresence" "TypePresence \<noteq> TypeHistory"
  "TypeHistory \<noteq> TypeMessage" "TypeMessage \<noteq> TypeHistory" "TypeError \<noteq> TypeMessage"
  "TypeMessage \<noteq> TypeError" "TypeError \<noteq> TypePresence" "TypePresence \<noteq> TypeError"
  by (simp_all add: Type_defs)

text \<open>
  The records keep the Go field names behind a prefix, because two structs share
  \<^verbatim>\<open>Room\<close>. Pointer fields are options (\<^verbatim>\<open>nil\<close> is \<open>None\<close>); a nil slice and an empty one
  are the same list, as they are on the wire under \<^verbatim>\<open>omitempty\<close>.
\<close>

record Message =
  mID :: int64
  mRoom :: string
  mSenderID :: string
  mSenderName :: string
  mContent :: string
  mCreatedAt :: gotime

record Presence =
  pUser :: string
  pJoined :: bool
  pMembers :: "string list"

record Envelope =
  eType :: Type
  eRoom :: string
  eText :: string
  eMessage :: "Message option"
  eHistory :: "Message list"
  ePresence :: "Presence option"
  eError :: string

text \<open>The zero values, from which a Go composite literal sets the named fields only.\<close>

definition zero_Message :: Message where
  "zero_Message = \<lparr>mID = 0, mRoom = '''', mSenderID = '''', mSenderName = '''',
     mContent = '''', mCreatedAt = zero_time\<rparr>"

definition zero_Envelope :: Envelope where
  "zero_Envelope = \<lparr>eType = '''', eRoom = '''', eText = '''', eMessage = None,
     eHistory = [], ePresence = None, eError = ''''\<rparr>"

lemma zero_Envelope_simps [simp]:
  "eType zero_Envelope = ''''" "eRoom zero_Envelope = ''''" "eText zero_Envelope = ''''"
  "eMessage zero_Envelope = None" "eHistory zero_Envelope = []" "ePresence zero_Envelope = None"
  "eError zero_Envelope = ''''"
  by (simp_all add: zero_Envelope_def)

lemma zero_Message_simps [simp]:
  "mID zero_Message = 0" "mRoom zero_Message = ''''" "mSenderID zero_Message = ''''"
  "mSenderName zero_Message = ''''" "mContent zero_Message = ''''"
  "mCreatedAt zero_Message = zero_time"
  by (simp_all add: zero_Message_def)

end
