(* ===== verification/Message_Store.thy ===== *)
theory Message_Store
  imports Wire "HOL-Library.Product_Lexorder"
begin

text \<open>
  The interface of \<^verbatim>\<open>internal/store/store.go\<close>, which the hub's history and the persister are
  written against: its contract as a locale, and what a client can conclude from the
  contract alone. The two database implementations are shown to meet it in their theory.
\<close>

definition msg_key :: "Message \<Rightarrow> int \<times> int" where
  "msg_key m = (mCreatedAt m, sint (mID m))"

definition stamped :: "gotime \<Rightarrow> Message \<Rightarrow> Message" where
  "stamped now m = (if IsZero (mCreatedAt m) then m\<lparr>mCreatedAt := now\<rparr> else m)"

text \<open>
  What is later read back of a message saved at time \<open>now\<close> under id \<open>i\<close>, where \<open>stamp\<close> is
  the precision of the store's timestamps; and the history a store owes: the newest \<open>n\<close>
  messages of the room by time and then id, oldest first.
\<close>

definition stored_as :: "(gotime \<Rightarrow> gotime) \<Rightarrow> gotime \<Rightarrow> int64 \<Rightarrow> Message \<Rightarrow> Message" where
  "stored_as stamp now i m = m\<lparr>mID := i, mCreatedAt := stamp (mCreatedAt (stamped now m))\<rparr>"

definition newest :: "nat \<Rightarrow> string \<Rightarrow> Message list \<Rightarrow> Message list" where
  "newest n rm ms = last_n n (sort_key msg_key (filter (\<lambda>m. mRoom m = rm) ms))"

definition erase_id :: "Message \<Rightarrow> Message" where
  "erase_id m = m\<lparr>mID := 0\<rparr>"

lemma stored_as_simps [simp]:
  "erase_id (stored_as stamp now i m) = stored_as stamp now 0 m"
  "mRoom (stored_as stamp now i m) = mRoom m" "mContent (stored_as stamp now i m) = mContent m"
  "mID (stored_as stamp now i m) = i"
  "mCreatedAt (stored_as stamp now i m) = stamp (mCreatedAt (stamped now m))"
  by (simp_all add: stored_as_def erase_id_def)

text \<open>Saving a sequence, each message in its own circumstances; the results are not looked at.\<close>

fun save_all ::
    "('env \<Rightarrow> Message \<Rightarrow> 's \<Rightarrow> ('e + Message) \<times> 's) \<Rightarrow> ('env \<times> Message) list \<Rightarrow> 's \<Rightarrow> 's" where
  "save_all save [] s = s"
| "save_all save ((env, m) # ms) s = save_all save ms (snd (save env m s))"

lemma save_all_append: "save_all save (xs @ ys) s = save_all save ys (save_all save xs s)"
  by (induction xs arbitrary: s) auto

text \<open>A sequence whose saves all happen in good circumstances, with space left in the store.\<close>

fun saves_fine :: "('env \<Rightarrow> Message \<Rightarrow> 's \<Rightarrow> ('e + Message) \<times> 's) \<Rightarrow> ('env \<Rightarrow> bool) \<Rightarrow>
    ('s \<Rightarrow> bool) \<Rightarrow> ('env \<times> Message) list \<Rightarrow> 's \<Rightarrow> bool" where
  "saves_fine save healthy full [] s = True"
| "saves_fine save healthy full ((env, m) # ms) s =
     (healthy env \<and> \<not> full s \<and> saves_fine save healthy full ms (snd (save env m s)))"

text \<open>Ids are given out in increasing order; times may be in any.\<close>

definition ids_increasing :: "Message list \<Rightarrow> bool" where
  "ids_increasing ms \<longleftrightarrow> sorted_wrt (\<lambda>a b. sint (mID a) < sint (mID b)) ms"

section \<open>Sorting by a key\<close>

lemma insort_key_map: "insort_key f (g x) (map g xs) = map g (insort_key (f \<circ> g) x xs)"
  by (induction xs) simp_all

lemma sort_key_map: "sort_key f (map g xs) = map g (sort_key (f \<circ> g) xs)"
  by (induction xs) (simp_all add: insort_key_map [unfolded comp_def] comp_def)

lemma insort_key_cong:
  "(\<And>y. y \<in> set xs \<Longrightarrow> f x \<le> f y \<longleftrightarrow> g x \<le> g y) \<Longrightarrow> insort_key f x xs = insort_key g x xs"
  by (induction xs) auto

lemma sort_key_cong: "(\<And>x. x \<in> set xs \<Longrightarrow> f x = g x) \<Longrightarrow> sort_key f xs = sort_key g xs"
proof (induction xs)
  case (Cons x xs)
  then have "insort_key f x (sort_key f xs) = insort_key g x (sort_key f xs)"
    by (intro insort_key_cong) simp
  then show ?case using Cons by simp
qed simp

text \<open>An element no smaller than all before it goes to the end.\<close>

lemma insort_key_snoc: "f x \<le> f y \<Longrightarrow> insort_key f x (xs @ [y]) = insort_key f x xs @ [y]"
  by (induction xs) simp_all

lemma sort_key_snoc: "\<forall>x \<in> set xs. f x \<le> f y \<Longrightarrow> sort_key f (xs @ [y]) = sort_key f xs @ [y]"
  by (induction xs) (simp_all add: insort_key_snoc)

section \<open>Histories\<close>

text \<open>
  The history of a room by acceptance: its messages in the order of their times, those of one time in the order
  they are listed, of these the last \<open>n\<close>. With increasing ids this is the history a store owes.
\<close>

definition latest :: "nat \<Rightarrow> string \<Rightarrow> Message list \<Rightarrow> Message list" where
  "latest n rm ms = last_n n (sort_key mCreatedAt (filter (\<lambda>m. mRoom m = rm) ms))"

lemma sort_by_time:
  "ids_increasing ms \<Longrightarrow> sort_key msg_key ms = sort_key mCreatedAt ms"
proof (induction ms)
  case (Cons m ms)
  then have "insort_key msg_key m (sort_key mCreatedAt ms) = insort_key mCreatedAt m (sort_key mCreatedAt ms)"
    by (intro insort_key_cong) (auto simp: ids_increasing_def msg_key_def less_eq_prod_def)
  then show ?case using Cons by (simp add: ids_increasing_def)
qed simp

lemma newest_latest: "ids_increasing ms \<Longrightarrow> newest n rm ms = latest n rm ms"
  using sort_by_time [of "filter (\<lambda>m. mRoom m = rm) ms"]
  by (simp add: newest_def latest_def ids_increasing_def sorted_wrt_filter)

lemma latest_erased: "map erase_id (latest n rm ms) = latest n rm (map erase_id ms)"
  unfolding latest_def
  by (simp add: filter_map sort_key_map last_n_map comp_def erase_id_def)

lemma latest_0 [simp]: "latest 0 rm ms = []"
  by (simp add: latest_def last_n_def)

lemma length_latest: "length (latest n rm ms) = min n (length (filter (\<lambda>m. mRoom m = rm) ms))"
  by (simp add: latest_def)

text \<open>If the times of the room never ran backwards, its history is the end of what is listed.\<close>

lemma latest_in_order:
  "sorted (map mCreatedAt (filter (\<lambda>m. mRoom m = rm) ms)) \<Longrightarrow> latest n rm ms = last_n n (filter (\<lambda>m. mRoom m = rm) ms)"
  by (simp add: latest_def sort_key_id_if_sorted)

lemma last_latest:
  assumes "\<forall>x \<in> set ms. mRoom x = mRoom m \<longrightarrow> mCreatedAt x \<le> mCreatedAt m" and "0 < n"
  shows "latest n (mRoom m) (ms @ [m]) \<noteq> [] \<and> last (latest n (mRoom m) (ms @ [m])) = m"
  using assms by (simp add: latest_def sort_key_snoc last_n_def)

lemma newest_sorted: "sorted (map msg_key (newest n rm ms))"
  unfolding newest_def last_n_def drop_map [symmetric]
  by (rule sorted_wrt_drop) simp

lemma newest_room: "m \<in> set (newest n rm ms) \<Longrightarrow> mRoom m = rm \<and> m \<in> set ms"
  unfolding newest_def last_n_def by (auto dest!: in_set_dropD)

lemma length_newest: "length (newest n rm ms) = min n (length (filter (\<lambda>m. mRoom m = rm) ms))"
  by (simp add: newest_def)

text \<open>Nothing left out is newer than anything returned.\<close>

lemma newest_cut:
  assumes "m \<in> set ms" and "mRoom m = rm" and "m \<notin> set (newest n rm ms)" and "x \<in> set (newest n rm ms)"
  shows "msg_key m \<le> msg_key x"
proof -
  let ?s = "sort_key msg_key (filter (\<lambda>m. mRoom m = rm) ms)" and ?k = "length (filter (\<lambda>m. mRoom m = rm) ms) - n"
  have "m \<in> set ?s" using assms(1,2) by simp
  moreover have cut: "?s = take ?k ?s @ newest n rm ms"
    by (simp add: newest_def last_n_def)
  ultimately have "m \<in> set (take ?k ?s)"
    using assms(3) by (metis Un_iff set_append)
  moreover have "sorted (map msg_key (take ?k ?s @ newest n rm ms))"
    by (subst cut [symmetric]) simp
  ultimately show ?thesis
    using assms(4) by (auto simp: sorted_append)
qed

section \<open>The contract\<close>

locale message_store =
  fixes SaveMessage :: "'env \<Rightarrow> Message \<Rightarrow> 's \<Rightarrow> ('e + Message) \<times> 's"
    and RecentByRoom :: "'env \<Rightarrow> string \<Rightarrow> int \<Rightarrow> 's \<Rightarrow> 'e + Message list"
    and clock :: "'env \<Rightarrow> gotime"
    and healthy :: "'env \<Rightarrow> bool"
    and valid :: "'s \<Rightarrow> bool"
    and full :: "'s \<Rightarrow> bool"
    and stored :: "'s \<Rightarrow> Message list"
    and stamp :: "gotime \<Rightarrow> gotime"
  assumes ids: "valid s \<Longrightarrow> ids_increasing (stored s)"
    and save_ok: "valid s \<Longrightarrow> SaveMessage env m s = (Inr m', s') \<Longrightarrow>
      valid s' \<and> m' = (stamped (clock env) m)\<lparr>mID := mID m'\<rparr> \<and>
      (\<exists>i. stored s' = stored s @ [stored_as stamp (clock env) i m])"
    and save_error: "valid s \<Longrightarrow> SaveMessage env m s = (Inl e, s') \<Longrightarrow>
      valid s' \<and> (stored s' = stored s \<or> (\<exists>i. stored s' = stored s @ [stored_as stamp (clock env) i m]))"
    and save_healthy: "valid s \<Longrightarrow> healthy env \<Longrightarrow> \<not> full s \<Longrightarrow>
      \<exists>m' s'. SaveMessage env m s = (Inr m', s')"
    and recent_ok: "valid s \<Longrightarrow> 0 \<le> lim \<Longrightarrow> RecentByRoom env rm lim s = Inr ms \<Longrightarrow>
      ms = newest (nat lim) rm (stored s)"
    and recent_healthy: "healthy env \<Longrightarrow> 0 \<le> lim \<Longrightarrow> \<exists>ms. RecentByRoom env rm lim s = Inr ms"
begin

lemma save_cases:
  assumes "valid s"
  obtains "valid (snd (SaveMessage env m s))" "stored (snd (SaveMessage env m s)) = stored s"
  | i where "valid (snd (SaveMessage env m s))"
    "stored (snd (SaveMessage env m s)) = stored s @ [stored_as stamp (clock env) i m]"
proof (cases "SaveMessage env m s")
  case (Pair r s')
  then show ?thesis
    using save_ok [OF assms, of env m] save_error [OF assms, of env m] that by (cases r) auto
qed

text \<open>A store only grows, by a subsequence of what was offered to it, in that order.\<close>

lemma save_all_grows:
  "valid s \<Longrightarrow> \<exists>xs. valid (save_all SaveMessage ms s) \<and>
    stored (save_all SaveMessage ms s) = stored s @ xs \<and>
    subseq (map erase_id xs) (map (\<lambda>(env, m). stored_as stamp (clock env) 0 m) ms)"
proof (induction ms arbitrary: s)
  case Nil
  then show ?case by auto
next
  case (Cons x ms)
  obtain env m where x: "x = (env, m)" by fastforce
  let ?s = "snd (SaveMessage env m s)"
  from Cons.prems show ?case
  proof (cases rule: save_cases [where env = env and m = m])
    case 1
    with Cons.IH [of ?s] show ?thesis unfolding x by (auto intro: list_emb_Cons)
  next
    case (2 i)
    with Cons.IH [of ?s] obtain xs where "valid (save_all SaveMessage ms ?s)"
      "stored (save_all SaveMessage ms ?s) = stored s @ stored_as stamp (clock env) i m # xs"
      "subseq (map erase_id xs) (map (\<lambda>(env, m). stored_as stamp (clock env) 0 m) ms)"
      by auto
    then show ?thesis unfolding x
      by (intro exI [of _ "stored_as stamp (clock env) i m # xs"]) simp
  qed
qed

text \<open>When every save is done in healthy circumstances with space left, all of it is there.\<close>

lemma save_all_exact:
  "valid s \<Longrightarrow> saves_fine SaveMessage healthy full ms s \<Longrightarrow> \<exists>xs. stored (save_all SaveMessage ms s) = stored s @ xs \<and>
    map erase_id xs = map (\<lambda>(env, m). stored_as stamp (clock env) 0 m) ms"
proof (induction ms arbitrary: s)
  case Nil
  then show ?case by simp
next
  case (Cons x ms)
  obtain env m where x: "x = (env, m)" by fastforce
  obtain m' s1 where s1: "SaveMessage env m s = (Inr m', s1)"
    using save_healthy [OF Cons.prems(1), of env m] Cons.prems(2) x by auto
  obtain i where i: "valid s1" "stored s1 = stored s @ [stored_as stamp (clock env) i m]"
    using save_ok [OF Cons.prems(1) s1] by blast
  from Cons.IH [OF i(1)] Cons.prems(2) x s1 obtain xs where
    "stored (save_all SaveMessage ms s1) = stored s1 @ xs"
    "map erase_id xs = map (\<lambda>(env, m). stored_as stamp (clock env) 0 m) ms" by auto
  then show ?case
    unfolding x using s1 i(2) by (intro exI [of _ "stored_as stamp (clock env) i m # xs"]) simp
qed

text \<open>History is read in the order of time, and of saving where times are equal.\<close>

lemma recent_is_latest:
  "valid s \<Longrightarrow> 0 \<le> lim \<Longrightarrow> RecentByRoom env rm lim s = Inr ms \<Longrightarrow> ms = latest (nat lim) rm (stored s)"
  using recent_ok newest_latest [OF ids] by simp

end

end
