(* ===== verification/Store.thy ===== *)
theory Store
  imports Message_Store
begin

text \<open>
  The two implementations of the message store in \<^verbatim>\<open>internal/store\<close>, and that both meet the
  interface's contract. The database engines are not under \<^verbatim>\<open>src/\<close>; what is modelled of them
  is the SQL text of the queries, read as operations on a table, with every failure the Go
  code can see given by an explicit argument. A statement that fails leaves the rows as they were; an id
  it was given by a Postgres sequence stays used.
\<close>

section \<open>Table and faults\<close>

record msg_row =
  rowID :: int
  rowRoom :: string
  rowSenderID :: string
  rowSenderName :: string
  rowContent :: string
  rowCreatedAt :: int

text \<open>
  \<open>nextID\<close> is the id the next insert is given (\<^verbatim>\<open>AUTOINCREMENT\<close> in SQLite, the sequence of
  \<^verbatim>\<open>BIGSERIAL\<close> in Postgres); ids are 64-bit signed and an insert past the last one fails.
\<close>

record msg_table =
  tblRows :: "msg_row list"
  nextID :: int

definition empty_table :: msg_table where
  "empty_table = \<lparr>tblRows = [], nextID = 1\<rparr>"

text \<open>
  What goes wrong in one call: the statement fails, it fails only after the row was given an id, the id of an
  inserted row cannot be read back, scanning the row with the given index fails, or iteration breaks off before it.
\<close>

datatype fault = NoFault | ExecFault | SequenceFault | LastIDFault | ScanFault nat | IterFault nat

datatype store_error =
    SavingMessage string
  | QueryingRecent string
  | ScanningRow
  | IteratingRows

text \<open>One call's circumstances: the wall clock and the fault, if any.\<close>

record db_env =
  envNow :: gotime
  envFault :: fault

section \<open>The SQL statements\<close>

text \<open>
  \<^verbatim>\<open>INSERT INTO messages (room, sender_id, sender_name, content, created_at) VALUES (...)\<close>.
\<close>

definition insert_fails :: "fault \<Rightarrow> bool" where
  "insert_fails f \<longleftrightarrow> f = ExecFault \<or> f = SequenceFault"

lemma insert_fails_simps [simp]:
  "\<not> insert_fails NoFault" "insert_fails ExecFault" "insert_fails SequenceFault" "\<not> insert_fails LastIDFault"
  "\<not> insert_fails (ScanFault k)" "\<not> insert_fails (IterFault k)"
  by (simp_all add: insert_fails_def)

definition sql_insert_message ::
    "fault \<Rightarrow> Message \<Rightarrow> int \<Rightarrow> msg_table \<Rightarrow> (int \<times> msg_table) option" where
  "sql_insert_message f m created t =
     (if insert_fails f \<or> 2 ^ 63 \<le> nextID t then None
      else Some (nextID t, t\<lparr>tblRows := tblRows t @ [\<lparr>rowID = nextID t, rowRoom = mRoom m,
         rowSenderID = mSenderID m, rowSenderName = mSenderName m, rowContent = mContent m,
         rowCreatedAt = created\<rparr>], nextID := nextID t + 1\<rparr>))"

text \<open>
  \<^verbatim>\<open>SELECT ... WHERE room = ? ORDER BY created_at DESC, id DESC LIMIT ?\<close>. A negative limit means
  no limit in SQLite and is an error in Postgres.
\<close>

definition row_key :: "msg_row \<Rightarrow> int \<times> int" where
  "row_key r = (rowCreatedAt r, rowID r)"

definition sql_select_recent :: "string \<Rightarrow> msg_table \<Rightarrow> msg_row list" where
  "sql_select_recent rm t =
     rev (sort_key row_key (filter (\<lambda>r. rowRoom r = rm) (tblRows t)))"

definition sqlite_limit :: "int \<Rightarrow> 'r list \<Rightarrow> 'r list" where
  "sqlite_limit lim rs = (if lim < 0 then rs else take (nat lim) rs)"

section \<open>The row loop\<close>

text \<open>
  \<^verbatim>\<open>for rows.Next() { rows.Scan(...); out = append(out, m) }\<close> and the check of \<^verbatim>\<open>rows.Err()\<close>
  after it; \<open>k\<close> counts the rows read so far.
\<close>

fun scan_rows :: "(msg_row \<Rightarrow> Message) \<Rightarrow> fault \<Rightarrow> nat \<Rightarrow> msg_row list \<Rightarrow> Message list \<Rightarrow>
    store_error + Message list" where
  "scan_rows rd f k [] out = (if f = IterFault k then Inl IteratingRows else Inr out)"
| "scan_rows rd f k (r # rs) out =
     (if f = IterFault k then Inl IteratingRows
      else if f = ScanFault k then Inl ScanningRow
      else scan_rows rd f (Suc k) rs (out @ [rd r]))"

section \<open>SQLite\<close>

text \<open>Timestamps are stored as Unix nanoseconds, a signed 64-bit column.\<close>

definition sqlite_row :: "msg_row \<Rightarrow> Message" where
  "sqlite_row r = \<lparr>mID = word_of_int (rowID r), mRoom = rowRoom r, mSenderID = rowSenderID r,
     mSenderName = rowSenderName r, mContent = rowContent r,
     mCreatedAt = Unix_nanos (word_of_int (rowCreatedAt r))\<rparr>"

definition SQLite_SaveMessage ::
    "db_env \<Rightarrow> Message \<Rightarrow> msg_table \<Rightarrow> (store_error + Message) \<times> msg_table" where
  "SQLite_SaveMessage env m0 t =
     (let m = stamped (envNow env) m0
      in case sql_insert_message (envFault env) m (sint (UnixNano (mCreatedAt m))) t of
           None \<Rightarrow> (Inl (SavingMessage (mRoom m)), t)
         | Some (i, t') \<Rightarrow>
             (Inr (if envFault env = LastIDFault then m else m\<lparr>mID := word_of_int i\<rparr>), t'))"

definition SQLite_RecentByRoom ::
    "db_env \<Rightarrow> string \<Rightarrow> int \<Rightarrow> msg_table \<Rightarrow> store_error + Message list" where
  "SQLite_RecentByRoom env rm lim t =
     (if envFault env = ExecFault then Inl (QueryingRecent rm)
      else (case scan_rows sqlite_row (envFault env) 0
                   (sqlite_limit lim (sql_select_recent rm t)) [] of
              Inl e \<Rightarrow> Inl e
            | Inr out \<Rightarrow> Inr (rev out)))"

section \<open>Postgres\<close>

text \<open>
  The row id comes back from the insert itself (\<^verbatim>\<open>RETURNING id\<close>), so a failed read of it
  fails the call, although the row may be there: the model takes that worst case. The sequence does not take
  back an id when the statement fails, while SQLite's counter is part of the transaction. A timestamp column keeps
  microseconds: \<open>ts\<close> is what the driver and the column make of an instant.
\<close>

definition postgres_row :: "msg_row \<Rightarrow> Message" where
  "postgres_row r = \<lparr>mID = word_of_int (rowID r), mRoom = rowRoom r, mSenderID = rowSenderID r,
     mSenderName = rowSenderName r, mContent = rowContent r, mCreatedAt = rowCreatedAt r\<rparr>"

definition spend_id :: "fault \<Rightarrow> msg_table \<Rightarrow> msg_table" where
  "spend_id f t = (if f = SequenceFault \<and> nextID t < 2 ^ 63 then t\<lparr>nextID := nextID t + 1\<rparr> else t)"

definition Postgres_SaveMessage ::
    "(gotime \<Rightarrow> gotime) \<Rightarrow> db_env \<Rightarrow> Message \<Rightarrow> msg_table \<Rightarrow> (store_error + Message) \<times> msg_table" where
  "Postgres_SaveMessage ts env m0 t =
     (let m = stamped (envNow env) m0
      in case sql_insert_message (envFault env) m (ts (mCreatedAt m)) t of
           None \<Rightarrow> (Inl (SavingMessage (mRoom m)), spend_id (envFault env) t)
         | Some (i, t') \<Rightarrow>
             (if envFault env = LastIDFault then Inl (SavingMessage (mRoom m))
              else Inr (m\<lparr>mID := word_of_int i\<rparr>), t'))"

definition Postgres_RecentByRoom ::
    "db_env \<Rightarrow> string \<Rightarrow> int \<Rightarrow> msg_table \<Rightarrow> store_error + Message list" where
  "Postgres_RecentByRoom env rm lim t =
     (if envFault env = ExecFault \<or> lim < 0 then Inl (QueryingRecent rm)
      else (case scan_rows postgres_row (envFault env) 0
                   (take (nat lim) (sql_select_recent rm t)) [] of
              Inl e \<Rightarrow> Inl e
            | Inr out \<Rightarrow> Inr (rev out)))"


section \<open>Both stores meet the contract\<close>

definition table_ok :: "msg_table \<Rightarrow> bool" where
  "table_ok t \<longleftrightarrow> sorted_wrt (<) (map rowID (tblRows t)) \<and> nextID t \<le> 2 ^ 63 \<and> 1 \<le> nextID t \<and>
     (\<forall>r \<in> set (tblRows t). 1 \<le> rowID r \<and> rowID r < nextID t)"

definition sqlite_ok :: "msg_table \<Rightarrow> bool" where
  "sqlite_ok t \<longleftrightarrow> table_ok t \<and> (\<forall>r \<in> set (tblRows t). nano_range (rowCreatedAt r))"

definition table_full :: "msg_table \<Rightarrow> bool" where
  "table_full t \<longleftrightarrow> 2 ^ 63 \<le> nextID t"

lemma scan_rows_ok: "scan_rows rd f k rs out = Inr ms \<Longrightarrow> ms = out @ map rd rs"
  by (induction rs arbitrary: k out) (fastforce split: if_splits)+

lemma scan_rows_no_fault: "scan_rows rd NoFault k rs out = Inr (out @ map rd rs)"
  by (induction rs arbitrary: k out) simp_all

lemma sint_id: "1 \<le> i \<Longrightarrow> i < 2 ^ 63 \<Longrightarrow> sint (word_of_int i :: int64) = i"
  by (simp add: sint_sbintrunc' signed_take_bit_int_eq_self)

lemma nano_range_sint: "nano_range (sint (w :: int64))"
  using sint_ge [of w] sint_lt [of w] by (simp add: nano_range_def)

text \<open>The newest rows of the query are the newest messages, for any row reader that keeps the key.\<close>

lemma query_newest:
  assumes "\<And>r. r \<in> set (tblRows t) \<Longrightarrow> msg_key (rd r) = row_key r"
    and "\<And>r. mRoom (rd r) = rowRoom r"
  shows "map rd (rev (take n (sql_select_recent rm t))) = newest n rm (map rd (tblRows t))"
proof -
  let ?rs = "filter (\<lambda>r. rowRoom r = rm) (tblRows t)"
  have "sort_key msg_key (map rd ?rs) = map rd (sort_key row_key ?rs)"
    unfolding sort_key_map using assms(1)
    by (intro arg_cong [where f = "map rd"] sort_key_cong) simp
  moreover have "filter (\<lambda>m. mRoom m = rm) (map rd (tblRows t)) = map rd ?rs"
    by (simp add: filter_map comp_def assms(2))
  ultimately show ?thesis
    by (simp add: newest_def sql_select_recent_def last_n_rev_take last_n_map)
qed

lemma sqlite_row_key: "sqlite_ok t \<Longrightarrow> r \<in> set (tblRows t) \<Longrightarrow> msg_key (sqlite_row r) = row_key r"
  using Unix_UnixNano [of "rowCreatedAt r"]
  by (auto simp: msg_key_def sqlite_row_def row_key_def sqlite_ok_def table_ok_def sint_id UnixNano_def)

lemma postgres_row_key: "table_ok t \<Longrightarrow> r \<in> set (tblRows t) \<Longrightarrow> msg_key (postgres_row r) = row_key r"
  by (auto simp: msg_key_def postgres_row_def row_key_def table_ok_def sint_id)

lemma insert_ok:
  assumes "table_ok t" and "sql_insert_message f m c t = Some (i, t')"
  shows "table_ok t'" "tblRows t' = tblRows t @ [\<lparr>rowID = i, rowRoom = mRoom m,
      rowSenderID = mSenderID m, rowSenderName = mSenderName m, rowContent = mContent m,
      rowCreatedAt = c\<rparr>]"
  using assms
  by (auto simp: sql_insert_message_def table_ok_def sorted_wrt_append less_imp_le split: if_splits)

lemma spend_id_simps [simp]:
  "tblRows (spend_id f t) = tblRows t" "table_ok t \<Longrightarrow> table_ok (spend_id f t)"
  by (auto simp: spend_id_def table_ok_def)

lemma ids_increasing_rows:
  assumes "table_ok t" and "\<And>r. r \<in> set (tblRows t) \<Longrightarrow> sint (mID (rd r)) = rowID r"
  shows "ids_increasing (map rd (tblRows t))"
proof -
  have "sorted_wrt (\<lambda>a b. rowID a < rowID b) (tblRows t)"
    using assms(1) by (simp add: table_ok_def sorted_wrt_map)
  then show ?thesis
    unfolding ids_increasing_def sorted_wrt_map
    by (rule sorted_wrt_mono_rel [rotated]) (simp add: assms(2))
qed

lemma sqlite_insert:
  assumes "sqlite_ok t"
    and "sql_insert_message f m (sint (UnixNano (mCreatedAt m))) t = Some (i, t')"
  shows "sqlite_ok t'" and "map sqlite_row (tblRows t') = map sqlite_row (tblRows t) @
      [m\<lparr>mID := word_of_int i, mCreatedAt := Unix_nanos (UnixNano (mCreatedAt m))\<rparr>]"
  using assms insert_ok [of t f m "sint (UnixNano (mCreatedAt m))" i t'] nano_range_sint
  by (auto simp: sqlite_ok_def sqlite_row_def Unix_nanos_def)

lemma postgres_insert:
  assumes "table_ok t" and "sql_insert_message f m (ts (mCreatedAt m)) t = Some (i, t')"
  shows "table_ok t'" and "map postgres_row (tblRows t') = map postgres_row (tblRows t) @
      [m\<lparr>mID := word_of_int i, mCreatedAt := ts (mCreatedAt m)\<rparr>]"
  using assms insert_ok [of t f m "ts (mCreatedAt m)" i t'] by (auto simp: postgres_row_def)

lemma stamped_simps [simp]:
  "mRoom (stamped now m) = mRoom m" "mContent (stamped now m) = mContent m"
  "mID (stamped now m) = mID m"
  "(stamped now m)\<lparr>mID := i, mCreatedAt := x\<rparr> = m\<lparr>mID := i, mCreatedAt := x\<rparr>"
  by (simp_all add: stamped_def)

interpretation sqlite: message_store SQLite_SaveMessage SQLite_RecentByRoom envNow
    "\<lambda>env. envFault env = NoFault" sqlite_ok table_full "\<lambda>t. map sqlite_row (tblRows t)"
    "\<lambda>t. Unix_nanos (UnixNano t)"
proof
  fix t t' :: msg_table and env :: db_env and m m' :: Message and e :: store_error
    and lim :: int and rm :: string and ms :: "Message list"
  show "sqlite_ok t \<Longrightarrow> ids_increasing (map sqlite_row (tblRows t))"
    by (intro ids_increasing_rows) (auto simp: sqlite_ok_def table_ok_def sqlite_row_def sint_id)
  show "sqlite_ok t' \<and> m' = (stamped (envNow env) m)\<lparr>mID := mID m'\<rparr> \<and>
      (\<exists>i. map sqlite_row (tblRows t') = map sqlite_row (tblRows t) @
         [stored_as (\<lambda>t. Unix_nanos (UnixNano t)) (envNow env) i m])"
    if "sqlite_ok t" and "SQLite_SaveMessage env m t = (Inr m', t')"
    using that sqlite_insert [OF that(1), of "envFault env" "stamped (envNow env) m"]
    by (auto simp: SQLite_SaveMessage_def Let_def stored_as_def split: option.splits)
  show "sqlite_ok t' \<and> (map sqlite_row (tblRows t') = map sqlite_row (tblRows t) \<or>
      (\<exists>i. map sqlite_row (tblRows t') = map sqlite_row (tblRows t) @
         [stored_as (\<lambda>t. Unix_nanos (UnixNano t)) (envNow env) i m]))"
    if "sqlite_ok t" and "SQLite_SaveMessage env m t = (Inl e, t')"
    using that by (auto simp: SQLite_SaveMessage_def Let_def split: option.splits)
  show "\<exists>m' t'. SQLite_SaveMessage env m t = (Inr m', t')"
    if "sqlite_ok t" and "envFault env = NoFault" and "\<not> table_full t"
    using that by (auto simp: SQLite_SaveMessage_def Let_def sql_insert_message_def table_full_def)
  show "ms = newest (nat lim) rm (map sqlite_row (tblRows t))"
    if "sqlite_ok t" and "0 \<le> lim" and "SQLite_RecentByRoom env rm lim t = Inr ms"
  proof -
    have "ms = rev (map sqlite_row (take (nat lim) (sql_select_recent rm t)))"
      using that(2,3) by (auto simp: SQLite_RecentByRoom_def sqlite_limit_def
          dest!: scan_rows_ok split: if_splits sum.splits)
    then show ?thesis
      using query_newest [of t sqlite_row "nat lim" rm] sqlite_row_key [OF that(1)]
      by (simp add: rev_map sqlite_row_def)
  qed
  show "\<exists>ms. SQLite_RecentByRoom env rm lim t = Inr ms" if "envFault env = NoFault" and "0 \<le> lim"
    using that by (simp add: SQLite_RecentByRoom_def scan_rows_no_fault)
qed

interpretation postgres: message_store "Postgres_SaveMessage ts" Postgres_RecentByRoom envNow
    "\<lambda>env. envFault env = NoFault" table_ok table_full "\<lambda>t. map postgres_row (tblRows t)" ts
  for ts
proof
  fix t t' :: msg_table and env :: db_env and m m' :: Message and e :: store_error
    and lim :: int and rm :: string and ms :: "Message list"
  show "table_ok t \<Longrightarrow> ids_increasing (map postgres_row (tblRows t))"
    by (intro ids_increasing_rows) (auto simp: table_ok_def postgres_row_def sint_id)
  show "table_ok t' \<and> m' = (stamped (envNow env) m)\<lparr>mID := mID m'\<rparr> \<and>
      (\<exists>i. map postgres_row (tblRows t') = map postgres_row (tblRows t) @
         [stored_as ts (envNow env) i m])"
    if "table_ok t" and "Postgres_SaveMessage ts env m t = (Inr m', t')"
    using that postgres_insert [OF that(1), of "envFault env" "stamped (envNow env) m" ts]
    by (auto simp: Postgres_SaveMessage_def Let_def stored_as_def split: option.splits if_splits)
  show "table_ok t' \<and> (map postgres_row (tblRows t') = map postgres_row (tblRows t) \<or>
      (\<exists>i. map postgres_row (tblRows t') = map postgres_row (tblRows t) @
         [stored_as ts (envNow env) i m]))"
    if "table_ok t" and "Postgres_SaveMessage ts env m t = (Inl e, t')"
    using that postgres_insert [OF that(1), of "envFault env" "stamped (envNow env) m" ts]
    by (auto simp: Postgres_SaveMessage_def Let_def stored_as_def split: option.splits if_splits)
  show "\<exists>m' t'. Postgres_SaveMessage ts env m t = (Inr m', t')"
    if "table_ok t" and "envFault env = NoFault" and "\<not> table_full t"
    using that by (auto simp: Postgres_SaveMessage_def Let_def sql_insert_message_def table_full_def)
  show "ms = newest (nat lim) rm (map postgres_row (tblRows t))"
    if "table_ok t" and "0 \<le> lim" and "Postgres_RecentByRoom env rm lim t = Inr ms"
  proof -
    have "ms = rev (map postgres_row (take (nat lim) (sql_select_recent rm t)))"
      using that(2,3) by (auto simp: Postgres_RecentByRoom_def
          dest!: scan_rows_ok split: if_splits sum.splits)
    then show ?thesis
      using query_newest [of t postgres_row "nat lim" rm] postgres_row_key [OF that(1)]
      by (simp add: rev_map postgres_row_def)
  qed
  show "\<exists>ms. Postgres_RecentByRoom env rm lim t = Inr ms" if "envFault env = NoFault" and "0 \<le> lim"
    using that by (simp add: Postgres_RecentByRoom_def scan_rows_no_fault)
qed

end
