(* ===== verification/Auth_Store.thy ===== *)
theory Auth_Store
  imports Store
begin

text \<open>
  Accounts and sessions: the interface \<^verbatim>\<open>Store\<close> of \<^verbatim>\<open>internal/auth/auth.go\<close> as a locale, and
  its two implementations (\<^verbatim>\<open>internal/auth/sqlite.go\<close>, \<^verbatim>\<open>postgres.go\<close>) on a model of the SQL
  they issue. The database engines are not under \<^verbatim>\<open>src/\<close>; the statements are read from their
  text and from the schema, and every failure of a call is an explicit argument. A call that fails has
  had no effect on the tables, with one exception: an account whose id could not be read back is there. (A lost
  connection could also leave a session stored whose insert was reported as failed; nobody is given its
  token then, and the model leaves it out.)
\<close>

section \<open>Data\<close>

record User =
  uID :: int64
  uUsername :: string
  uDisplayName :: string

datatype input_reason = BadUsername | BadPassword | BadDisplayName

text \<open>
  The errors of the package: the four sentinels (\<^verbatim>\<open>ErrInvalidInput\<close> is only ever wrapped, with
  its reason) and the wrapped failures below them.
\<close>

datatype auth_error =
    ErrUsernameTaken
  | ErrInvalidCredentials
  | ErrInvalidInput input_reason
  | ErrNoSession
  | CreatingUser string
  | LookingUpUser string
  | StoringSession
  | ResolvingSession
  | DeletingSession
  | HashingPassword
  | GeneratingToken
  | CreatingSession auth_error

record auth_env =
  aNow :: gotime
  aDbNow :: gotime
  aFault :: fault

section \<open>The contract\<close>

text \<open>
  \<open>account\<close> and \<open>session\<close> are the abstract content: usernames to accounts with their password
  hash, token hashes to the account id and the expiry as the store keeps it.
\<close>

locale auth_store =
  fixes create_user :: "'env \<Rightarrow> string \<Rightarrow> string \<Rightarrow> string \<Rightarrow> 's \<Rightarrow> (auth_error + User) \<times> 's"
    and credentials_of :: "'env \<Rightarrow> string \<Rightarrow> 's \<Rightarrow> auth_error + User \<times> string"
    and create_session :: "'env \<Rightarrow> string \<Rightarrow> int64 \<Rightarrow> gotime \<Rightarrow> 's \<Rightarrow> (auth_error + unit) \<times> 's"
    and user_by_session :: "'env \<Rightarrow> string \<Rightarrow> 's \<Rightarrow> auth_error + User"
    and delete_session :: "'env \<Rightarrow> string \<Rightarrow> 's \<Rightarrow> (auth_error + unit) \<times> 's"
    and now :: "'env \<Rightarrow> gotime"
    and healthy :: "'env \<Rightarrow> bool"
    and valid :: "'s \<Rightarrow> bool"
    and full :: "'s \<Rightarrow> bool"
    and account :: "'s \<Rightarrow> string \<Rightarrow> (User \<times> string) option"
    and session :: "'s \<Rightarrow> string \<Rightarrow> (int64 \<times> gotime) option"
    and stamp :: "gotime \<Rightarrow> gotime"
  assumes account_name: "valid s \<Longrightarrow> account s n = Some (u, h) \<Longrightarrow> uUsername u = n"
    and account_id: "valid s \<Longrightarrow> account s n = Some (u, h) \<Longrightarrow> account s n' = Some (u', h') \<Longrightarrow>
      uID u = uID u' \<Longrightarrow> n = n'"
    and create_ok: "valid s \<Longrightarrow> create_user env n h d s = (Inr u, s') \<Longrightarrow>
      valid s' \<and> account s n = None \<and> account s' = (account s)(n \<mapsto> (u, h)) \<and>
      uDisplayName u = d \<and> session s' = session s"
    and create_err: "valid s \<Longrightarrow> create_user env n h d s = (Inl er, s') \<Longrightarrow>
      valid s' \<and> session s' = session s \<and>
      (account s' = account s \<or>
       account s n = None \<and> er \<noteq> ErrUsernameTaken \<and> (\<exists>u. account s' = (account s)(n \<mapsto> (u, h)))) \<and>
      (er = ErrUsernameTaken \<longrightarrow> account s n \<noteq> None)"
    and create_taken: "valid s \<Longrightarrow> healthy env \<Longrightarrow> account s n \<noteq> None \<Longrightarrow> \<not> full s \<Longrightarrow>
      \<exists>s'. create_user env n h d s = (Inl ErrUsernameTaken, s')"
    and create_healthy: "valid s \<Longrightarrow> healthy env \<Longrightarrow> account s n = None \<Longrightarrow> \<not> full s \<Longrightarrow>
      \<exists>u s'. create_user env n h d s = (Inr u, s')"
    and credentials_ok: "credentials_of env n s = Inr x \<Longrightarrow> account s n = Some x"
    and credentials_healthy: "healthy env \<Longrightarrow> credentials_of env n s =
      (case account s n of None \<Rightarrow> Inl ErrInvalidCredentials | Some x \<Rightarrow> Inr x)"
    and session_ok: "valid s \<Longrightarrow> create_session env t i exp s = (Inr (), s') \<Longrightarrow>
      valid s' \<and> session s t = None \<and> account s' = account s \<and> session s' = (session s)(t \<mapsto> (i, stamp exp))"
    and session_err: "create_session env t i exp s = (Inl er, s') \<Longrightarrow> s' = s \<and> er = StoringSession"
    and session_healthy: "valid s \<Longrightarrow> healthy env \<Longrightarrow> session s t = None \<Longrightarrow> account s n = Some (u, h) \<Longrightarrow>
      \<exists>s'. create_session env t (uID u) exp s = (Inr (), s')"
    and lookup_ok: "valid s \<Longrightarrow> user_by_session env t s = Inr u \<Longrightarrow>
      \<exists>e n h. session s t = Some (uID u, e) \<and> now env < e \<and> account s n = Some (u, h)"
    and lookup_healthy: "valid s \<Longrightarrow> healthy env \<Longrightarrow> session s t = Some (uID u, e) \<Longrightarrow> now env < e \<Longrightarrow>
      account s n = Some (u, h) \<Longrightarrow> user_by_session env t s = Inr u"
    and lookup_none: "valid s \<Longrightarrow> healthy env \<Longrightarrow> (\<And>i e. session s t = Some (i, e) \<Longrightarrow> \<not> now env < e) \<Longrightarrow>
      user_by_session env t s = Inl ErrNoSession"
    and delete_ok: "valid s \<Longrightarrow> delete_session env t s = (Inr (), s') \<Longrightarrow>
      valid s' \<and> account s' = account s \<and> session s' = (session s)(t := None)"
    and delete_err: "delete_session env t s = (Inl er, s') \<Longrightarrow> s' = s"
    and delete_healthy: "healthy env \<Longrightarrow> \<exists>s'. delete_session env t s = (Inr (), s')"

section \<open>Tables\<close>

record user_row =
  urID :: int
  urName :: string
  urHash :: string
  urDisplay :: string

record session_row =
  srHash :: string
  srUser :: int
  srExpires :: int

record auth_db =
  userRows :: "user_row list"
  sessionRows :: "session_row list"
  nextUser :: int

definition user_of :: "user_row \<Rightarrow> User" where
  "user_of r = \<lparr>uID = word_of_int (urID r), uUsername = urName r, uDisplayName = urDisplay r\<rparr>"

subsection \<open>The statements\<close>

text \<open>
  \<^verbatim>\<open>INSERT INTO users ...\<close>: \<^verbatim>\<open>username\<close> is \<^verbatim>\<open>UNIQUE\<close>, ids are given out in increasing order.
\<close>

datatype insert_error = UniqueViolation | OtherFailure

definition sql_insert_user ::
    "fault \<Rightarrow> string \<Rightarrow> string \<Rightarrow> string \<Rightarrow> auth_db \<Rightarrow> insert_error + int \<times> auth_db" where
  "sql_insert_user f n h d db =
     (if insert_fails f \<or> 2 ^ 63 \<le> nextUser db then Inl OtherFailure
      else if n \<in> urName ` set (userRows db) then Inl UniqueViolation
      else Inr (nextUser db, db\<lparr>userRows := userRows db @ [\<lparr>urID = nextUser db, urName = n,
         urHash = h, urDisplay = d\<rparr>], nextUser := nextUser db + 1\<rparr>))"

definition sql_select_user :: "string \<Rightarrow> auth_db \<Rightarrow> user_row option" where
  "sql_select_user n db = find (\<lambda>r. urName r = n) (userRows db)"

text \<open>
  \<^verbatim>\<open>INSERT INTO sessions ...\<close>: the token hash is the primary key and the user id a foreign key.
\<close>

definition sql_insert_session :: "fault \<Rightarrow> string \<Rightarrow> int \<Rightarrow> int \<Rightarrow> auth_db \<Rightarrow> auth_db option" where
  "sql_insert_session f t i e db =
     (if f \<noteq> NoFault \<or> t \<in> srHash ` set (sessionRows db) \<or> i \<notin> urID ` set (userRows db) then None
      else Some (db\<lparr>sessionRows := sessionRows db @ [\<lparr>srHash = t, srUser = i, srExpires = e\<rparr>]\<rparr>))"

text \<open>
  \<^verbatim>\<open>SELECT ... FROM sessions s JOIN users u ON u.id = s.user_id WHERE s.token_hash = ? AND
  s.expires_at > ?\<close>, its first row.
\<close>

definition sql_select_session :: "string \<Rightarrow> int \<Rightarrow> auth_db \<Rightarrow> user_row option" where
  "sql_select_session t now db =
     (case find (\<lambda>s. srHash s = t \<and> now < srExpires s) (sessionRows db) of
        None \<Rightarrow> None
      | Some s \<Rightarrow> find (\<lambda>u. urID u = srUser s) (userRows db))"

definition sql_delete_session :: "string \<Rightarrow> auth_db \<Rightarrow> auth_db" where
  "sql_delete_session t db = db\<lparr>sessionRows := filter (\<lambda>s. srHash s \<noteq> t) (sessionRows db)\<rparr>"

section \<open>SQLite\<close>

definition SQLite_CreateUser ::
    "auth_env \<Rightarrow> string \<Rightarrow> string \<Rightarrow> string \<Rightarrow> auth_db \<Rightarrow> (auth_error + User) \<times> auth_db" where
  "SQLite_CreateUser env username passwordHash displayName db =
     (case sql_insert_user (aFault env) username passwordHash displayName db of
        Inl UniqueViolation \<Rightarrow> (Inl ErrUsernameTaken, db)
      | Inl OtherFailure \<Rightarrow> (Inl (CreatingUser username), db)
      | Inr (i, db') \<Rightarrow>
          if aFault env = LastIDFault then (Inl (CreatingUser username), db')
          else (Inr \<lparr>uID = word_of_int i, uUsername = username, uDisplayName = displayName\<rparr>, db'))"

definition SQLite_CredentialsByUsername :: "auth_env \<Rightarrow> string \<Rightarrow> auth_db \<Rightarrow> auth_error + User \<times> string" where
  "SQLite_CredentialsByUsername env username db =
     (if aFault env \<noteq> NoFault then Inl (LookingUpUser username)
      else (case sql_select_user username db of
              None \<Rightarrow> Inl ErrInvalidCredentials
            | Some r \<Rightarrow> Inr (user_of r, urHash r)))"

definition SQLite_CreateSession ::
    "auth_env \<Rightarrow> string \<Rightarrow> int64 \<Rightarrow> gotime \<Rightarrow> auth_db \<Rightarrow> (auth_error + unit) \<times> auth_db" where
  "SQLite_CreateSession env tokenHash userID expiresAt db =
     (case sql_insert_session (aFault env) tokenHash (sint userID) (sint (UnixNano expiresAt)) db of
        None \<Rightarrow> (Inl StoringSession, db)
      | Some db' \<Rightarrow> (Inr (), db'))"

definition SQLite_UserBySessionToken :: "auth_env \<Rightarrow> string \<Rightarrow> auth_db \<Rightarrow> auth_error + User" where
  "SQLite_UserBySessionToken env tokenHash db =
     (if aFault env \<noteq> NoFault then Inl ResolvingSession
      else (case sql_select_session tokenHash (sint (UnixNano (aNow env))) db of
              None \<Rightarrow> Inl ErrNoSession
            | Some r \<Rightarrow> Inr (user_of r)))"

definition SQLite_DeleteSession :: "auth_env \<Rightarrow> string \<Rightarrow> auth_db \<Rightarrow> (auth_error + unit) \<times> auth_db" where
  "SQLite_DeleteSession env tokenHash db =
     (if aFault env \<noteq> NoFault then (Inl DeletingSession, db)
      else (Inr (), sql_delete_session tokenHash db))"

section \<open>Postgres\<close>

text \<open>
  A refused insert, and one that fails after it was given an id, still use up a value of the id sequence; expiry is compared with the
  database's own clock; \<open>ts\<close> is the precision of the timestamp column.
\<close>

definition spend_user_id :: "fault \<Rightarrow> auth_db \<Rightarrow> auth_db" where
  "spend_user_id f db = (if f = SequenceFault \<and> nextUser db < 2 ^ 63 then db\<lparr>nextUser := nextUser db + 1\<rparr> else db)"

definition Postgres_CreateUser ::
    "auth_env \<Rightarrow> string \<Rightarrow> string \<Rightarrow> string \<Rightarrow> auth_db \<Rightarrow> (auth_error + User) \<times> auth_db" where
  "Postgres_CreateUser env username passwordHash displayName db =
     (case sql_insert_user (aFault env) username passwordHash displayName db of
        Inl UniqueViolation \<Rightarrow> (Inl ErrUsernameTaken, db\<lparr>nextUser := nextUser db + 1\<rparr>)
      | Inl OtherFailure \<Rightarrow> (Inl (CreatingUser username), spend_user_id (aFault env) db)
      | Inr (i, db') \<Rightarrow>
          if aFault env = LastIDFault then (Inl (CreatingUser username), db')
          else (Inr \<lparr>uID = word_of_int i, uUsername = username, uDisplayName = displayName\<rparr>, db'))"

definition Postgres_CredentialsByUsername :: "auth_env \<Rightarrow> string \<Rightarrow> auth_db \<Rightarrow> auth_error + User \<times> string" where
  "Postgres_CredentialsByUsername env username db =
     (if aFault env \<noteq> NoFault then Inl (LookingUpUser username)
      else (case sql_select_user username db of
              None \<Rightarrow> Inl ErrInvalidCredentials
            | Some r \<Rightarrow> Inr (user_of r, urHash r)))"

definition Postgres_CreateSession ::
    "(gotime \<Rightarrow> gotime) \<Rightarrow> auth_env \<Rightarrow> string \<Rightarrow> int64 \<Rightarrow> gotime \<Rightarrow> auth_db \<Rightarrow> (auth_error + unit) \<times> auth_db" where
  "Postgres_CreateSession ts env tokenHash userID expiresAt db =
     (case sql_insert_session (aFault env) tokenHash (sint userID) (ts expiresAt) db of
        None \<Rightarrow> (Inl StoringSession, db)
      | Some db' \<Rightarrow> (Inr (), db'))"

definition Postgres_UserBySessionToken :: "auth_env \<Rightarrow> string \<Rightarrow> auth_db \<Rightarrow> auth_error + User" where
  "Postgres_UserBySessionToken env tokenHash db =
     (if aFault env \<noteq> NoFault then Inl ResolvingSession
      else (case sql_select_session tokenHash (aDbNow env) db of
              None \<Rightarrow> Inl ErrNoSession
            | Some r \<Rightarrow> Inr (user_of r)))"

definition Postgres_DeleteSession :: "auth_env \<Rightarrow> string \<Rightarrow> auth_db \<Rightarrow> (auth_error + unit) \<times> auth_db" where
  "Postgres_DeleteSession env tokenHash db =
     (if aFault env \<noteq> NoFault then (Inl DeletingSession, db)
      else (Inr (), sql_delete_session tokenHash db))"

section \<open>Both meet the contract\<close>

definition auth_ok :: "auth_db \<Rightarrow> bool" where
  "auth_ok db \<longleftrightarrow> distinct (map urName (userRows db)) \<and> distinct (map urID (userRows db)) \<and>
     (\<forall>r \<in> set (userRows db). 1 \<le> urID r \<and> urID r < nextUser db) \<and>
     1 \<le> nextUser db \<and> nextUser db \<le> 2 ^ 63 \<and>
     distinct (map srHash (sessionRows db)) \<and>
     (\<forall>s \<in> set (sessionRows db). srUser s \<in> urID ` set (userRows db))"

definition users_full :: "auth_db \<Rightarrow> bool" where
  "users_full db \<longleftrightarrow> 2 ^ 63 - 1 \<le> nextUser db"

definition db_account :: "auth_db \<Rightarrow> string \<Rightarrow> (User \<times> string) option" where
  "db_account db n = map_option (\<lambda>r. (user_of r, urHash r)) (sql_select_user n db)"

definition db_session :: "auth_db \<Rightarrow> string \<Rightarrow> (int64 \<times> gotime) option" where
  "db_session db t = map_option (\<lambda>s. (word_of_int (srUser s), srExpires s))
     (find (\<lambda>s. srHash s = t) (sessionRows db))"

lemma find_append: "find P (xs @ ys) = (case find P xs of None \<Rightarrow> find P ys | Some x \<Rightarrow> Some x)"
  by (induction xs) simp_all

lemma find_key:
  "distinct (map f xs) \<Longrightarrow> find (\<lambda>x. f x = k) xs = Some r \<longleftrightarrow> r \<in> set xs \<and> f r = k"
  by (induction xs) auto

lemma find_key_None: "find (\<lambda>x. f x = k) xs = None \<longleftrightarrow> k \<notin> f ` set xs"
  by (auto simp: find_None_iff)

lemma auth_okD:
  assumes "auth_ok db"
  shows "distinct (map urName (userRows db))" "distinct (map urID (userRows db))"
    "\<And>r. r \<in> set (userRows db) \<Longrightarrow> sint (word_of_int (urID r) :: int64) = urID r"
    "\<And>r. r \<in> set (userRows db) \<Longrightarrow> 1 \<le> urID r \<and> urID r < nextUser db"
    "distinct (map srHash (sessionRows db))"
    "\<And>s. s \<in> set (sessionRows db) \<Longrightarrow> srUser s \<in> urID ` set (userRows db)"
  using assms by (auto simp: auth_ok_def sint_id)

lemma db_account_iff:
  "auth_ok db \<Longrightarrow> db_account db n = Some (u, h) \<longleftrightarrow>
     (\<exists>r \<in> set (userRows db). urName r = n \<and> u = user_of r \<and> h = urHash r)"
  by (auto simp: db_account_def sql_select_user_def find_key auth_okD(1))

lemma db_account_None: "db_account db n = None \<longleftrightarrow> n \<notin> urName ` set (userRows db)"
  by (simp add: db_account_def sql_select_user_def find_key_None)

lemma db_session_iff:
  "auth_ok db \<Longrightarrow> db_session db t = Some (i, e) \<longleftrightarrow>
     (\<exists>s \<in> set (sessionRows db). srHash s = t \<and> i = word_of_int (srUser s) \<and> e = srExpires s)"
  by (auto simp: db_session_def find_key auth_okD(5))

lemma db_session_None: "db_session db t = None \<longleftrightarrow> t \<notin> srHash ` set (sessionRows db)"
  by (simp add: db_session_def find_key_None)

lemma user_row_eq:
  assumes "auth_ok db" and "r \<in> set (userRows db)" and "r' \<in> set (userRows db)"
    and "(word_of_int (urID r) :: int64) = word_of_int (urID r')"
  shows "r = r'"
proof -
  have "urID r = urID r'" using auth_okD(3) [OF assms(1)] assms(2-4) by metis
  then show ?thesis using auth_okD(2) [OF assms(1)] assms(2,3) by (auto simp: distinct_map dest: inj_onD)
qed

lemma insert_user:
  assumes "auth_ok db" and "sql_insert_user f n h d db = Inr (i, db')"
  shows "auth_ok db'" and "db_account db n = None"
    and "db_account db' = (db_account db)(n \<mapsto> (\<lparr>uID = word_of_int i, uUsername = n, uDisplayName = d\<rparr>, h))"
    and "db_session db' = db_session db"
proof -
  have db': "db' = db\<lparr>userRows := userRows db @ [\<lparr>urID = nextUser db, urName = n, urHash = h,
      urDisplay = d\<rparr>], nextUser := nextUser db + 1\<rparr>" and i: "i = nextUser db"
    and new: "n \<notin> urName ` set (userRows db)" "nextUser db < 2 ^ 63"
    using assms(2) by (auto simp: sql_insert_user_def split: if_splits)
  show "db_account db n = None" using new(1) by (simp add: db_account_None)
  show "db_session db' = db_session db" by (simp add: db' db_session_def fun_eq_iff)
  show "auth_ok db'"
    using assms(1) new unfolding auth_ok_def db' by auto
  show "db_account db' = (db_account db)(n \<mapsto> (\<lparr>uID = word_of_int i, uUsername = n, uDisplayName = d\<rparr>, h))"
  proof
    fix k
    show "db_account db' k = ((db_account db)(n \<mapsto> (\<lparr>uID = word_of_int i, uUsername = n, uDisplayName = d\<rparr>, h))) k"
    proof (cases "k = n")
      case True
      then have "find (\<lambda>r. urName r = k) (userRows db) = None" using new(1) by (simp add: find_key_None)
      then show ?thesis using True
        by (simp add: i db' db_account_def sql_select_user_def find_append user_of_def)
    next
      case False
      then show ?thesis
        by (simp add: db' db_account_def sql_select_user_def find_append split: option.split)
    qed
  qed
qed

lemma add_session:
  assumes "auth_ok db" and "sql_insert_session f t i e db = Some db'"
  shows "auth_ok db'" and "db_session db t = None" and "db_account db' = db_account db"
    and "db_session db' = (db_session db)(t \<mapsto> (word_of_int i, e))"
proof -
  have db': "db' = db\<lparr>sessionRows := sessionRows db @ [\<lparr>srHash = t, srUser = i, srExpires = e\<rparr>]\<rparr>"
    and new: "t \<notin> srHash ` set (sessionRows db)" "i \<in> urID ` set (userRows db)"
    using assms(2) by (auto simp: sql_insert_session_def split: if_splits)
  show "db_session db t = None" using new(1) by (simp add: db_session_None)
  show "db_account db' = db_account db"
    by (simp add: db' db_account_def sql_select_user_def fun_eq_iff)
  show "auth_ok db'" using assms(1) new unfolding auth_ok_def db' by auto
  show "db_session db' = (db_session db)(t \<mapsto> (word_of_int i, e))"
  proof
    fix k
    show "db_session db' k = ((db_session db)(t \<mapsto> (word_of_int i, e))) k"
    proof (cases "k = t")
      case True
      then have "find (\<lambda>s. srHash s = k) (sessionRows db) = None" using new(1) by (simp add: find_key_None)
      then show ?thesis using True by (simp add: db' db_session_def find_append)
    next
      case False
      then show ?thesis by (simp add: db' db_session_def find_append split: option.split)
    qed
  qed
qed

lemma select_session:
  assumes "auth_ok db"
  shows "sql_select_session t now db = Some r \<longleftrightarrow> r \<in> set (userRows db) \<and>
    (\<exists>e. db_session db t = Some (word_of_int (urID r), e) \<and> now < e)"
proof
  assume "sql_select_session t now db = Some r"
  then obtain s where s: "find (\<lambda>s. srHash s = t \<and> now < srExpires s) (sessionRows db) = Some s"
    and r: "find (\<lambda>u. urID u = srUser s) (userRows db) = Some r"
    by (auto simp: sql_select_session_def split: option.splits)
  have "s \<in> set (sessionRows db)" "srHash s = t" "now < srExpires s"
    using s by (auto simp: find_Some_iff)
  moreover have "r \<in> set (userRows db)" "urID r = srUser s"
    using r by (simp_all add: find_key auth_okD(2) [OF assms])
  ultimately show "r \<in> set (userRows db) \<and> (\<exists>e. db_session db t = Some (word_of_int (urID r), e) \<and> now < e)"
    using db_session_iff [OF assms] by auto
next
  assume r: "r \<in> set (userRows db) \<and> (\<exists>e. db_session db t = Some (word_of_int (urID r), e) \<and> now < e)"
  then obtain s where s: "s \<in> set (sessionRows db)" "srHash s = t" "now < srExpires s"
    and w: "(word_of_int (urID r) :: int64) = word_of_int (srUser s)"
    using db_session_iff [OF assms] by auto
  have "find (\<lambda>s. srHash s = t \<and> now < srExpires s) (sessionRows db) = Some s"
  proof -
    obtain s' where s': "find (\<lambda>s. srHash s = t \<and> now < srExpires s) (sessionRows db) = Some s'"
      using s by (cases "find (\<lambda>s. srHash s = t \<and> now < srExpires s) (sessionRows db)")
        (auto simp: find_None_iff)
    then have "s' \<in> set (sessionRows db)" "srHash s' = t" by (auto simp: find_Some_iff)
    then have "s' = s" using auth_okD(5) [OF assms] s(1,2) by (auto simp: distinct_map dest: inj_onD)
    then show ?thesis using s' by simp
  qed
  moreover obtain r' where r': "r' \<in> set (userRows db)" "urID r' = srUser s"
    using auth_okD(6) [OF assms s(1)] by auto
  then have "r' = r" using user_row_eq [OF assms] r w by metis
  then have "find (\<lambda>u. urID u = srUser s) (userRows db) = Some r"
    using r' by (simp add: find_key auth_okD(2) [OF assms])
  ultimately show "sql_select_session t now db = Some r" by (simp add: sql_select_session_def)
qed

lemma remove_session:
  assumes "auth_ok db"
  shows "auth_ok (sql_delete_session t db)" and "db_account (sql_delete_session t db) = db_account db"
    and "db_session (sql_delete_session t db) = (db_session db)(t := None)"
proof -
  show ok: "auth_ok (sql_delete_session t db)"
    using assms unfolding auth_ok_def by (auto simp: sql_delete_session_def distinct_map_filter)
  show "db_account (sql_delete_session t db) = db_account db"
    by (simp add: sql_delete_session_def db_account_def sql_select_user_def fun_eq_iff)
  have "find (\<lambda>s. srHash s = k) (filter (\<lambda>s. srHash s \<noteq> t) xs) =
      (if k = t then None else find (\<lambda>s. srHash s = k) xs)" for k and xs :: "session_row list"
    by (induction xs) auto
  then show "db_session (sql_delete_session t db) = (db_session db)(t := None)"
    by (simp add: sql_delete_session_def db_session_def fun_eq_iff)
qed

lemma db_account_id:
  assumes "auth_ok db" and "db_account db n = Some (u, h)" and "db_account db n' = Some (u', h')"
    and "uID u = uID u'"
  shows "n = n'"
proof -
  obtain r r' where "r \<in> set (userRows db)" "urName r = n" "u = user_of r"
    "r' \<in> set (userRows db)" "urName r' = n'" "u' = user_of r'"
    using assms(2,3) db_account_iff [OF assms(1)] by auto
  then show ?thesis using user_row_eq [OF assms(1), of r r'] assms(4) by (simp add: user_of_def)
qed

lemma db_session_user:
  assumes "auth_ok db" and "db_session db t = Some (uID u, e)" and "db_account db n = Some (u, h)"
    and "now < e"
  shows "map_option user_of (sql_select_session t now db) = Some u"
proof -
  obtain r where r: "r \<in> set (userRows db)" "u = user_of r"
    using assms(3) db_account_iff [OF assms(1)] by auto
  then have "sql_select_session t now db = Some r"
    using select_session [OF assms(1), of t now r] assms(2,4) by (simp add: user_of_def)
  then show ?thesis using r by simp
qed

lemma db_lookup:
  assumes "auth_ok db" and "sql_select_session t now db = Some r"
  shows "\<exists>e n h. db_session db t = Some (uID (user_of r), e) \<and> now < e \<and> db_account db n = Some (user_of r, h)"
proof -
  have r: "r \<in> set (userRows db)" "\<exists>e. db_session db t = Some (word_of_int (urID r), e) \<and> now < e"
    using assms(2) select_session [OF assms(1)] by blast+
  then have "db_account db (urName r) = Some (user_of r, urHash r)"
    using db_account_iff [OF assms(1)] by blast
  then show ?thesis using r(2) by (auto simp: user_of_def)
qed

lemma db_lookup_None:
  assumes "auth_ok db" and "\<And>i e. db_session db t = Some (i, e) \<Longrightarrow> \<not> now < e"
  shows "sql_select_session t now db = None"
  using select_session [OF assms(1), of t now] assms(2) by (meson not_None_eq)

lemma insert_session_healthy:
  assumes "auth_ok db" and "db_session db t = None" and "db_account db n = Some (u, h)"
  shows "\<exists>db'. sql_insert_session NoFault t (sint (uID u)) e db = Some db'"
proof -
  obtain r where r: "r \<in> set (userRows db)" "u = user_of r"
    using assms(3) db_account_iff [OF assms(1)] by auto
  then have "sint (uID u) = urID r" using auth_okD(3) [OF assms(1)] by (simp add: user_of_def)
  then show ?thesis using r assms(2) by (auto simp: sql_insert_session_def db_session_None)
qed

interpretation sqlite_auth: auth_store SQLite_CreateUser SQLite_CredentialsByUsername
    SQLite_CreateSession SQLite_UserBySessionToken SQLite_DeleteSession
    "\<lambda>env. sint (UnixNano (aNow env))" "\<lambda>env. aFault env = NoFault" auth_ok users_full
    db_account db_session "\<lambda>t. sint (UnixNano t)"
proof
  fix s s' :: auth_db and env :: auth_env and n n' h h' d t :: string and u u' :: User
    and i :: int64 and e exp :: gotime and er :: auth_error and x
  show "auth_ok s \<Longrightarrow> db_account s n = Some (u, h) \<Longrightarrow> uUsername u = n"
    by (auto simp: db_account_iff user_of_def)
  show "auth_ok s \<Longrightarrow> db_account s n = Some (u, h) \<Longrightarrow> db_account s n' = Some (u', h') \<Longrightarrow>
      uID u = uID u' \<Longrightarrow> n = n'"
    by (rule db_account_id)
  show "auth_ok s' \<and> db_account s n = None \<and> db_account s' = (db_account s)(n \<mapsto> (u, h)) \<and>
      uDisplayName u = d \<and> db_session s' = db_session s"
    if ok: "auth_ok s" and cr: "SQLite_CreateUser env n h d s = (Inr u, s')"
  proof -
    obtain i where "sql_insert_user (aFault env) n h d s = Inr (i, s')"
      "u = \<lparr>uID = word_of_int i, uUsername = n, uDisplayName = d\<rparr>"
      using cr by (auto simp: SQLite_CreateUser_def split: sum.splits insert_error.splits if_splits)
    then show ?thesis using insert_user [OF ok] by simp
  qed
  show "auth_ok s' \<and> db_session s' = db_session s \<and>
      (db_account s' = db_account s \<or> db_account s n = None \<and> er \<noteq> ErrUsernameTaken \<and>
         (\<exists>u. db_account s' = (db_account s)(n \<mapsto> (u, h)))) \<and>
      (er = ErrUsernameTaken \<longrightarrow> db_account s n \<noteq> None)"
    if ok: "auth_ok s" and cr: "SQLite_CreateUser env n h d s = (Inl er, s')"
  proof (cases "sql_insert_user (aFault env) n h d s")
    case (Inl x)
    then show ?thesis using ok cr
      by (auto simp: SQLite_CreateUser_def db_account_None sql_insert_user_def
          split: insert_error.splits if_splits)
  next
    case (Inr y)
    obtain i t where y: "y = (i, t)" by fastforce
    have "s' = t" "er = CreatingUser n" using cr Inr y by (auto simp: SQLite_CreateUser_def split: if_splits)
    then show ?thesis using insert_user [OF ok Inr [unfolded y]] by auto
  qed
  show "\<exists>s'. SQLite_CreateUser env n h d s = (Inl ErrUsernameTaken, s')"
    if "aFault env = NoFault" and "db_account s n \<noteq> None" and "\<not> users_full s"
    using that db_account_None [of s n] by (simp add: SQLite_CreateUser_def sql_insert_user_def users_full_def)
  show "\<exists>u s'. SQLite_CreateUser env n h d s = (Inr u, s')"
    if "aFault env = NoFault" and "db_account s n = None" and "\<not> users_full s"
    using that by (simp add: SQLite_CreateUser_def sql_insert_user_def users_full_def db_account_None)
  show "SQLite_CredentialsByUsername env n s = Inr x \<Longrightarrow> db_account s n = Some x"
    by (auto simp: SQLite_CredentialsByUsername_def db_account_def split: if_splits option.splits)
  show "SQLite_CredentialsByUsername env n s =
      (case db_account s n of None \<Rightarrow> Inl ErrInvalidCredentials | Some x \<Rightarrow> Inr x)" if "aFault env = NoFault"
    using that by (simp add: SQLite_CredentialsByUsername_def db_account_def split: option.splits)
  show "auth_ok s' \<and> db_session s t = None \<and> db_account s' = db_account s \<and>
      db_session s' = (db_session s)(t \<mapsto> (i, sint (UnixNano exp)))"
    if ok: "auth_ok s" and cr: "SQLite_CreateSession env t i exp s = (Inr (), s')"
  proof -
    have "sql_insert_session (aFault env) t (sint i) (sint (UnixNano exp)) s = Some s'"
      using cr by (auto simp: SQLite_CreateSession_def split: option.splits)
    from add_session [OF ok this] show ?thesis by simp
  qed
  show "SQLite_CreateSession env t i exp s = (Inl er, s') \<Longrightarrow> s' = s \<and> er = StoringSession"
    by (auto simp: SQLite_CreateSession_def split: option.splits)
  show "\<exists>s'. SQLite_CreateSession env t (uID u) exp s = (Inr (), s')"
    if "auth_ok s" and "aFault env = NoFault" and "db_session s t = None" and "db_account s n = Some (u, h)"
    using insert_session_healthy [OF that(1,3,4), of "sint (UnixNano exp)"] that(2)
    by (auto simp: SQLite_CreateSession_def)
  show "\<exists>e n h. db_session s t = Some (uID u, e) \<and> sint (UnixNano (aNow env)) < e \<and> db_account s n = Some (u, h)"
    if "auth_ok s" and "SQLite_UserBySessionToken env t s = Inr u"
    using that(2) db_lookup [OF that(1)]
    by (auto simp: SQLite_UserBySessionToken_def split: if_splits option.splits)
  show "SQLite_UserBySessionToken env t s = Inr u"
    if "auth_ok s" and "aFault env = NoFault" and "db_session s t = Some (uID u, e)"
      and "sint (UnixNano (aNow env)) < e" and "db_account s n = Some (u, h)"
    using db_session_user [OF that(1,3,5,4)] that(2) by (auto simp: SQLite_UserBySessionToken_def)
  show "SQLite_UserBySessionToken env t s = Inl ErrNoSession"
    if "auth_ok s" and "aFault env = NoFault"
      and "\<And>i e. db_session s t = Some (i, e) \<Longrightarrow> \<not> sint (UnixNano (aNow env)) < e"
    using db_lookup_None [OF that(1,3)] that(2) by (simp add: SQLite_UserBySessionToken_def)
  show "auth_ok s' \<and> db_account s' = db_account s \<and> db_session s' = (db_session s)(t := None)"
    if "auth_ok s" and "SQLite_DeleteSession env t s = (Inr (), s')"
    using that(2) remove_session [OF that(1)] by (auto simp: SQLite_DeleteSession_def split: if_splits)
  show "SQLite_DeleteSession env t s = (Inl er, s') \<Longrightarrow> s' = s"
    by (auto simp: SQLite_DeleteSession_def split: if_splits)
  show "\<exists>s'. SQLite_DeleteSession env t s = (Inr (), s')" if "aFault env = NoFault"
    using that by (simp add: SQLite_DeleteSession_def)
qed

lemma burnt_id [simp]:
  "db_account (db\<lparr>nextUser := k\<rparr>) = db_account db" "db_session (db\<lparr>nextUser := k\<rparr>) = db_session db"
  by (simp_all add: db_account_def db_session_def sql_select_user_def fun_eq_iff)

lemma burnt_id_ok: "auth_ok db \<Longrightarrow> \<not> 2 ^ 63 \<le> nextUser db \<Longrightarrow> auth_ok (db\<lparr>nextUser := nextUser db + 1\<rparr>)"
  by (fastforce simp: auth_ok_def)

lemma spend_user_id_simps [simp]:
  "db_account (spend_user_id f db) = db_account db" "db_session (spend_user_id f db) = db_session db"
  "auth_ok db \<Longrightarrow> auth_ok (spend_user_id f db)"
  using burnt_id_ok [of db] by (simp_all add: spend_user_id_def not_le)

interpretation postgres_auth: auth_store Postgres_CreateUser Postgres_CredentialsByUsername
    "Postgres_CreateSession ts" Postgres_UserBySessionToken Postgres_DeleteSession
    "\<lambda>env. aDbNow env" "\<lambda>env. aFault env = NoFault" auth_ok users_full
    db_account db_session ts
  for ts
proof
  fix s s' :: auth_db and env :: auth_env and n n' h h' d t :: string and u u' :: User
    and i :: int64 and e exp :: gotime and er :: auth_error and x
  show "auth_ok s \<Longrightarrow> db_account s n = Some (u, h) \<Longrightarrow> uUsername u = n"
    by (auto simp: db_account_iff user_of_def)
  show "auth_ok s \<Longrightarrow> db_account s n = Some (u, h) \<Longrightarrow> db_account s n' = Some (u', h') \<Longrightarrow>
      uID u = uID u' \<Longrightarrow> n = n'"
    by (rule db_account_id)
  show "auth_ok s' \<and> db_account s n = None \<and> db_account s' = (db_account s)(n \<mapsto> (u, h)) \<and>
      uDisplayName u = d \<and> db_session s' = db_session s"
    if ok: "auth_ok s" and cr: "Postgres_CreateUser env n h d s = (Inr u, s')"
  proof -
    obtain i where "sql_insert_user (aFault env) n h d s = Inr (i, s')"
      "u = \<lparr>uID = word_of_int i, uUsername = n, uDisplayName = d\<rparr>"
      using cr by (auto simp: Postgres_CreateUser_def split: sum.splits insert_error.splits if_splits)
    then show ?thesis using insert_user [OF ok] by simp
  qed
  show "auth_ok s' \<and> db_session s' = db_session s \<and>
      (db_account s' = db_account s \<or> db_account s n = None \<and> er \<noteq> ErrUsernameTaken \<and>
         (\<exists>u. db_account s' = (db_account s)(n \<mapsto> (u, h)))) \<and>
      (er = ErrUsernameTaken \<longrightarrow> db_account s n \<noteq> None)"
    if ok: "auth_ok s" and cr: "Postgres_CreateUser env n h d s = (Inl er, s')"
  proof (cases "sql_insert_user (aFault env) n h d s")
    case (Inl x)
    then show ?thesis using ok cr burnt_id_ok [OF ok]
      by (auto simp: Postgres_CreateUser_def db_account_None sql_insert_user_def
          split: insert_error.splits if_splits)
  next
    case (Inr y)
    obtain i t where y: "y = (i, t)" by fastforce
    have "s' = t" "er = CreatingUser n" using cr Inr y by (auto simp: Postgres_CreateUser_def split: if_splits)
    then show ?thesis using insert_user [OF ok Inr [unfolded y]] by auto
  qed
  show "\<exists>s'. Postgres_CreateUser env n h d s = (Inl ErrUsernameTaken, s')"
    if "aFault env = NoFault" and "db_account s n \<noteq> None" and "\<not> users_full s"
    using that db_account_None [of s n] by (simp add: Postgres_CreateUser_def sql_insert_user_def users_full_def)
  show "\<exists>u s'. Postgres_CreateUser env n h d s = (Inr u, s')"
    if "aFault env = NoFault" and "db_account s n = None" and "\<not> users_full s"
    using that by (simp add: Postgres_CreateUser_def sql_insert_user_def users_full_def db_account_None)
  show "Postgres_CredentialsByUsername env n s = Inr x \<Longrightarrow> db_account s n = Some x"
    by (auto simp: Postgres_CredentialsByUsername_def db_account_def split: if_splits option.splits)
  show "Postgres_CredentialsByUsername env n s =
      (case db_account s n of None \<Rightarrow> Inl ErrInvalidCredentials | Some x \<Rightarrow> Inr x)" if "aFault env = NoFault"
    using that by (simp add: Postgres_CredentialsByUsername_def db_account_def split: option.splits)
  show "auth_ok s' \<and> db_session s t = None \<and> db_account s' = db_account s \<and>
      db_session s' = (db_session s)(t \<mapsto> (i, ts exp))"
    if ok: "auth_ok s" and cr: "Postgres_CreateSession ts env t i exp s = (Inr (), s')"
  proof -
    have "sql_insert_session (aFault env) t (sint i) (ts exp) s = Some s'"
      using cr by (auto simp: Postgres_CreateSession_def split: option.splits)
    from add_session [OF ok this] show ?thesis by simp
  qed
  show "Postgres_CreateSession ts env t i exp s = (Inl er, s') \<Longrightarrow> s' = s \<and> er = StoringSession"
    by (auto simp: Postgres_CreateSession_def split: option.splits)
  show "\<exists>s'. Postgres_CreateSession ts env t (uID u) exp s = (Inr (), s')"
    if "auth_ok s" and "aFault env = NoFault" and "db_session s t = None" and "db_account s n = Some (u, h)"
    using insert_session_healthy [OF that(1,3,4), of "ts exp"] that(2)
    by (auto simp: Postgres_CreateSession_def)
  show "\<exists>e n h. db_session s t = Some (uID u, e) \<and> aDbNow env < e \<and> db_account s n = Some (u, h)"
    if "auth_ok s" and "Postgres_UserBySessionToken env t s = Inr u"
    using that(2) db_lookup [OF that(1)]
    by (auto simp: Postgres_UserBySessionToken_def split: if_splits option.splits)
  show "Postgres_UserBySessionToken env t s = Inr u"
    if "auth_ok s" and "aFault env = NoFault" and "db_session s t = Some (uID u, e)"
      and "aDbNow env < e" and "db_account s n = Some (u, h)"
    using db_session_user [OF that(1,3,5,4)] that(2) by (auto simp: Postgres_UserBySessionToken_def)
  show "Postgres_UserBySessionToken env t s = Inl ErrNoSession"
    if "auth_ok s" and "aFault env = NoFault"
      and "\<And>i e. db_session s t = Some (i, e) \<Longrightarrow> \<not> aDbNow env < e"
    using db_lookup_None [OF that(1,3)] that(2) by (simp add: Postgres_UserBySessionToken_def)
  show "auth_ok s' \<and> db_account s' = db_account s \<and> db_session s' = (db_session s)(t := None)"
    if "auth_ok s" and "Postgres_DeleteSession env t s = (Inr (), s')"
    using that(2) remove_session [OF that(1)] by (auto simp: Postgres_DeleteSession_def split: if_splits)
  show "Postgres_DeleteSession env t s = (Inl er, s') \<Longrightarrow> s' = s"
    by (auto simp: Postgres_DeleteSession_def split: if_splits)
  show "\<exists>s'. Postgres_DeleteSession env t s = (Inr (), s')" if "aFault env = NoFault"
    using that by (simp add: Postgres_DeleteSession_def)
qed

end
