(* ===== verification/Go_Strings.thy ===== *)
theory Go_Strings
  imports Go_Prelude
begin

text \<open>
  What the program uses of Go's string libraries: \<^verbatim>\<open>strings.TrimSpace\<close>, \<^verbatim>\<open>HasPrefix\<close>,
  \<^verbatim>\<open>HasSuffix\<close>, \<^verbatim>\<open>TrimPrefix\<close>, \<^verbatim>\<open>base64.RawURLEncoding\<close>, \<^verbatim>\<open>hex.EncodeToString\<close> and
  \<^verbatim>\<open>strconv.FormatInt\<close>. A Go string is a byte string, and so is a HOL \<open>string\<close>.
\<close>

section \<open>White space\<close>

text \<open>The UTF-8 encodings of the characters \<^verbatim>\<open>unicode.IsSpace\<close> accepts.\<close>

definition spaces :: "string list" where
  "spaces = map (map char_of)
     ([[9], [10], [11], [12], [13], [32], [194, 133], [194, 160], [225, 154, 128],
       [226, 128, 168], [226, 128, 169], [226, 128, 175], [226, 129, 159], [227, 128, 128]] @
      map (\<lambda>k. [226, 128, k]) [128..<139 :: nat])"

text \<open>Take encodings of white space off the front, as long as there is one.\<close>

function strip_left :: "string list \<Rightarrow> string \<Rightarrow> string" where
  "strip_left sp s = (case find (\<lambda>w. w \<noteq> [] \<and> prefix w s) sp of
       None \<Rightarrow> s | Some w \<Rightarrow> strip_left sp (drop (length w) s))"
  by auto
termination
  by (relation "measure (\<lambda>(sp, s). length s)") (auto simp: find_Some_iff prefix_def)

declare strip_left.simps [simp del]

definition strip_right :: "string list \<Rightarrow> string \<Rightarrow> string" where
  "strip_right sp s = rev (strip_left (map rev sp) (rev s))"

definition TrimSpace :: "string \<Rightarrow> string" where
  "TrimSpace s = strip_right spaces (strip_left spaces s)"

lemma suffix_strip_left: "suffix (strip_left sp s) s"
proof (induction sp s rule: strip_left.induct)
  case (1 sp s)
  show ?case
  proof (cases "find (\<lambda>w. w \<noteq> [] \<and> prefix w s) sp")
    case None
    then show ?thesis by (simp add: strip_left.simps [of sp s])
  next
    case (Some w)
    then show ?thesis
      using 1 [OF Some] suffix_drop suffix_order.trans by (simp add: strip_left.simps [of sp s]) blast
  qed
qed

lemma strip_left_done:
  "strip_left sp s = s \<longleftrightarrow> (\<forall>w \<in> set sp. w \<noteq> [] \<longrightarrow> \<not> prefix w s)"
proof (cases "find (\<lambda>w. w \<noteq> [] \<and> prefix w s) sp")
  case None
  then have "strip_left sp s = s" by (simp add: strip_left.simps [of sp s])
  with None show ?thesis by (auto simp: find_None_iff)
next
  case (Some w)
  then have w: "w \<in> set sp" "w \<noteq> []" "prefix w s" by (auto simp: find_Some_iff)
  have "length (strip_left sp s) \<le> length (drop (length w) s)"
    using Some suffix_length_le [OF suffix_strip_left [of sp "drop (length w) s"]]
    by (simp add: strip_left.simps [of sp s])
  moreover have "length (drop (length w) s) < length s"
    using w by (auto simp: prefix_def)
  ultimately show ?thesis using w by auto
qed

lemma strip_left_clean: "w \<in> set sp \<Longrightarrow> w \<noteq> [] \<Longrightarrow> \<not> prefix w (strip_left sp s)"
proof (induction sp s rule: strip_left.induct)
  case (1 sp s)
  show ?case
  proof (cases "find (\<lambda>w. w \<noteq> [] \<and> prefix w s) sp")
    case None
    then have "strip_left sp s = s" by (simp add: strip_left.simps [of sp s])
    with None show ?thesis using 1(2,3) by (auto simp: find_None_iff)
  next
    case (Some v)
    then show ?thesis using 1 by (simp add: strip_left.simps [of sp s])
  qed
qed

lemma space_ends:
  assumes "w \<in> set spaces"
  shows "w \<noteq> []" "of_char (hd w) \<le> (32 :: nat) \<or> 128 \<le> (of_char (hd w) :: nat)"
    "of_char (last w) \<le> (32 :: nat) \<or> 128 \<le> (of_char (last w) :: nat)"
  using assms by (auto simp: spaces_def)

lemma TrimSpace_clean:
  assumes "w \<in> set spaces"
  shows "\<not> suffix w (TrimSpace s)"
proof
  assume "suffix w (TrimSpace s)"
  then have "prefix (rev w) (strip_left (map rev spaces) (rev (strip_left spaces s)))"
    by (simp add: TrimSpace_def strip_right_def suffix_to_prefix)
  moreover have "w \<noteq> []" using space_ends(1) [OF assms] .
  ultimately show False
    using strip_left_clean [of "rev w" "map rev spaces"] assms by simp
qed

text \<open>A string that begins and ends with a printable ASCII character has nothing to trim.\<close>

lemma TrimSpace_ascii:
  assumes "(32 :: nat) < of_char (hd s)" and "of_char (hd s) < (128 :: nat)"
    and "(32 :: nat) < of_char (last s)" and "of_char (last s) < (128 :: nat)"
  shows "TrimSpace s = s"
proof (cases s)
  case Nil
  have "strip_left sp [] = []" for sp
    using suffix_strip_left [of sp "[]"] by simp
  then show ?thesis using Nil by (simp add: TrimSpace_def strip_right_def)
next
  case (Cons c cs)
  have "\<not> prefix w s" if "w \<in> set spaces" for w
    using space_ends(1,2) [OF that] assms(1,2) Cons by (cases w) (auto simp: prefix_def)
  then have "strip_left spaces s = s" by (simp add: strip_left_done)
  moreover have "\<not> prefix v (rev s)" if v: "v \<in> set (map rev spaces)" for v
  proof
    assume p: "prefix v (rev s)"
    obtain w where w: "w \<in> set spaces" "v = rev w" using v by auto
    then have "suffix w s" using p by (simp add: suffix_to_prefix)
    then have "last w = last s" using space_ends(1) [OF w(1)] by (auto simp: suffix_def)
    then show False using space_ends(3) [OF w(1)] assms(3,4) by auto
  qed
  then have "strip_left (map rev spaces) (rev s) = rev s" by (simp add: strip_left_done)
  ultimately show ?thesis by (simp add: TrimSpace_def strip_right_def)
qed

section \<open>Prefixes and suffixes\<close>

definition HasPrefix :: "string \<Rightarrow> string \<Rightarrow> bool" where
  "HasPrefix s p \<longleftrightarrow> take (length p) s = p"

definition HasSuffix :: "string \<Rightarrow> string \<Rightarrow> bool" where
  "HasSuffix s p \<longleftrightarrow> length p \<le> length s \<and> drop (length s - length p) s = p"

definition TrimPrefix :: "string \<Rightarrow> string \<Rightarrow> string" where
  "TrimPrefix s p = (if HasPrefix s p then drop (length p) s else s)"

section \<open>Decimal numbers\<close>

definition is_digit :: "char \<Rightarrow> bool" where
  "is_digit c \<longleftrightarrow> 48 \<le> (of_char c :: nat) \<and> (of_char c :: nat) \<le> 57"

fun digits :: "nat \<Rightarrow> string" where
  "digits n = (if n < 10 then [char_of (48 + n)] else digits (n div 10) @ [char_of (48 + n mod 10)])"

declare digits.simps [simp del]

definition FormatInt :: "int64 \<Rightarrow> string" where
  "FormatInt w = (if sint w < 0 then CHR ''-'' # digits (nat (- sint w)) else digits (nat (sint w)))"

definition undigits :: "string \<Rightarrow> nat" where
  "undigits s = foldl (\<lambda>n c. 10 * n + (of_char c - 48)) 0 s"

lemma undigits_digits: "undigits (digits n) = n"
proof (induction n rule: digits.induct)
  case (1 n)
  show ?case
  proof (cases "n < 10")
    case True
    then show ?thesis by (simp add: digits.simps [of n] undigits_def)
  next
    case False
    moreover have "undigits (digits (n div 10) @ [char_of (48 + n mod 10)]) = 10 * (n div 10) + n mod 10"
      using 1 False by (simp add: undigits_def)
    ultimately show ?thesis by (simp add: digits.simps [of n])
  qed
qed

lemma digits_no_minus: "CHR ''-'' \<notin> set (digits n)"
proof (induction n rule: digits.induct)
  case (1 n)
  have "char_of (48 + k) \<noteq> CHR ''-''" if "k < 10" for k :: nat
  proof
    assume "char_of (48 + k) = CHR ''-''"
    then have "of_char (char_of (48 + k) :: char) = (of_char (CHR ''-'') :: nat)" by simp
    then show False using that by simp
  qed
  then show ?case using 1 by (cases "n < 10") (auto simp: digits.simps [of n] eq_commute)
qed

lemma FormatInt_inj: "FormatInt a = FormatInt b \<longleftrightarrow> a = b"
proof
  have inj: "digits m = digits n \<Longrightarrow> m = n" for m n by (metis undigits_digits)
  have neg: "CHR ''-'' # digits m \<noteq> digits n" for m n
    using digits_no_minus [of n] by (metis list.set_intros(1))
  assume "FormatInt a = FormatInt b"
  then have "sint a = sint b"
    using neg neg [symmetric] by (auto simp: FormatInt_def eq_nat_nat_iff split: if_splits dest!: inj)
  then show "a = b" by (rule signed_word_eqI)
qed simp

section \<open>Encodings\<close>

text \<open>Bytes are characters here; \<open>byte\<close> reads one as a number.\<close>

abbreviation byte :: "char \<Rightarrow> nat" where
  "byte c \<equiv> of_char c"

definition hex_alphabet :: string where
  "hex_alphabet = ''0123456789abcdef''"

definition hex_EncodeToString :: "string \<Rightarrow> string" where
  "hex_EncodeToString bs =
     concat (map (\<lambda>b. [hex_alphabet ! (byte b div 16), hex_alphabet ! (byte b mod 16)]) bs)"

definition url_alphabet :: string where
  "url_alphabet = ''ABCDEFGHIJKLMNOPQRSTUVWXYZabcdefghijklmnopqrstuvwxyz0123456789-_''"

text \<open>\<^verbatim>\<open>base64.RawURLEncoding\<close>: no padding.\<close>

fun RawURLEncoding :: "string \<Rightarrow> string" where
  "RawURLEncoding [] = []"
| "RawURLEncoding [a] = map ((!) url_alphabet) [byte a div 4, byte a mod 4 * 16]"
| "RawURLEncoding [a, b] = map ((!) url_alphabet)
     [byte a div 4, byte a mod 4 * 16 + byte b div 16, byte b mod 16 * 4]"
| "RawURLEncoding (a # b # c # bs) = map ((!) url_alphabet)
     [byte a div 4, byte a mod 4 * 16 + byte b div 16, byte b mod 16 * 4 + byte c div 64, byte c mod 64] @
     RawURLEncoding bs"

lemma alphabets: "length url_alphabet = 64" "distinct url_alphabet"
  "length hex_alphabet = 16" "distinct hex_alphabet"
  by (simp_all add: url_alphabet_def hex_alphabet_def)

lemma byte_less: "byte c < 256"
  by simp

lemma url_nth: "i < 64 \<Longrightarrow> url_alphabet ! i \<in> set url_alphabet"
  by (simp add: alphabets)

lemma url_nth_inj: "i < 64 \<Longrightarrow> j < 64 \<Longrightarrow> url_alphabet ! i = url_alphabet ! j \<longleftrightarrow> i = j"
  by (simp add: alphabets nth_eq_iff_index_eq)

lemma sextets:
  "byte a div 4 < 64" "byte a mod 4 * 16 < 64" "byte a mod 4 * 16 + byte b div 16 < 64"
  "byte b mod 16 * 4 < 64" "byte b mod 16 * 4 + byte c div 64 < 64" "byte c mod 64 < 64"
proof -
  have "byte a mod 4 < 4" "byte b mod 16 < 16" "byte b div 16 < 16" "byte c div 64 < 4" "byte a div 4 < 64"
    using byte_less [of a] byte_less [of b] byte_less [of c] by (simp_all add: div_less_iff_less_mult)
  then show "byte a div 4 < 64" "byte a mod 4 * 16 < 64" "byte a mod 4 * 16 + byte b div 16 < 64"
    "byte b mod 16 * 4 < 64" "byte b mod 16 * 4 + byte c div 64 < 64" "byte c mod 64 < 64"
    by simp_all
qed

lemma length_RawURLEncoding: "length (RawURLEncoding bs) = (4 * length bs + 2) div 3"
  by (induction bs rule: RawURLEncoding.induct) simp_all

lemma set_RawURLEncoding: "set (RawURLEncoding bs) \<subseteq> set url_alphabet"
  by (induction bs rule: RawURLEncoding.induct) (simp_all add: url_nth sextets)

lemma byte_eqI: "byte a div 4 = byte a' div 4 \<Longrightarrow> byte a mod 4 = byte a' mod 4 \<Longrightarrow> a = a'"
  by (metis div_mult_mod_eq of_char_eq_iff)

lemma pack_eq:
  fixes x y :: nat
  assumes "x * k + u = y * k + v" and "u < k" and "v < k"
  shows "x = y" and "u = v"
proof -
  have "(x * k + u) div k = (y * k + v) div k" "(x * k + u) mod k = (y * k + v) mod k"
    using assms(1) by simp_all
  then show "x = y" "u = v" using assms(2,3) by simp_all
qed

lemma byte_split:
  "byte a div k = byte a' div k \<Longrightarrow> byte a mod k = byte a' mod k \<Longrightarrow> a = a'"
  by (metis div_mult_mod_eq of_char_eq_iff)

lemma pack_a:
  "byte a mod 4 * 16 + byte b div 16 = byte a' mod 4 * 16 + byte b' div 16 \<Longrightarrow>
     byte a mod 4 = byte a' mod 4 \<and> byte b div 16 = byte b' div 16"
  using pack_eq [of "byte a mod 4" 16 "byte b div 16" "byte a' mod 4" "byte b' div 16"]
    byte_less [of b] byte_less [of b'] by (simp add: div_less_iff_less_mult)

lemma pack_b:
  "byte b mod 16 * 4 + byte c div 64 = byte b' mod 16 * 4 + byte c' div 64 \<Longrightarrow>
     byte b mod 16 = byte b' mod 16 \<and> byte c div 64 = byte c' div 64"
  using pack_eq [of "byte b mod 16" 4 "byte c div 64" "byte b' mod 16" "byte c' div 64"]
    byte_less [of c] byte_less [of c'] by (simp add: div_less_iff_less_mult)

lemma RawURLEncoding_inj:
  "length xs = length ys \<Longrightarrow> RawURLEncoding xs = RawURLEncoding ys \<Longrightarrow> xs = ys"
proof (induction xs arbitrary: ys rule: RawURLEncoding.induct)
  case 1
  then show ?case by simp
next
  case (2 a)
  then obtain a' where ys: "ys = [a']" by (cases ys rule: RawURLEncoding.cases) auto
  have "byte a div 4 = byte a' div 4" "byte a mod 4 * 16 = byte a' mod 4 * 16"
    using 2(2) by (simp_all add: ys url_nth_inj sextets)
  then show ?case using byte_eqI [of a a'] ys by simp
next
  case (3 a b)
  then obtain a' b' where ys: "ys = [a', b']" by (cases ys rule: RawURLEncoding.cases) auto
  have "byte a div 4 = byte a' div 4" "byte b mod 16 * 4 = byte b' mod 16 * 4"
    "byte a mod 4 * 16 + byte b div 16 = byte a' mod 4 * 16 + byte b' div 16"
    using 3(2) by (simp_all add: ys url_nth_inj sextets)
  note e = this
  have "a = a'" by (rule byte_eqI [OF e(1) conjunct1 [OF pack_a [OF e(3)]]])
  moreover have "b = b'"
    by (rule byte_split [where k = 16]) (use e(2) pack_a [OF e(3)] in simp_all)
  ultimately show ?case using ys by simp
next
  case (4 a b c bs)
  then obtain a' b' c' bs' where ys: "ys = a' # b' # c' # bs'" and len: "length bs = length bs'"
    by (cases ys rule: RawURLEncoding.cases) auto
  have "byte a div 4 = byte a' div 4" "byte c mod 64 = byte c' mod 64"
    "byte a mod 4 * 16 + byte b div 16 = byte a' mod 4 * 16 + byte b' div 16"
    "byte b mod 16 * 4 + byte c div 64 = byte b' mod 16 * 4 + byte c' div 64"
    "RawURLEncoding bs = RawURLEncoding bs'"
    using 4(3) by (simp_all add: ys url_nth_inj sextets)
  note e = this
  have "a = a'" by (rule byte_eqI [OF e(1) conjunct1 [OF pack_a [OF e(3)]]])
  moreover have "b = b'"
    by (rule byte_split [OF conjunct2 [OF pack_a [OF e(3)]] conjunct1 [OF pack_b [OF e(4)]]])
  moreover have "c = c'" by (rule byte_split [OF conjunct2 [OF pack_b [OF e(4)]] e(2)])
  ultimately show ?case using 4(1) [OF len e(5)] ys by simp
qed

lemma hex_inj: "hex_EncodeToString xs = hex_EncodeToString ys \<Longrightarrow> xs = ys"
proof (induction xs arbitrary: ys)
  case Nil
  then show ?case by (cases ys) (simp_all add: hex_EncodeToString_def)
next
  case (Cons x xs)
  then obtain y ys' where ys: "ys = y # ys'" by (cases ys) (simp_all add: hex_EncodeToString_def)
  have less: "byte z div 16 < 16" "byte z mod 16 < 16" for z
    using byte_less [of z] by (simp_all add: div_less_iff_less_mult)
  have "hex_alphabet ! (byte x div 16) = hex_alphabet ! (byte y div 16)"
    "hex_alphabet ! (byte x mod 16) = hex_alphabet ! (byte y mod 16)"
    "hex_EncodeToString xs = hex_EncodeToString ys'"
    using Cons.prems by (simp_all add: ys hex_EncodeToString_def)
  then show ?case
    using Cons.IH byte_split [of x 16 y] less by (simp add: ys alphabets nth_eq_iff_index_eq)
qed

end
