(* ===== verification/Auth.thy ===== *)
theory Auth
  imports Auth_Store Go_Strings
begin

text \<open>
  The authentication service of \<^verbatim>\<open>internal/auth/auth.go\<close> over any store that meets the contract
  of \<^verbatim>\<open>Auth_Store\<close>. The store comes as a record of its operations, as the Go interface value
  does. bcrypt and SHA-256 are parameters; what is relied on of bcrypt is stated where it is
  used. Randomness, clocks and failures are explicit arguments.
\<close>

section \<open>The service's surroundings\<close>

record ('env, 's) Store_ops =
  CreateUser :: "'env \<Rightarrow> string \<Rightarrow> string \<Rightarrow> string \<Rightarrow> 's \<Rightarrow> (auth_error + User) \<times> 's"
  CredentialsByUsername :: "'env \<Rightarrow> string \<Rightarrow> 's \<Rightarrow> auth_error + User \<times> string"
  CreateSession :: "'env \<Rightarrow> string \<Rightarrow> int64 \<Rightarrow> gotime \<Rightarrow> 's \<Rightarrow> (auth_error + unit) \<times> 's"
  UserBySessionToken :: "'env \<Rightarrow> string \<Rightarrow> 's \<Rightarrow> auth_error + User"
  DeleteSession :: "'env \<Rightarrow> string \<Rightarrow> 's \<Rightarrow> (auth_error + unit) \<times> 's"

text \<open>
  \<open>GenerateFromPassword\<close> takes a salt, \<open>CompareHashAndPassword\<close> answers whether there was no
  error, \<open>Sum256\<close> is SHA-256.
\<close>

record crypto =
  GenerateFromPassword :: "nat \<Rightarrow> string \<Rightarrow> string option"
  CompareHashAndPassword :: "string \<Rightarrow> string \<Rightarrow> bool"
  Sum256 :: "string \<Rightarrow> string"

text \<open>
  One service call: the circumstances of its first and its second store operation, the clock
  it reads, the bytes \<^verbatim>\<open>rand.Read\<close> delivers (or its failure) and bcrypt's salt.
\<close>

record 'env call =
  firstEnv :: 'env
  secondEnv :: 'env
  callNow :: gotime
  callRand :: "string option"
  callSalt :: nat

record ('env, 's) Service =
  store :: "('env, 's) Store_ops"
  sessionTTL :: int

definition NewService :: "('env, 's) Store_ops \<Rightarrow> int \<Rightarrow> ('env, 's) Service" where
  "NewService st ttl = \<lparr>store = st, sessionTTL = ttl\<rparr>"

section \<open>Credentials and tokens\<close>

definition minUsername :: nat where "minUsername = 3"
definition maxUsername :: nat where "maxUsername = 32"
definition minPassword :: nat where "minPassword = 8"
definition maxPassword :: nat where "maxPassword = 128"
definition maxDisplayName :: nat where "maxDisplayName = 32"

lemmas limit_defs = minUsername_def maxUsername_def minPassword_def maxPassword_def maxDisplayName_def

definition validateCredentials :: "string \<Rightarrow> string \<Rightarrow> string \<Rightarrow> auth_error option" where
  "validateCredentials username password displayName =
     (if length username < minUsername \<or> maxUsername < length username
      then Some (ErrInvalidInput BadUsername)
      else if length password < minPassword \<or> maxPassword < length password
      then Some (ErrInvalidInput BadPassword)
      else if displayName = '''' \<or> maxDisplayName < length displayName
      then Some (ErrInvalidInput BadDisplayName)
      else None)"

definition newToken :: "string option \<Rightarrow> auth_error + string" where
  "newToken rnd = (case rnd of None \<Rightarrow> Inl GeneratingToken | Some b \<Rightarrow> Inr (RawURLEncoding b))"

definition hashToken :: "crypto \<Rightarrow> string \<Rightarrow> string" where
  "hashToken K token = hex_EncodeToString (Sum256 K token)"

section \<open>Operations\<close>

definition openSession ::
    "crypto \<Rightarrow> ('env, 's) Service \<Rightarrow> 'env call \<Rightarrow> int64 \<Rightarrow> 's \<Rightarrow> (auth_error + string) \<times> 's" where
  "openSession K svc env userID s =
     (case newToken (callRand env) of
        Inl e \<Rightarrow> (Inl e, s)
      | Inr token \<Rightarrow>
          (case CreateSession (store svc) (secondEnv env) (hashToken K token) userID
                  (callNow env + sessionTTL svc) s of
             (Inl e, s') \<Rightarrow> (Inl (CreatingSession e), s')
           | (Inr _, s') \<Rightarrow> (Inr token, s')))"

definition Register ::
    "crypto \<Rightarrow> ('env, 's) Service \<Rightarrow> 'env call \<Rightarrow> string \<Rightarrow> string \<Rightarrow> string \<Rightarrow> 's \<Rightarrow>
     (auth_error + User \<times> string) \<times> 's" where
  "Register K svc env username0 password displayName0 s =
     (let username = TrimSpace username0;
          displayName1 = TrimSpace displayName0;
          displayName = (if displayName1 = '''' then username else displayName1)
      in case validateCredentials username password displayName of
           Some e \<Rightarrow> (Inl e, s)
         | None \<Rightarrow>
             (case GenerateFromPassword K (callSalt env) password of
                None \<Rightarrow> (Inl HashingPassword, s)
              | Some hash \<Rightarrow>
                  (case CreateUser (store svc) (firstEnv env) username hash displayName s of
                     (Inl e, s1) \<Rightarrow> (Inl e, s1)
                   | (Inr user, s1) \<Rightarrow>
                       (case openSession K svc env (uID user) s1 of
                          (Inl e, s2) \<Rightarrow> (Inl e, s2)
                        | (Inr token, s2) \<Rightarrow> (Inr (user, token), s2)))))"

definition Login ::
    "crypto \<Rightarrow> ('env, 's) Service \<Rightarrow> 'env call \<Rightarrow> string \<Rightarrow> string \<Rightarrow> 's \<Rightarrow>
     (auth_error + User \<times> string) \<times> 's" where
  "Login K svc env username0 password s =
     (case CredentialsByUsername (store svc) (firstEnv env) (TrimSpace username0) s of
        Inl _ \<Rightarrow> (Inl ErrInvalidCredentials, s)
      | Inr (user, hash) \<Rightarrow>
          if \<not> CompareHashAndPassword K hash password then (Inl ErrInvalidCredentials, s)
          else (case openSession K svc env (uID user) s of
                  (Inl e, s') \<Rightarrow> (Inl e, s')
                | (Inr token, s') \<Rightarrow> (Inr (user, token), s')))"

definition Logout ::
    "crypto \<Rightarrow> ('env, 's) Service \<Rightarrow> 'env \<Rightarrow> string \<Rightarrow> 's \<Rightarrow> (auth_error + unit) \<times> 's" where
  "Logout K svc env token s =
     (if token = '''' then (Inr (), s)
      else DeleteSession (store svc) env (hashToken K token) s)"

definition Authenticate ::
    "crypto \<Rightarrow> ('env, 's) Service \<Rightarrow> 'env \<Rightarrow> string \<Rightarrow> 's \<Rightarrow> auth_error + User" where
  "Authenticate K svc env token s =
     (if token = '''' then Inl ErrNoSession
      else UserBySessionToken (store svc) env (hashToken K token) s)"

text \<open>\<^verbatim>\<open>errors.Is\<close> against the sentinels, through the one wrapper the service adds.\<close>

fun cause :: "auth_error \<Rightarrow> auth_error" where
  "cause (CreatingSession e) = cause e"
| "cause e = e"

definition Is_username_taken :: "auth_error \<Rightarrow> bool" where
  "Is_username_taken e \<longleftrightarrow> cause e = ErrUsernameTaken"

definition Is_invalid_credentials :: "auth_error \<Rightarrow> bool" where
  "Is_invalid_credentials e \<longleftrightarrow> cause e = ErrInvalidCredentials"

definition Is_invalid_input :: "auth_error \<Rightarrow> bool" where
  "Is_invalid_input e \<longleftrightarrow> (case cause e of ErrInvalidInput _ \<Rightarrow> True | _ \<Rightarrow> False)"

section \<open>Tokens\<close>

text \<open>The bytes of a call: \<^verbatim>\<open>rand.Read\<close> fills the array of 32.\<close>

definition rand_ok :: "'env call \<Rightarrow> bool" where
  "rand_ok env \<longleftrightarrow> (\<forall>b. callRand env = Some b \<longrightarrow> length b = 32)"

lemma newToken_token:
  assumes "rand_ok env" and "newToken (callRand env) = Inr token"
  shows "length token = 43" "set token \<subseteq> set url_alphabet" "token \<noteq> ''''"
proof -
  obtain b where b: "callRand env = Some b" "length b = 32" "token = RawURLEncoding b"
    using assms by (auto simp: newToken_def rand_ok_def split: option.splits)
  show len: "length token = 43" using b by (simp add: length_RawURLEncoding)
  show "set token \<subseteq> set url_alphabet" using b(3) set_RawURLEncoding by simp
  show "token \<noteq> ''''" using len by auto
qed

lemma openSession_cases:
  assumes "openSession K svc env i s = (r, s')"
  obtains e where "r = Inl e" "newToken (callRand env) = Inl e" "s' = s"
  | token e where "newToken (callRand env) = Inr token" "r = Inl (CreatingSession e)"
    "CreateSession (store svc) (secondEnv env) (hashToken K token) i (callNow env + sessionTTL svc) s = (Inl e, s')"
  | token where "newToken (callRand env) = Inr token" "r = Inr token"
    "CreateSession (store svc) (secondEnv env) (hashToken K token) i (callNow env + sessionTTL svc) s = (Inr (), s')"
proof (cases "newToken (callRand env)")
  case (Inl e)
  then have "r = Inl e" "s' = s" using assms by (simp_all add: openSession_def)
  with Inl show thesis using that(1) by blast
next
  case (Inr token)
  obtain x t where x: "CreateSession (store svc) (secondEnv env) (hashToken K token) i
      (callNow env + sessionTTL svc) s = (x, t)" by fastforce
  show thesis
  proof (cases x)
    case (Inl e)
    then have "r = Inl (CreatingSession e)" "t = s'" using assms Inr x by (simp_all add: openSession_def)
    with Inr Inl x show thesis using that(2) by simp
  next
    case (Inr u)
    then have "r = Inr token" "t = s'"
      using assms \<open>newToken (callRand env) = Inr token\<close> x by (simp_all add: openSession_def)
    with Inr x show thesis using that(3) \<open>newToken (callRand env) = Inr token\<close> by simp
  qed
qed

lemma Register_cases:
  assumes "Register K svc env n0 pw d0 s = (r, s')"
  defines "n \<equiv> TrimSpace n0"
  defines "d \<equiv> (if TrimSpace d0 = '''' then n else TrimSpace d0)"
  obtains (invalid) e where "validateCredentials n pw d = Some e" "r = Inl e" "s' = s"
  | (hashing) "validateCredentials n pw d = None" "GenerateFromPassword K (callSalt env) pw = None"
    "r = Inl HashingPassword" "s' = s"
  | (create) h e where "validateCredentials n pw d = None" "GenerateFromPassword K (callSalt env) pw = Some h"
    "CreateUser (store svc) (firstEnv env) n h d s = (Inl e, s')" "r = Inl e"
  | (session) h u s1 e where "validateCredentials n pw d = None" "GenerateFromPassword K (callSalt env) pw = Some h"
    "CreateUser (store svc) (firstEnv env) n h d s = (Inr u, s1)"
    "openSession K svc env (uID u) s1 = (Inl e, s')" "r = Inl e"
  | (opened) h u s1 token where "validateCredentials n pw d = None" "GenerateFromPassword K (callSalt env) pw = Some h"
    "CreateUser (store svc) (firstEnv env) n h d s = (Inr u, s1)"
    "openSession K svc env (uID u) s1 = (Inr token, s')" "r = Inr (u, token)"
  using assms(1) unfolding Register_def Let_def n_def [symmetric] d_def [symmetric]
  by (auto split: option.splits prod.splits sum.splits)

end
