(* ===== verification/Auth_Laws.thy ===== *)
theory Auth_Laws
  imports Auth
begin

text \<open>
  What the authentication service guarantees over any store that meets the contract: the
  life of a session from registration or login to logout or expiry, and what each failure
  leaves behind. Proved once in the locale; the two databases inherit it.
\<close>

context auth_store
begin

definition ops :: "('env, 's) Store_ops" where
  "ops = \<lparr>CreateUser = create_user, CredentialsByUsername = credentials_of,
     CreateSession = create_session, UserBySessionToken = user_by_session,
     DeleteSession = delete_session\<rparr>"

lemma ops_simps [simp]:
  "CreateUser ops = create_user" "CredentialsByUsername ops = credentials_of"
  "CreateSession ops = create_session" "UserBySessionToken ops = user_by_session"
  "DeleteSession ops = delete_session"
  by (simp_all add: ops_def)

lemma openSession_ok:
  assumes "valid s" and "openSession K (NewService ops ttl) env i s = (Inr token, s')"
  shows "newToken (callRand env) = Inr token" "valid s'" "account s' = account s"
    "session s (hashToken K token) = None"
    "session s' = (session s)(hashToken K token \<mapsto> (i, stamp (callNow env + ttl)))"
proof -
  from assms(2) have c: "newToken (callRand env) = Inr token \<and>
      create_session (secondEnv env) (hashToken K token) i (callNow env + ttl) s = (Inr (), s')"
    by (cases rule: openSession_cases) (simp_all add: NewService_def)
  then show "newToken (callRand env) = Inr token" by blast
  show "valid s'" "account s' = account s" "session s (hashToken K token) = None"
    "session s' = (session s)(hashToken K token \<mapsto> (i, stamp (callNow env + ttl)))"
    using session_ok [OF assms(1) conjunct2 [OF c]] by blast+
qed

lemma openSession_error:
  assumes "valid s" and "openSession K (NewService ops ttl) env i s = (Inl e, s')"
  shows "s' = s" "e = GeneratingToken \<or> e = CreatingSession StoringSession"
proof -
  from assms(2) have "s' = s \<and> (e = GeneratingToken \<or> e = CreatingSession StoringSession)"
  proof (cases rule: openSession_cases)
    case (1 e')
    then show ?thesis by (auto simp: newToken_def split: option.splits)
  next
    case (2 token e')
    then show ?thesis using session_err by (auto simp: NewService_def)
  qed simp
  then show "s' = s" "e = GeneratingToken \<or> e = CreatingSession StoringSession" by blast+
qed

lemma Authenticate_open:
  assumes "valid s" and "healthy env" and "token \<noteq> ''''"
    and "session s (hashToken K token) = Some (uID u, e)" and "account s n = Some (u, h)"
  shows "Authenticate K (NewService ops ttl) env token s =
    (if now env < e then Inr u else Inl ErrNoSession)"
  using lookup_healthy [OF assms(1,2,4) _ assms(5)] lookup_none [OF assms(1,2), of "hashToken K token"] assms(3,4)
  by (simp add: Authenticate_def NewService_def)

lemma Authenticate_none:
  assumes "valid s" and "healthy env" and "session s (hashToken K token) = None"
  shows "Authenticate K (NewService ops ttl) env token s = Inl ErrNoSession"
  using lookup_none [OF assms(1,2), of "hashToken K token"] assms(3)
  by (simp add: Authenticate_def NewService_def)

text \<open>A session opened by a registration or a login, until it expires.\<close>

definition opened ::
    "crypto \<Rightarrow> string \<Rightarrow> User \<Rightarrow> gotime \<Rightarrow> string \<Rightarrow> 's \<Rightarrow> bool" where
  "opened K token u expiry n s \<longleftrightarrow> valid s \<and> token \<noteq> '''' \<and>
     session s (hashToken K token) = Some (uID u, expiry) \<and> (\<exists>h. account s n = Some (u, h))"

lemma Register_opens:
  assumes "valid s" and "rand_ok env"
    and "Register K (NewService ops ttl) env n0 pw d0 s = (Inr (u, token), s')"
  shows "opened K token u (stamp (callNow env + ttl)) (TrimSpace n0) s' \<and>
    account s (TrimSpace n0) = None \<and>
    (\<exists>h. GenerateFromPassword K (callSalt env) pw = Some h \<and> account s' = (account s)(TrimSpace n0 \<mapsto> (u, h)))"
  using assms(3)
proof (cases rule: Register_cases)
  case (opened h u' s1 token')
  have u: "u' = u" "token' = token" using opened(5) by simp_all
  from create_ok [OF assms(1)] opened(3) u have 1: "valid s1" "account s (TrimSpace n0) = None"
    "account s1 = (account s)(TrimSpace n0 \<mapsto> (u, h))"
    by (auto simp: NewService_def)
  from openSession_ok [OF 1(1) opened(4) [unfolded u]]
  show ?thesis
    using 1(2,3) opened(2) newToken_token(3) [OF assms(2)] by (auto simp: opened_def)
qed simp_all

lemma Login_opens:
  assumes "valid s" and "rand_ok env"
    and "Login K (NewService ops ttl) env n0 pw s = (Inr (u, token), s')"
  shows "opened K token u (stamp (callNow env + ttl)) (TrimSpace n0) s' \<and> account s' = account s \<and>
    (\<exists>h. account s (TrimSpace n0) = Some (u, h) \<and> CompareHashAndPassword K h pw)"
proof -
  obtain h where c: "credentials_of (firstEnv env) (TrimSpace n0) s = Inr (u, h)"
    and m: "CompareHashAndPassword K h pw"
    and o: "openSession K (NewService ops ttl) env (uID u) s = (Inr token, s')"
    using assms(3) by (auto simp: Login_def NewService_def split: sum.splits prod.splits if_splits)
  from openSession_ok [OF assms(1) o] credentials_ok [OF c] m newToken_token(3) [OF assms(2)]
  show ?thesis by (auto simp: opened_def)
qed

lemma opened_Authenticate:
  "opened K token u e n s \<Longrightarrow> healthy env \<Longrightarrow>
     Authenticate K (NewService ops ttl) env token s = (if now env < e then Inr u else Inl ErrNoSession)"
  unfolding opened_def using Authenticate_open by blast

lemma Logout_closes:
  assumes "opened K token u e n s" and "Logout K (NewService ops ttl) env token s = (Inr (), s')"
  shows "valid s' \<and> account s' = account s \<and> session s' = (session s)(hashToken K token := None)"
  using assms delete_ok by (auto simp: Logout_def NewService_def opened_def)

text \<open>Failures: what is left behind, and how a login answers.\<close>

lemma Login_error:
  assumes "valid s" and "Login K (NewService ops ttl) env n0 pw s = (Inl e, s')"
  shows "s' = s" "e = ErrInvalidCredentials \<or> e = GeneratingToken \<or> e = CreatingSession StoringSession"
proof -
  have "s' = s \<and> (e = ErrInvalidCredentials \<or> e = GeneratingToken \<or> e = CreatingSession StoringSession)"
  proof (cases "credentials_of (firstEnv env) (TrimSpace n0) s")
    case (Inl x)
    then show ?thesis using assms(2) by (simp add: Login_def NewService_def)
  next
    case (Inr y)
    obtain u h where y: "y = (u, h)" by fastforce
    show ?thesis
    proof (cases "CompareHashAndPassword K h pw")
      case True
      then have "openSession K (NewService ops ttl) env (uID u) s = (Inl e, s')"
        using assms(2) Inr y by (auto simp: Login_def NewService_def split: prod.splits sum.splits)
      from openSession_error [OF assms(1) this] show ?thesis by blast
    next
      case False
      then show ?thesis using assms(2) Inr y by (simp add: Login_def NewService_def)
    qed
  qed
  then show "s' = s" "e = ErrInvalidCredentials \<or> e = GeneratingToken \<or> e = CreatingSession StoringSession"
    by blast+
qed

lemma Login_refused:
  assumes "healthy (firstEnv env)"
    and "\<And>u h. account s (TrimSpace n0) = Some (u, h) \<Longrightarrow> \<not> CompareHashAndPassword K h pw"
  shows "Login K (NewService ops ttl) env n0 pw s = (Inl ErrInvalidCredentials, s)"
  using credentials_healthy [OF assms(1), of "TrimSpace n0" s] assms(2)
  by (auto simp: Login_def NewService_def split: option.splits)

lemma openSession_healthy:
  assumes "valid s" and "healthy (secondEnv env)" and "account s n = Some (u, h)"
    and "newToken (callRand env) = Inr token" and "session s (hashToken K token) = None"
  shows "\<exists>s'. openSession K (NewService ops ttl) env (uID u) s = (Inr token, s')"
proof -
  obtain s' where "create_session (secondEnv env) (hashToken K token) (uID u) (callNow env + ttl) s = (Inr (), s')"
    using session_healthy [OF assms(1,2,5,3)] by blast
  then show ?thesis using assms(4) by (simp add: openSession_def NewService_def)
qed

lemma Login_accepted:
  assumes "valid s" and "healthy (firstEnv env)" and "healthy (secondEnv env)"
    and "account s (TrimSpace n0) = Some (u, h)" and "CompareHashAndPassword K h pw"
    and "newToken (callRand env) = Inr token" and "session s (hashToken K token) = None"
  shows "\<exists>s'. Login K (NewService ops ttl) env n0 pw s = (Inr (u, token), s')"
proof -
  obtain s' where "openSession K (NewService ops ttl) env (uID u) s = (Inr token, s')"
    using openSession_healthy [OF assms(1,3,4,6,7)] by blast
  then show ?thesis
    using credentials_healthy [OF assms(2), of "TrimSpace n0" s] assms(4,5)
    by (simp add: Login_def NewService_def)
qed

text \<open>A failed registration opens no session; it may leave an account behind.\<close>

lemma Register_fails:
  assumes "valid s" and "Register K (NewService ops ttl) env n0 pw d0 s = (Inl e, s')"
  shows "valid s' \<and> session s' = session s \<and>
    (account s' = account s \<or> account s (TrimSpace n0) = None \<and> e \<noteq> ErrUsernameTaken \<and>
       (\<exists>u h. account s' = (account s)(TrimSpace n0 \<mapsto> (u, h))))"
  using assms(2)
proof (cases rule: Register_cases)
  case (create h e')
  have "create_user (firstEnv env) (TrimSpace n0) h
      (if TrimSpace d0 = '''' then TrimSpace n0 else TrimSpace d0) s = (Inl e, s')"
    using create(3,4) by (simp add: NewService_def)
  from create_err [OF assms(1) this] show ?thesis by blast
next
  case (session h u s1 e')
  have "create_user (firstEnv env) (TrimSpace n0) h
      (if TrimSpace d0 = '''' then TrimSpace n0 else TrimSpace d0) s = (Inr u, s1)"
    using session(3) by (simp add: NewService_def)
  note c = create_ok [OF assms(1) this]
  have "s' = s1" "e = GeneratingToken \<or> e = CreatingSession StoringSession"
    using openSession_error [OF conjunct1 [OF c] session(4)] session(5) by simp_all
  then show ?thesis using c by auto
qed (use assms(1) in auto)

text \<open>A taken name is refused, and nothing changes.\<close>

lemma Register_taken:
  assumes "valid s" and "healthy (firstEnv env)" and "\<not> full s" and "account s (TrimSpace n0) \<noteq> None"
    and "validateCredentials (TrimSpace n0) pw (if TrimSpace d0 = '''' then TrimSpace n0 else TrimSpace d0) = None"
    and "GenerateFromPassword K (callSalt env) pw \<noteq> None"
  shows "\<exists>s'. Register K (NewService ops ttl) env n0 pw d0 s = (Inl ErrUsernameTaken, s') \<and>
    valid s' \<and> account s' = account s \<and> session s' = session s"
proof -
  obtain h where h: "GenerateFromPassword K (callSalt env) pw = Some h" using assms(6) by blast
  let ?d = "if TrimSpace d0 = '''' then TrimSpace n0 else TrimSpace d0"
  obtain s' where c: "create_user (firstEnv env) (TrimSpace n0) h ?d s = (Inl ErrUsernameTaken, s')"
    using create_taken [OF assms(1,2,4,3)] by blast
  then have "Register K (NewService ops ttl) env n0 pw d0 s = (Inl ErrUsernameTaken, s')"
    using assms(5) h by (simp add: Register_def NewService_def Let_def)
  then show ?thesis using create_err [OF assms(1) c] by blast
qed

text \<open>
  A registration whose session cannot be stored reports an error, yet the account exists
  and the name is taken from then on.
\<close>

lemma Register_orphan:
  assumes "valid s" and "healthy (firstEnv env)" and "\<not> full s" and "account s (TrimSpace n0) = None"
    and "validateCredentials (TrimSpace n0) pw (if TrimSpace d0 = '''' then TrimSpace n0 else TrimSpace d0) = None"
    and "GenerateFromPassword K (callSalt env) pw \<noteq> None"
    and "\<And>t i x z. \<exists>e. create_session (secondEnv env) t i x z = (Inl e, z)"
  shows "\<exists>e s'. Register K (NewService ops ttl) env n0 pw d0 s = (Inl e, s') \<and>
    (e = GeneratingToken \<or> e = CreatingSession StoringSession) \<and> valid s' \<and>
    account s' (TrimSpace n0) \<noteq> None \<and> session s' = session s"
proof -
  obtain h where h: "GenerateFromPassword K (callSalt env) pw = Some h" using assms(6) by blast
  let ?d = "if TrimSpace d0 = '''' then TrimSpace n0 else TrimSpace d0"
  obtain u s1 where c: "create_user (firstEnv env) (TrimSpace n0) h ?d s = (Inr u, s1)"
    using create_healthy [OF assms(1,2,4,3)] by blast
  obtain r s2 where o: "openSession K (NewService ops ttl) env (uID u) s1 = (r, s2)" by fastforce
  have "\<exists>e. r = Inl e"
    using o
  proof (cases rule: openSession_cases)
    case (3 token)
    then show ?thesis
      using assms(7) [of "hashToken K token" "uID u" "callNow env + ttl" s1] by (simp add: NewService_def)
  qed auto
  then obtain e where e: "r = Inl e" by blast
  have R: "Register K (NewService ops ttl) env n0 pw d0 s = (Inl e, s2)"
    using assms(5) h c o e by (simp add: Register_def NewService_def Let_def)
  show ?thesis
    using R create_ok [OF assms(1) c] openSession_error [OF _ o [unfolded e]] by auto
qed

end

section \<open>The two stores as interface values\<close>

definition sqlite_store :: "(auth_env, auth_db) Store_ops" where
  "sqlite_store = \<lparr>CreateUser = SQLite_CreateUser, CredentialsByUsername = SQLite_CredentialsByUsername,
     CreateSession = SQLite_CreateSession, UserBySessionToken = SQLite_UserBySessionToken,
     DeleteSession = SQLite_DeleteSession\<rparr>"

definition postgres_store :: "(gotime \<Rightarrow> gotime) \<Rightarrow> (auth_env, auth_db) Store_ops" where
  "postgres_store ts = \<lparr>CreateUser = Postgres_CreateUser,
     CredentialsByUsername = Postgres_CredentialsByUsername,
     CreateSession = Postgres_CreateSession ts, UserBySessionToken = Postgres_UserBySessionToken,
     DeleteSession = Postgres_DeleteSession\<rparr>"

lemma store_ops: "sqlite_auth.ops = sqlite_store" "postgres_auth.ops ts = postgres_store ts"
  by (simp_all add: sqlite_auth.ops_def sqlite_store_def postgres_auth.ops_def postgres_store_def)

end
