(* ===== verification/Room_Client.thy ===== *)
theory Room_Client
  imports Wire
begin

text \<open>
  The data of \<^verbatim>\<open>internal/hub/room.go\<close> and the part of \<^verbatim>\<open>internal/hub/client.go\<close> that the
  hub goroutine touches: a client's identity and its bounded \<^verbatim>\<open>send\<close> queue. Clients are
  pointers in Go; here a \<open>cid\<close> is the address and the process memory maps it to the
  struct. The connection itself belongs to the pumps and is modelled with them.
\<close>

section \<open>Clients\<close>

record client =
  clID :: string
  clName :: string
  clSend :: "Envelope chan"
  clPingInterval :: int

definition NewClient :: "string \<Rightarrow> string \<Rightarrow> int \<Rightarrow> int \<Rightarrow> panic + client" where
  "NewClient ident name sendBuffer pingInterval =
     (if sendBuffer < 0 then Inl ChanSizeOutOfRange
      else Inr \<lparr>clID = ident, clName = name, clSend = make_chan (nat sendBuffer),
                clPingInterval = pingInterval\<rparr>)"

text \<open>
  The process memory as far as the hub sees it: the client structs, and the supply of
  run-time choices (the order of each map loop, the case of a \<^verbatim>\<open>select\<close> with several ready
  cases). \<open>draw\<close> takes the next choice.
\<close>

record mem =
  heap :: "cid \<Rightarrow> client"
  rand :: "nat \<Rightarrow> nat"

lemma mem_update_commute [simp]:
  fixes s :: "'a mem_scheme"
  shows "heap_update g (rand_update k s) = rand_update k (heap_update g s)"
  by simp

definition draw :: "'a mem_scheme \<Rightarrow> nat \<times> 'a mem_scheme" where
  "draw s = (rand s 0, s\<lparr>rand := \<lambda>i. rand s (Suc i)\<rparr>)"

abbreviation sendq :: "'a mem_scheme \<Rightarrow> cid \<Rightarrow> Envelope list" where
  "sendq s c \<equiv> chBuf (clSend (heap s c))"

abbreviation send_closed :: "'a mem_scheme \<Rightarrow> cid \<Rightarrow> bool" where
  "send_closed s c \<equiv> chClosed (clSend (heap s c))"

abbreviation has_room :: "'a mem_scheme \<Rightarrow> cid \<Rightarrow> bool" where
  "has_room s c \<equiv> chan_room (clSend (heap s c))"

definition set_send :: "cid \<Rightarrow> Envelope chan \<Rightarrow> 'a mem_scheme \<Rightarrow> 'a mem_scheme" where
  "set_send c ch s = s\<lparr>heap := (heap s)(c := (heap s c)\<lparr>clSend := ch\<rparr>)\<rparr>"

definition enqueue :: "cid \<Rightarrow> Envelope \<Rightarrow> 'a mem_scheme \<Rightarrow> panic + bool \<times> 'a mem_scheme" where
  "enqueue c e s =
     ebind (chan_offer (Some c) e (clSend (heap s c))) (\<lambda>(ok, ch). Inr (ok, set_send c ch s))"

definition close_send :: "cid \<Rightarrow> 'a mem_scheme \<Rightarrow> panic + 'a mem_scheme" where
  "close_send c s =
     ebind (chan_close (Some c) (clSend (heap s c))) (\<lambda>ch. Inr (set_send c ch s))"

section \<open>Rooms\<close>

text \<open>
  A room's membership set. Only a loop over it can observe an order, and every loop
  draws its own.
\<close>

record room =
  rName :: string
  members :: "cid list"

definition newRoom :: "string \<Rightarrow> room" where
  "newRoom name = \<lparr>rName = name, members = []\<rparr>"

definition room_add :: "cid \<Rightarrow> room \<Rightarrow> room" where
  "room_add c r = r\<lparr>members := List.insert c (members r)\<rparr>"

definition room_remove :: "cid \<Rightarrow> room \<Rightarrow> room" where
  "room_remove c r = r\<lparr>members := removeAll c (members r)\<rparr>"

definition room_empty :: "room \<Rightarrow> bool" where
  "room_empty r \<longleftrightarrow> length (members r) = 0"

definition room_names :: "room \<Rightarrow> 'a mem_scheme \<Rightarrow> string list \<times> 'a mem_scheme" where
  "room_names r s = (let (n, s') = draw s
     in (map (\<lambda>c. clName (heap s c)) (shuffle n (members r)), s'))"

lemma room_simps [simp]:
  "rName (newRoom n) = n" "members (newRoom n) = []"
  "rName (room_add c r) = rName r" "set (members (room_add c r)) = insert c (set (members r))"
  "rName (room_remove c r) = rName r"
  "set (members (room_remove c r)) = set (members r) - {c}"
  "room_empty r \<longleftrightarrow> members r = []"
  by (simp_all add: newRoom_def room_add_def room_remove_def room_empty_def)

lemma distinct_room [simp]:
  "distinct (members r) \<Longrightarrow> distinct (members (room_add c r))"
  "distinct (members r) \<Longrightarrow> distinct (members (room_remove c r))"
  by (simp_all add: room_add_def room_remove_def distinct_removeAll)

lemma members_room_remove: "members (room_remove c r) = removeAll c (members r)"
  by (simp add: room_remove_def)

lemma room_add_idem: "c \<in> set (members r) \<Longrightarrow> room_add c r = r"
  by (simp add: room_add_def)

lemma room_remove_idem: "c \<notin> set (members r) \<Longrightarrow> room_remove c r = r"
  by (simp add: room_remove_def)

section \<open>Enqueueing\<close>

text \<open>What an accepted or refused frame leaves of an open queue.\<close>

definition push :: "Envelope \<Rightarrow> client \<Rightarrow> client" where
  "push e c = (if chan_room (clSend c)
     then c\<lparr>clSend := (clSend c)\<lparr>chBuf := chBuf (clSend c) @ [e]\<rparr>\<rparr> else c)"

lemma push_simps [simp]:
  "clID (push e c) = clID c" "clName (push e c) = clName c"
  "clPingInterval (push e c) = clPingInterval c"
  "chClosed (clSend (push e c)) = chClosed (clSend c)"
  "chCap (clSend (push e c)) = chCap (clSend c)"
  "chan_ok (clSend c) \<Longrightarrow> chan_ok (clSend (push e c))"
  by (simp_all add: push_def chan_ok_def chan_room_def)

lemma enqueue_open:
  "\<not> send_closed s c \<Longrightarrow>
     enqueue c e s = Inr (has_room s c, s\<lparr>heap := (heap s)(c := push e (heap s c))\<rparr>)"
  by (auto simp: enqueue_def chan_offer_open push_def set_send_def)

lemma enqueue_closed: "send_closed s c \<Longrightarrow> enqueue c e s = Inl (SendOnClosed (Some c))"
  by (simp add: enqueue_def chan_offer_def)

lemma draw_simps [simp]:
  "heap (snd (draw s)) = heap s" "fst (draw s) = rand s 0"
  by (simp_all add: draw_def)

text \<open>One client's queue is a non-blocking queue in the sense of the prelude.\<close>

interpretation client_queue: lossy_queue "enqueue c" "\<lambda>s. sendq s c" "\<lambda>s. chCap (clSend (heap s c))"
    "\<lambda>s. \<not> send_closed s c"
  by unfold_locales (auto simp: enqueue_open push_def chan_room_def)

end
