(* ===== verification/Hub.thy ===== *)
theory Hub
  imports Room_Client
begin

text \<open>
  The actor of \<^verbatim>\<open>internal/hub/hub.go\<close>: its state, one definition per method, and the loop
  of \<^verbatim>\<open>Run\<close> over the events its \<^verbatim>\<open>select\<close> can take. A method that runs on the actor goroutine
  takes the whole state and returns it updated, or the panic it raised. Logging is left
  out. \<^verbatim>\<open>store\<close> is used by \<^verbatim>\<open>History\<close> only, off the actor goroutine.
\<close>

section \<open>State\<close>

record command =
  cmdKind :: Type
  cmdClient :: cid
  cmdRoom :: string
  cmdText :: string

record RoomInfo =
  riName :: string
  riMembers :: nat

record Stats =
  stConnections :: nat
  stRooms :: "RoomInfo list"
  stMessagesTotal :: int64
  stMessageRate :: int64

definition zero_Stats :: Stats where
  "zero_Stats = \<lparr>stConnections = 0, stRooms = [], stMessagesTotal = 0, stMessageRate = 0\<rparr>"

text \<open>
  \<^verbatim>\<open>clients\<close> is a Go set of pointers, \<^verbatim>\<open>rooms\<close> a Go map; \<^verbatim>\<open>persist\<close> is the buffered channel it
  shares with the persister; \<open>hubDone\<close> says whether \<^verbatim>\<open>done\<close> has been closed.
\<close>

record hub = mem +
  clients :: "cid list"
  rooms :: "(string \<times> room) list"
  persist :: "Message chan"
  historyLimit :: int
  messagesTotal :: int64
  messageRate :: int64
  lastSampledTotal :: int64
  hubDone :: bool

text \<open>Updates of the memory fields are moved outside updates of the hub's own.\<close>

lemma hub_update_commute [simp]:
  fixes h :: "'a hub_scheme"
  shows
  "clients_update f0 (heap_update g h) = heap_update g (clients_update f0 h)"
  "clients_update f0 (rand_update k h) = rand_update k (clients_update f0 h)"
  "rooms_update f1 (heap_update g h) = heap_update g (rooms_update f1 h)"
  "rooms_update f1 (rand_update k h) = rand_update k (rooms_update f1 h)"
  "persist_update f2 (heap_update g h) = heap_update g (persist_update f2 h)"
  "persist_update f2 (rand_update k h) = rand_update k (persist_update f2 h)"
  "messagesTotal_update f3 (heap_update g h) = heap_update g (messagesTotal_update f3 h)"
  "messagesTotal_update f3 (rand_update k h) = rand_update k (messagesTotal_update f3 h)"
  by simp_all

definition New :: "(cid \<Rightarrow> client) \<Rightarrow> (nat \<Rightarrow> nat) \<Rightarrow> Message chan \<Rightarrow> int \<Rightarrow> hub" where
  "New hp rnd p lim = \<lparr>heap = hp, rand = rnd, clients = [], rooms = [], persist = p,
     historyLimit = lim, messagesTotal = 0, messageRate = 0, lastSampledTotal = 0,
     hubDone = False\<rparr>"

section \<open>Presence\<close>

text \<open>The loop \<^verbatim>\<open>for c := range r.members { c.enqueue(frame) }\<close> over one order of the members.\<close>

fun enqueue_each :: "cid list \<Rightarrow> Envelope \<Rightarrow> 'a mem_scheme \<Rightarrow> panic + 'a mem_scheme" where
  "enqueue_each [] e s = Inr s"
| "enqueue_each (c # cs) e s = ebind (enqueue c e s) (\<lambda>(_, s'). enqueue_each cs e s')"

definition presence_frame :: "string \<Rightarrow> string \<Rightarrow> bool \<Rightarrow> string list \<Rightarrow> Envelope" where
  "presence_frame rm user joined ns = zero_Envelope\<lparr>eType := TypePresence, eRoom := rm,
     ePresence := Some \<lparr>pUser = user, pJoined = joined, pMembers = ns\<rparr>\<rparr>"

definition broadcastPresence ::
    "room \<Rightarrow> string \<Rightarrow> bool \<Rightarrow> 'a mem_scheme \<Rightarrow> panic + 'a mem_scheme" where
  "broadcastPresence r user joined s =
     (let (ns, s1) = room_names r s;
          frame = presence_frame (rName r) user joined ns;
          (n, s2) = draw s1
      in enqueue_each (shuffle n (members r)) frame s2)"

section \<open>Disconnecting\<close>

text \<open>
  The loop of \<^verbatim>\<open>disconnect\<close> over the room names in one order. A name whose entry is gone is
  not produced by the Go loop. The room is changed in place through its pointer, before the
  presence broadcast; the map entry is deleted after it.
\<close>

fun leave_rooms :: "cid \<Rightarrow> string list \<Rightarrow> 'a hub_scheme \<Rightarrow> panic + 'a hub_scheme" where
  "leave_rooms c [] h = Inr h"
| "leave_rooms c (name # ns) h =
     (case map_of (rooms h) name of
        None \<Rightarrow> leave_rooms c ns h
      | Some r \<Rightarrow>
          if c \<notin> set (members r) then leave_rooms c ns h
          else
            (let r' = room_remove c r
             in ebind (broadcastPresence r' (clName (heap h c)) False
                        (h\<lparr>rooms := AList.update name r' (rooms h)\<rparr>))
                  (\<lambda>h1. leave_rooms c ns
                     (if room_empty r' then h1\<lparr>rooms := AList.delete name (rooms h1)\<rparr> else h1))))"

definition disconnect :: "cid \<Rightarrow> 'a hub_scheme \<Rightarrow> panic + 'a hub_scheme" where
  "disconnect c h =
     (if c \<notin> set (clients h) then Inr h
      else
        (let h1 = h\<lparr>clients := removeAll c (clients h)\<rparr>;
             (n, h2) = draw h1
         in ebind (leave_rooms c (shuffle n (map fst (rooms h2))) h2) (close_send c)))"

fun disconnect_each :: "cid list \<Rightarrow> 'a hub_scheme \<Rightarrow> panic + 'a hub_scheme" where
  "disconnect_each [] h = Inr h"
| "disconnect_each (c # cs) h = ebind (disconnect c h) (disconnect_each cs)"

section \<open>Delivering a message\<close>

text \<open>The delivery loop returns the members whose buffer was full, in loop order.\<close>

fun deliver_each ::
    "cid list \<Rightarrow> Envelope \<Rightarrow> cid \<Rightarrow> 'a mem_scheme \<Rightarrow> panic + cid list \<times> 'a mem_scheme" where
  "deliver_each [] e except s = Inr ([], s)"
| "deliver_each (c # cs) e except s =
     (if c = except then deliver_each cs e except s
      else ebind (enqueue c e s) (\<lambda>(ok, s1).
             ebind (deliver_each cs e except s1) (\<lambda>(slow, s2).
               Inr (if ok then slow else c # slow, s2))))"

definition deliverMessage ::
    "room \<Rightarrow> Envelope \<Rightarrow> cid \<Rightarrow> 'a hub_scheme \<Rightarrow> panic + 'a hub_scheme" where
  "deliverMessage r frame except h =
     (let (n, h1) = draw h
      in ebind (deliver_each (shuffle n (members r)) frame except h1)
           (\<lambda>(slow, h2). disconnect_each slow h2))"

text \<open>
  The cold-path \<^verbatim>\<open>select\<close>: the send is ready when the queue has room (or is closed, and then
  panics); \<^verbatim>\<open>ctx.Done()\<close> is ready once the context is cancelled; with both ready the runtime
  picks one; with none, \<^verbatim>\<open>default\<close> drops the message from persistence.
\<close>

definition handoff :: "bool \<Rightarrow> Message \<Rightarrow> 'a hub_scheme \<Rightarrow> panic + 'a hub_scheme" where
  "handoff ctxDone m h =
     (let ready = chan_room (persist h) \<or> chClosed (persist h);
          (n, h1) = (if ready \<and> ctxDone then draw h else (0, h))
      in if ready \<and> even n
         then ebind (chan_offer None m (persist h1)) (\<lambda>(_, p). Inr (h1\<lparr>persist := p\<rparr>))
         else Inr h1)"

definition message_of :: "command \<Rightarrow> gotime \<Rightarrow> 'a mem_scheme \<Rightarrow> Message" where
  "message_of cmd now s = zero_Message\<lparr>mRoom := cmdRoom cmd,
     mSenderID := clID (heap s (cmdClient cmd)), mSenderName := clName (heap s (cmdClient cmd)),
     mContent := cmdText cmd, mCreatedAt := now\<rparr>"

definition message_frame :: "string \<Rightarrow> Message \<Rightarrow> Envelope" where
  "message_frame rm m = zero_Envelope\<lparr>eType := TypeMessage, eRoom := rm, eMessage := Some m\<rparr>"

definition broadcast :: "bool \<Rightarrow> gotime \<Rightarrow> command \<Rightarrow> 'a hub_scheme \<Rightarrow> panic + 'a hub_scheme" where
  "broadcast ctxDone now cmd h =
     (case map_of (rooms h) (cmdRoom cmd) of
        None \<Rightarrow> Inr h
      | Some r \<Rightarrow>
          (let h1 = h\<lparr>messagesTotal := messagesTotal h + 1\<rparr>;
               m = message_of cmd now h1;
               frame = message_frame (cmdRoom cmd) m
           in ebind (deliverMessage r frame (cmdClient cmd) h1) (handoff ctxDone m)))"

section \<open>Joining and leaving\<close>

definition join :: "command \<Rightarrow> 'a hub_scheme \<Rightarrow> panic + 'a hub_scheme" where
  "join cmd h =
     (let r = (case map_of (rooms h) (cmdRoom cmd) of
                 None \<Rightarrow> newRoom (cmdRoom cmd) | Some r \<Rightarrow> r);
          r' = room_add (cmdClient cmd) r
      in broadcastPresence r' (clName (heap h (cmdClient cmd))) True
           (h\<lparr>rooms := AList.update (cmdRoom cmd) r' (rooms h)\<rparr>))"

definition leave :: "command \<Rightarrow> 'a hub_scheme \<Rightarrow> panic + 'a hub_scheme" where
  "leave cmd h =
     (case map_of (rooms h) (cmdRoom cmd) of
        None \<Rightarrow> Inr h
      | Some r \<Rightarrow>
          (let r' = room_remove (cmdClient cmd) r
           in ebind (broadcastPresence r' (clName (heap h (cmdClient cmd))) False
                      (h\<lparr>rooms := AList.update (cmdRoom cmd) r' (rooms h)\<rparr>))
                (\<lambda>h1. Inr (if room_empty r' then h1\<lparr>rooms := AList.delete (rName r') (rooms h1)\<rparr>
                           else h1))))"

definition handle :: "bool \<Rightarrow> gotime \<Rightarrow> command \<Rightarrow> 'a hub_scheme \<Rightarrow> panic + 'a hub_scheme" where
  "handle ctxDone now cmd h =
     (if cmdKind cmd = TypeJoin then join cmd h
      else if cmdKind cmd = TypeLeave then leave cmd h
      else if cmdKind cmd = TypeMessage then broadcast ctxDone now cmd h
      else Inr h)"

section \<open>Snapshots and history\<close>

definition snapshot :: "'a hub_scheme \<Rightarrow> Stats \<times> 'a hub_scheme" where
  "snapshot h =
     (let (n, h1) = draw h
      in (\<lparr>stConnections = length (clients h),
           stRooms = map (\<lambda>(name, r). \<lparr>riName = name, riMembers = length (members r)\<rparr>)
                       (shuffle n (rooms h)),
           stMessagesTotal = messagesTotal h, stMessageRate = messageRate h\<rparr>, h1))"

text \<open>
  \<^verbatim>\<open>History\<close> takes the store's \<^verbatim>\<open>RecentByRoom\<close> (\<open>None\<close> for a nil store) and the limit; the
  error is the wrapped one, with the room.
\<close>

datatype 'e history_error = LoadingHistory string 'e

definition History ::
    "(string \<Rightarrow> int \<Rightarrow> 'e + Message list) option \<Rightarrow> int \<Rightarrow> string \<Rightarrow> 'e history_error + Message list" where
  "History st lim room_name =
     (case st of
        None \<Rightarrow> Inr []
      | Some RecentByRoom \<Rightarrow>
          if lim \<le> 0 then Inr []
          else (case RecentByRoom room_name lim of
                  Inl e \<Rightarrow> Inl (LoadingHistory room_name e)
                | Inr ms \<Rightarrow> Inr ms))"

section \<open>The actor loop\<close>

text \<open>
  The cases of the \<^verbatim>\<open>select\<close> in \<^verbatim>\<open>Run\<close>: a registration, an unregistration, a command (with the
  wall clock \<^verbatim>\<open>time.Now().UTC()\<close> read while it is handled, and whether the context was already
  cancelled at the cold-path \<^verbatim>\<open>select\<close>), a snapshot query, a tick of the sampler, the
  cancelled context. \<^verbatim>\<open>Run\<close> over a list of events is one execution of the loop: it ends at
  \<^verbatim>\<open>EvDone\<close>, where the deferred \<^verbatim>\<open>close(h.done)\<close> runs.
\<close>

datatype event =
    EvRegister cid
  | EvUnregister cid
  | EvInbound command gotime bool
  | EvQuery
  | EvTick
  | EvDone

fun run_step :: "event \<Rightarrow> 'a hub_scheme \<Rightarrow> panic + Stats option \<times> 'a hub_scheme" where
  "run_step (EvRegister c) h = Inr (None, h\<lparr>clients := List.insert c (clients h)\<rparr>)"
| "run_step (EvUnregister c) h = ebind (disconnect c h) (\<lambda>h'. Inr (None, h'))"
| "run_step (EvInbound cmd now ctxDone) h =
     ebind (handle ctxDone now cmd h) (\<lambda>h'. Inr (None, h'))"
| "run_step EvQuery h = (let (st, h') = snapshot h in Inr (Some st, h'))"
| "run_step EvTick h = Inr (None, h\<lparr>messageRate := messagesTotal h - lastSampledTotal h,
                                    lastSampledTotal := messagesTotal h\<rparr>)"
| "run_step EvDone h = Inr (None, h\<lparr>hubDone := True\<rparr>)"

fun Run :: "event list \<Rightarrow> 'a hub_scheme \<Rightarrow> panic + 'a hub_scheme" where
  "Run [] h = Inr h"
| "Run (ev # evs) h =
     ebind (run_step ev h) (\<lambda>(_, h'). if ev = EvDone then Inr h' else Run evs h')"

text \<open>The definitions that evaluate an operation on a concrete state.\<close>

lemmas hub_eval [go_simps] =
  Type_defs draw_def enqueue_def set_send_def chan_offer_def chan_room_def chan_close_def
  close_send_def room_add_def room_remove_def room_names_def room_empty_def newRoom_def
  presence_frame_def broadcastPresence_def disconnect_def deliverMessage_def handoff_def
  message_of_def message_frame_def broadcast_def join_def leave_def handle_def snapshot_def
  Let_def zero_Envelope_def zero_Message_def

end
