(* ===== verification/Hub_Inv.thy ===== *)
theory Hub_Inv
  imports Hub
begin

text \<open>
  The invariant of the hub's state and what each operation does to it. The first half
  reduces the loops to closed forms, whatever order they ran in: a presence broadcast pushes
  one frame onto the queue of every member, a disconnect purges the client from every room.
  The second half: from a state in the invariant no operation panics, and each keeps it.
\<close>

section \<open>Well-formed rooms\<close>

definition rooms_ok :: "(string \<times> room) list \<Rightarrow> bool" where
  "rooms_ok rs \<longleftrightarrow> distinct (map fst rs) \<and>
     (\<forall>(n, r) \<in> set rs. rName r = n \<and> distinct (members r) \<and> members r \<noteq> [])"

lemma rooms_okD:
  assumes "rooms_ok rs" and "map_of rs n = Some r"
  shows "rName r = n" and "distinct (members r)" and "members r \<noteq> []"
proof -
  from assms(2) have "(n, r) \<in> set rs" by (rule map_of_SomeD)
  with assms(1) show "rName r = n" and "distinct (members r)" and "members r \<noteq> []"
    unfolding rooms_ok_def by blast+
qed

lemma rooms_ok_Nil [simp]: "rooms_ok []"
  by (simp add: rooms_ok_def)

text \<open>The rooms after client \<open>c\<close> has been taken out of those named in \<open>S\<close>.\<close>

definition purge :: "cid \<Rightarrow> string set \<Rightarrow> (string \<times> room) list \<Rightarrow> (string \<times> room) list" where
  "purge c S rs = filter (\<lambda>(n, r). members r \<noteq> [])
     (map (\<lambda>(n, r). (n, if n \<in> S then room_remove c r else r)) rs)"

lemma set_purge:
  "(n, r') \<in> set (purge c S rs) \<longleftrightarrow> members r' \<noteq> [] \<and>
     (\<exists>r. (n, r) \<in> set rs \<and> r' = (if n \<in> S then room_remove c r else r))"
  by (force simp: purge_def image_iff)

lemma distinct_purge: "distinct (map fst rs) \<Longrightarrow> distinct (map fst (purge c S rs))"
  unfolding purge_def
  by (rule distinct_map_filter) (simp add: comp_def case_prod_beta)

lemma rooms_ok_purge: "rooms_ok rs \<Longrightarrow> rooms_ok (purge c S rs)"
  unfolding rooms_ok_def by (fastforce simp: set_purge distinct_purge)

lemma purge_empty: "rooms_ok rs \<Longrightarrow> purge c {} rs = rs"
  unfolding purge_def rooms_ok_def by (auto simp: filter_id_conv case_prod_beta)

lemma purge_purge: "purge c S (purge c T rs) = purge c (S \<union> T) rs"
proof (induction rs)
  case Nil
  then show ?case by (simp add: purge_def)
next
  case (Cons x rs)
  then show ?case by (cases x) (auto simp: purge_def room_remove_def)
qed

lemma purge_cong: "(\<And>n r. (n, r) \<in> set rs \<Longrightarrow> n \<in> S \<longleftrightarrow> n \<in> T) \<Longrightarrow> purge c S rs = purge c T rs"
  unfolding purge_def by (intro arg_cong [where f = "filter _"] map_cong) auto

lemma purge_noop:
  assumes "rooms_ok rs" and "\<And>r. map_of rs n = Some r \<Longrightarrow> c \<notin> set (members r)"
  shows "purge c {n} rs = rs"
proof -
  have "map (\<lambda>(k, r). (k, if k \<in> {n} then room_remove c r else r)) rs = rs"
    using assms by (intro map_idI) (auto simp: rooms_ok_def room_remove_idem)
  then show ?thesis
    using assms(1) unfolding purge_def rooms_ok_def by (auto simp: filter_id_conv case_prod_beta)
qed

text \<open>One turn of the disconnect loop is a purge of that name.\<close>

lemma update_delete_purge:
  assumes "rooms_ok rs" and "map_of rs n = Some r"
  shows "(if room_empty (room_remove c r)
          then AList.delete n (AList.update n (room_remove c r) rs)
          else AList.update n (room_remove c r) rs) = purge c {n} rs"
  using assms
proof (induction rs)
  case Nil
  then show ?case by simp
next
  case (Cons x rs)
  obtain k q where x: "x = (k, q)" by fastforce
  have ok: "rooms_ok rs" and q: "members q \<noteq> []" and k: "k \<notin> fst ` set rs"
    using Cons.prems(1) by (auto simp: x rooms_ok_def)
  show ?case
  proof (cases "k = n")
    case True
    then have "purge c {n} rs = rs"
      using k by (intro purge_noop [OF ok]) (auto dest!: map_of_SomeD intro: rev_image_eqI)
    moreover have "AList.delete n rs = rs"
      using k True by (simp add: delete_idem)
    ultimately show ?thesis
      using Cons.prems(2) True x by (auto simp: purge_def)
  next
    case False
    then show ?thesis
      using Cons.IH [OF ok] Cons.prems(2) q x by (auto simp: purge_def split: if_splits)
  qed
qed

section \<open>Closed forms of the loops\<close>

definition push_all :: "cid set \<Rightarrow> Envelope \<Rightarrow> (cid \<Rightarrow> client) \<Rightarrow> cid \<Rightarrow> client" where
  "push_all A e hp = (\<lambda>c. if c \<in> A then push e (hp c) else hp c)"

lemma push_all_simps [simp]:
  "clID (push_all A e hp c) = clID (hp c)" "clName (push_all A e hp c) = clName (hp c)"
  "chClosed (clSend (push_all A e hp c)) = chClosed (clSend (hp c))"
  "push_all {} e hp = hp"
  by (simp_all add: push_all_def)

lemma enqueue_each_open:
  "distinct cs \<Longrightarrow> \<forall>c \<in> set cs. \<not> send_closed s c \<Longrightarrow>
     enqueue_each cs e s = Inr (s\<lparr>heap := push_all (set cs) e (heap s)\<rparr>)"
proof (induction cs arbitrary: s)
  case Nil
  then show ?case by simp
next
  case (Cons c cs)
  let ?s = "s\<lparr>heap := (heap s)(c := push e (heap s c))\<rparr>"
  have "push_all (set cs) e (heap ?s) = push_all (set (c # cs)) e (heap s)"
    using Cons.prems(1) by (auto simp: push_all_def)
  moreover have "\<forall>d \<in> set cs. \<not> send_closed ?s d"
    using Cons.prems(2) by simp
  ultimately have "enqueue_each cs e ?s = Inr (s\<lparr>heap := push_all (set (c # cs)) e (heap s)\<rparr>)"
    using Cons.IH [of ?s] Cons.prems(1) by (simp del: fun_upd_apply)
  with Cons.prems(2) show ?case
    by (simp add: enqueue_open del: fun_upd_apply)
qed

definition names_in :: "'a mem_scheme \<Rightarrow> room \<Rightarrow> string list" where
  "names_in s r = map (\<lambda>c. clName (heap s c)) (shuffle (rand s 0) (members r))"

lemma mset_names_in: "mset (names_in s r) = image_mset (\<lambda>c. clName (heap s c)) (mset (members r))"
  unfolding names_in_def mset_map mset_shuffle ..

lemma broadcastPresence_open:
  assumes "distinct (members r)" and "\<forall>c \<in> set (members r). \<not> send_closed s c"
  shows "broadcastPresence r u j s =
    Inr (s\<lparr>heap := push_all (set (members r)) (presence_frame (rName r) u j (names_in s r)) (heap s),
           rand := \<lambda>i. rand s (Suc (Suc i))\<rparr>)"
  using assms
  by (simp add: broadcastPresence_def room_names_def draw_def Let_def names_in_def enqueue_each_open)

subsection \<open>Frames are only appended\<close>

text \<open>
  \<open>ext P hp hp'\<close>: every client of \<open>hp'\<close> is the one of \<open>hp\<close> with frames that satisfy \<open>P\<close>
  appended to its queue, within its capacity.
\<close>

definition ext1 :: "(Envelope \<Rightarrow> bool) \<Rightarrow> client \<Rightarrow> client \<Rightarrow> bool" where
  "ext1 P c c' \<longleftrightarrow> clID c' = clID c \<and> clName c' = clName c \<and> clPingInterval c' = clPingInterval c \<and>
     chCap (clSend c') = chCap (clSend c) \<and> chClosed (clSend c') = chClosed (clSend c) \<and>
     (chan_ok (clSend c) \<longrightarrow> chan_ok (clSend c')) \<and>
     (\<exists>ys. chBuf (clSend c') = chBuf (clSend c) @ ys \<and> list_all P ys)"

definition ext :: "(Envelope \<Rightarrow> bool) \<Rightarrow> (cid \<Rightarrow> client) \<Rightarrow> (cid \<Rightarrow> client) \<Rightarrow> bool" where
  "ext P hp hp' \<longleftrightarrow> (\<forall>c. ext1 P (hp c) (hp' c))"

lemma ext1_refl [simp]: "ext1 P c c"
  by (simp add: ext1_def)

lemma ext1_trans: "ext1 P a b \<Longrightarrow> ext1 P b c \<Longrightarrow> ext1 P a c"
  unfolding ext1_def by auto

lemma ext1_push: "P e \<Longrightarrow> ext1 P c (push e c)"
  by (auto simp: ext1_def push_def chan_ok_def chan_room_def)

lemma ext_refl [simp]: "ext P hp hp"
  by (simp add: ext_def)

lemma ext_trans [trans]: "ext P a b \<Longrightarrow> ext P b c \<Longrightarrow> ext P a c"
  unfolding ext_def using ext1_trans by blast

lemma ext_push_all: "P e \<Longrightarrow> ext P hp (push_all A e hp)"
  by (simp add: ext_def push_all_def ext1_push)

lemma ext_mono: "ext P a b \<Longrightarrow> (\<And>e. P e \<Longrightarrow> Q e) \<Longrightarrow> ext Q a b"
  unfolding ext_def ext1_def list_all_iff by blast

lemma extD:
  assumes "ext P hp hp'"
  shows "clID (hp' c) = clID (hp c)" "clName (hp' c) = clName (hp c)"
    "chCap (clSend (hp' c)) = chCap (clSend (hp c))"
    "chClosed (clSend (hp' c)) = chClosed (clSend (hp c))"
    "chan_ok (clSend (hp c)) \<Longrightarrow> chan_ok (clSend (hp' c))"
  using assms by (auto simp: ext_def ext1_def)

text \<open>The presence frames a departure sends.\<close>

definition left_frame :: "string \<Rightarrow> Envelope \<Rightarrow> bool" where
  "left_frame user e \<longleftrightarrow> (\<exists>rm ns. e = presence_frame rm user False ns)"

lemma left_frame_presence [simp]: "left_frame u (presence_frame rm u False ns)"
  by (auto simp: left_frame_def)

subsection \<open>The disconnect loop\<close>

text \<open>
  \<open>shares rs c d\<close>: client \<open>d\<close> is in some room together with \<open>c\<close>. These are the clients a
  departure of \<open>c\<close> is announced to. \<open>open_besides c rs hp\<close>: every member of a room other
  than \<open>c\<close> has an open queue.
\<close>

definition shares :: "(string \<times> room) list \<Rightarrow> cid \<Rightarrow> cid \<Rightarrow> bool" where
  "shares rs c d \<longleftrightarrow> d \<noteq> c \<and> (\<exists>(n, r) \<in> set rs. c \<in> set (members r) \<and> d \<in> set (members r))"

definition open_besides :: "cid \<Rightarrow> (string \<times> room) list \<Rightarrow> (cid \<Rightarrow> client) \<Rightarrow> bool" where
  "open_besides c rs hp \<longleftrightarrow>
     (\<forall>(n, r) \<in> set rs. \<forall>d \<in> set (members r) - {c}. \<not> chClosed (clSend (hp d)))"

lemma shares_purge: "shares (purge c S rs) c d \<Longrightarrow> shares rs c d"
  unfolding shares_def by (fastforce simp: set_purge split: if_splits)

lemma open_besides_purge: "open_besides c rs hp \<Longrightarrow> open_besides c (purge c S rs) hp"
  unfolding open_besides_def by (fastforce simp: set_purge split: if_splits)

lemma open_besides_ext: "ext P hp hp' \<Longrightarrow> open_besides c rs hp' = open_besides c rs hp"
  by (simp add: open_besides_def extD(4))

lemma leave_rooms_turn:
  assumes "rooms_ok (rooms h)" and "map_of (rooms h) n = Some r" and "c \<in> set (members r)"
    and "open_besides c (rooms h) (heap h)"
  shows "\<exists>hp rnd. leave_rooms c (n # ns) h =
      leave_rooms c ns (h\<lparr>rooms := purge c {n} (rooms h), heap := hp, rand := rnd\<rparr>) \<and>
    ext (left_frame (clName (heap h c))) (heap h) hp \<and>
    (\<forall>d. \<not> shares (rooms h) c d \<longrightarrow> hp d = heap h d)"
proof -
  let ?r = "room_remove c r" and ?u = "clName (heap h c)"
  let ?h = "h\<lparr>rooms := AList.update n ?r (rooms h)\<rparr>"
  let ?f = "presence_frame (rName ?r) ?u False (names_in ?h ?r)"
  let ?hp = "push_all (set (members ?r)) ?f (heap h)"
  have mem: "(n, r) \<in> set (rooms h)"
    using assms(2) by (rule map_of_SomeD)
  then have "broadcastPresence ?r ?u False ?h =
      Inr (?h\<lparr>heap := ?hp, rand := \<lambda>i. rand h (Suc (Suc i))\<rparr>)"
    using assms(4) rooms_okD(2) [OF assms(1,2)]
    by (subst broadcastPresence_open) (auto simp: open_besides_def)
  then have "leave_rooms c (n # ns) h = leave_rooms c ns
      (h\<lparr>rooms := purge c {n} (rooms h), heap := ?hp, rand := \<lambda>i. rand h (Suc (Suc i))\<rparr>)"
    using assms(2,3) update_delete_purge [OF assms(1,2), of c]
    by (simp add: Let_def split: if_splits)
  moreover have "ext (left_frame ?u) (heap h) ?hp"
    by (rule ext_push_all) simp
  moreover have "?hp d = heap h d" if "\<not> shares (rooms h) c d" for d
    using that mem assms(3) by (auto simp: push_all_def shares_def)
  ultimately show ?thesis by blast
qed

lemma leave_rooms_open:
  "rooms_ok (rooms h) \<Longrightarrow> open_besides c (rooms h) (heap h) \<Longrightarrow>
    \<exists>hp rnd. leave_rooms c ns h =
      Inr (h\<lparr>rooms := purge c (set ns) (rooms h), heap := hp, rand := rnd\<rparr>) \<and>
    ext (left_frame (clName (heap h c))) (heap h) hp \<and>
    (\<forall>d. \<not> shares (rooms h) c d \<longrightarrow> hp d = heap h d)"
proof (induction ns arbitrary: h)
  case Nil
  have "leave_rooms c [] h =
      Inr (h\<lparr>rooms := purge c (set []) (rooms h), heap := heap h, rand := rand h\<rparr>)"
    using purge_empty [OF Nil.prems(1)] by simp
  then show ?case using ext_refl by blast
next
  case (Cons n ns)
  have split: "purge c (set (n # ns)) (rooms h) = purge c (set ns) (purge c {n} (rooms h))"
    by (simp add: purge_purge insert_is_Un [symmetric] Un_commute)
  show ?case
  proof (cases "\<exists>r. map_of (rooms h) n = Some r \<and> c \<in> set (members r)")
    case False
    then have "leave_rooms c (n # ns) h = leave_rooms c ns h"
      by (auto split: option.split)
    moreover have "purge c {n} (rooms h) = rooms h"
      using False by (intro purge_noop [OF Cons.prems(1)]) blast
    ultimately show ?thesis
      using Cons.IH [OF Cons.prems] split by simp
  next
    case True
    then obtain r where r: "map_of (rooms h) n = Some r" "c \<in> set (members r)" by blast
    obtain hp1 rnd1 where 1: "leave_rooms c (n # ns) h =
        leave_rooms c ns (h\<lparr>rooms := purge c {n} (rooms h), heap := hp1, rand := rnd1\<rparr>)"
      "ext (left_frame (clName (heap h c))) (heap h) hp1"
      "\<forall>d. \<not> shares (rooms h) c d \<longrightarrow> hp1 d = heap h d"
      using leave_rooms_turn [OF Cons.prems(1) r Cons.prems(2)] by blast
    let ?h = "h\<lparr>rooms := purge c {n} (rooms h), heap := hp1, rand := rnd1\<rparr>"
    have "rooms_ok (rooms ?h)" "open_besides c (rooms ?h) (heap ?h)"
      using Cons.prems rooms_ok_purge open_besides_purge open_besides_ext [OF 1(2)] by simp_all
    from Cons.IH [OF this] obtain hp rnd where 2: "leave_rooms c ns ?h =
        Inr (?h\<lparr>rooms := purge c (set ns) (rooms ?h), heap := hp, rand := rnd\<rparr>)"
      "ext (left_frame (clName (heap ?h c))) (heap ?h) hp"
      "\<forall>d. \<not> shares (rooms ?h) c d \<longrightarrow> hp d = heap ?h d" by blast
    have "leave_rooms c (n # ns) h =
        Inr (h\<lparr>rooms := purge c (set (n # ns)) (rooms h), heap := hp, rand := rnd\<rparr>)"
      using 1(1) 2(1) split by simp
    moreover have "ext (left_frame (clName (heap h c))) (heap h) hp"
      using 1(2) 2(2) extD(2) [OF 1(2)] ext_trans by fastforce
    moreover have "\<forall>d. \<not> shares (rooms h) c d \<longrightarrow> hp d = heap h d"
      using 1(3) 2(3) shares_purge by fastforce
    ultimately show ?thesis by blast
  qed
qed

section \<open>The invariant\<close>

text \<open>
  No key repeats in a map and every room is filed under its own name and inhabited; only
  registered clients are members of rooms; the queue of every registered client is open and
  within its capacity; so is the hand-off queue to the persister.
\<close>

definition hub_inv :: "'a hub_scheme \<Rightarrow> bool" where
  "hub_inv h \<longleftrightarrow> distinct (clients h) \<and> rooms_ok (rooms h) \<and>
     (\<forall>(n, r) \<in> set (rooms h). set (members r) \<subseteq> set (clients h)) \<and>
     (\<forall>c \<in> set (clients h). \<not> send_closed h c \<and> chan_ok (clSend (heap h c))) \<and>
     \<not> chClosed (persist h) \<and> chan_ok (persist h)"

lemma hub_invD:
  assumes "hub_inv h"
  shows "distinct (clients h)" "rooms_ok (rooms h)"
    "\<And>n r. (n, r) \<in> set (rooms h) \<Longrightarrow> set (members r) \<subseteq> set (clients h)"
    "\<And>c. c \<in> set (clients h) \<Longrightarrow> \<not> send_closed h c"
    "\<And>c. c \<in> set (clients h) \<Longrightarrow> chan_ok (clSend (heap h c))"
    "\<not> chClosed (persist h)" "chan_ok (persist h)"
  using assms unfolding hub_inv_def by blast+

lemma hub_inv_open_besides: "hub_inv h \<Longrightarrow> open_besides c (rooms h) (heap h)"
  unfolding open_besides_def using hub_invD(3,4) by fastforce

lemma hub_inv_persist:
  "hub_inv h \<Longrightarrow> \<not> chClosed p \<Longrightarrow> chan_ok p \<Longrightarrow> hub_inv (h\<lparr>persist := p\<rparr>)"
  by (simp add: hub_inv_def)

subsection \<open>Dropping clients\<close>

text \<open>
  \<open>dropped D h h'\<close>: the clients of \<open>D\<close> have been disconnected. They are gone from the client
  set and from every room, rooms left empty are gone too, their queues are closed, and apart
  from departure notices nothing else has happened.
\<close>

definition without :: "cid set \<Rightarrow> (string \<times> room) list \<Rightarrow> (string \<times> room) list" where
  "without D rs = filter (\<lambda>(n, r). members r \<noteq> [])
     (map (\<lambda>(n, r). (n, r\<lparr>members := filter (\<lambda>c. c \<notin> D) (members r)\<rparr>)) rs)"

definition closed_client :: "client \<Rightarrow> client" where
  "closed_client cl = cl\<lparr>clSend := (clSend cl)\<lparr>chClosed := True\<rparr>\<rparr>"

definition is_left :: "Envelope \<Rightarrow> bool" where
  "is_left e \<longleftrightarrow> (\<exists>u. left_frame u e)"

definition dropped :: "cid set \<Rightarrow> 'a hub_scheme \<Rightarrow> 'a hub_scheme \<Rightarrow> bool" where
  "dropped D h h' \<longleftrightarrow> (\<exists>hp rnd.
     h' = h\<lparr>clients := filter (\<lambda>c. c \<notin> D) (clients h), rooms := without D (rooms h),
            heap := hp, rand := rnd\<rparr> \<and>
     (\<forall>c. ext1 is_left (if c \<in> D then closed_client (heap h c) else heap h c) (hp c)))"

lemma droppedI:
  assumes "h' = h\<lparr>clients := filter (\<lambda>c. c \<notin> D) (clients h), rooms := without D (rooms h),
            heap := hp, rand := rnd\<rparr>"
    and "\<And>c. ext1 is_left (if c \<in> D then closed_client (heap h c) else heap h c) (hp c)"
  shows "dropped D h h'"
  unfolding dropped_def using assms by blast

lemma set_without:
  "(n, r') \<in> set (without D rs) \<longleftrightarrow> members r' \<noteq> [] \<and>
     (\<exists>r. (n, r) \<in> set rs \<and> r' = r\<lparr>members := filter (\<lambda>c. c \<notin> D) (members r)\<rparr>)"
  by (force simp: without_def image_iff)

lemma rooms_ok_without: "rooms_ok rs \<Longrightarrow> rooms_ok (without D rs)"
proof -
  have "distinct (map fst rs) \<Longrightarrow> distinct (map fst (without D rs))"
    unfolding without_def by (rule distinct_map_filter) (simp add: comp_def case_prod_beta)
  then show "rooms_ok rs \<Longrightarrow> rooms_ok (without D rs)"
    unfolding rooms_ok_def by (fastforce simp: set_without)
qed

lemma without_empty: "rooms_ok rs \<Longrightarrow> without {} rs = rs"
  unfolding without_def rooms_ok_def by (auto simp: filter_id_conv case_prod_beta)

lemma without_without: "without D (without E rs) = without (E \<union> D) rs"
proof (induction rs)
  case Nil
  then show ?case by (simp add: without_def)
next
  case (Cons x rs)
  then show ?case by (cases x) (auto simp: without_def filter_empty_conv conj_commute)
qed

lemma purge_UNIV: "purge c UNIV rs = without {c} rs"
  by (simp add: purge_def without_def room_remove_def removeAll_filter_not_eq neq_commute)

lemma purge_all_names:
  assumes "set ns = fst ` set rs"
  shows "purge c (set ns) rs = without {c} rs"
  unfolding purge_UNIV [symmetric] using assms by (intro purge_cong) force

lemma ext1_mono: "ext1 P a b \<Longrightarrow> (\<And>e. P e \<Longrightarrow> Q e) \<Longrightarrow> ext1 Q a b"
  unfolding ext1_def list_all_iff by blast

lemma ext1_closed_client: "ext1 P a b \<Longrightarrow> ext1 P (closed_client a) (closed_client b)"
  unfolding ext1_def closed_client_def by (auto simp: chan_ok_def)

lemma closed_client_idem [simp]: "closed_client (closed_client a) = closed_client a"
  by (simp add: closed_client_def)

lemma dropped_refl: "rooms_ok (rooms h) \<Longrightarrow> dropped {} h h"
  unfolding dropped_def by (intro exI [of _ "heap h"] exI [of _ "rand h"]) (simp add: without_empty)

lemma dropped_trans:
  assumes "dropped D h h1" and "dropped E h1 h2"
  shows "dropped (D \<union> E) h h2"
proof -
  from assms(1) obtain hp1 rnd1 where 1:
    "h1 = h\<lparr>clients := filter (\<lambda>c. c \<notin> D) (clients h), rooms := without D (rooms h),
            heap := hp1, rand := rnd1\<rparr>"
    "\<And>c. ext1 is_left (if c \<in> D then closed_client (heap h c) else heap h c) (hp1 c)"
    unfolding dropped_def by blast
  from assms(2) obtain hp2 rnd2 where 2:
    "h2 = h1\<lparr>clients := filter (\<lambda>c. c \<notin> E) (clients h1), rooms := without E (rooms h1),
            heap := hp2, rand := rnd2\<rparr>"
    "\<And>c. ext1 is_left (if c \<in> E then closed_client (heap h1 c) else heap h1 c) (hp2 c)"
    unfolding dropped_def by blast
  have "ext1 is_left (if c \<in> D \<union> E then closed_client (heap h c) else heap h c) (hp2 c)" for c
    using 1(2) [of c] 2(2) [of c] ext1_closed_client [OF 1(2) [of c]] 1(1)
    by (auto split: if_splits intro: ext1_trans)
  moreover have "h2 = h\<lparr>clients := filter (\<lambda>c. c \<notin> D \<union> E) (clients h),
      rooms := without (D \<union> E) (rooms h), heap := hp2, rand := rnd2\<rparr>"
    using 1(1) 2(1) by (simp add: without_without conj_commute)
  ultimately show ?thesis unfolding dropped_def by blast
qed

lemma hub_inv_dropped:
  assumes "hub_inv h" and "dropped D h h'"
  shows "hub_inv h'"
proof -
  from assms(2) obtain hp rnd where h':
    "h' = h\<lparr>clients := filter (\<lambda>c. c \<notin> D) (clients h), rooms := without D (rooms h),
            heap := hp, rand := rnd\<rparr>"
    "\<And>c. ext1 is_left (if c \<in> D then closed_client (heap h c) else heap h c) (hp c)"
    unfolding dropped_def by blast
  have "\<not> chClosed (clSend (hp c)) \<and> chan_ok (clSend (hp c))" if "c \<in> set (clients h')" for c
    using that h'(2) [of c] hub_invD(4,5) [OF assms(1), of c] by (auto simp: h'(1) ext1_def)
  moreover have "set (members r) \<subseteq> set (clients h')" if "(n, r) \<in> set (rooms h')" for n r
    using that hub_invD(3) [OF assms(1)] by (fastforce simp: h'(1) set_without)
  ultimately show ?thesis
    using hub_invD(1,2,6,7) [OF assms(1)] rooms_ok_without [of "rooms h" D] unfolding hub_inv_def
    by (auto simp: h'(1))
qed

lemma close_send_open:
  "\<not> send_closed s c \<Longrightarrow>
     close_send c s = Inr (s\<lparr>heap := (heap s)(c := closed_client (heap s c))\<rparr>)"
  by (simp add: close_send_def chan_close_def set_send_def closed_client_def)

lemma disconnect_absent: "c \<notin> set (clients h) \<Longrightarrow> disconnect c h = Inr h"
  by (simp add: disconnect_def)

lemma disconnect_form:
  assumes "hub_inv h" and "c \<in> set (clients h)"
  shows "\<exists>hp rnd. disconnect c h = Inr (h\<lparr>clients := removeAll c (clients h),
      rooms := without {c} (rooms h), heap := hp(c := closed_client (heap h c)), rand := rnd\<rparr>) \<and>
    ext (left_frame (clName (heap h c))) (heap h) hp \<and>
    (\<forall>d. \<not> shares (rooms h) c d \<longrightarrow> hp d = heap h d)"
proof -
  let ?h = "h\<lparr>clients := removeAll c (clients h), rand := \<lambda>i. rand h (Suc i)\<rparr>"
  let ?ns = "shuffle (rand h 0) (map fst (rooms h))"
  have ok: "rooms_ok (rooms ?h)" "open_besides c (rooms ?h) (heap ?h)"
    using assms(1) by (auto simp: hub_inv_def intro: hub_inv_open_besides [unfolded hub_inv_def])
  from leave_rooms_open [OF ok, of ?ns] obtain hp rnd where l: "leave_rooms c ?ns ?h =
      Inr (?h\<lparr>rooms := purge c (set ?ns) (rooms ?h), heap := hp, rand := rnd\<rparr>)"
    "ext (left_frame (clName (heap ?h c))) (heap ?h) hp"
    "\<forall>d. \<not> shares (rooms ?h) c d \<longrightarrow> hp d = heap ?h d" by blast
  have "purge c (set ?ns) (rooms h) = without {c} (rooms h)"
    by (rule purge_all_names) simp
  moreover have "hp c = heap h c"
    using l(3) by (simp add: shares_def)
  ultimately have "disconnect c h = Inr (h\<lparr>clients := removeAll c (clients h),
      rooms := without {c} (rooms h), heap := hp(c := closed_client (heap h c)), rand := rnd\<rparr>)"
    using assms(2) l(1) hub_invD(4) [OF assms]
    by (simp add: disconnect_def Let_def draw_def close_send_open)
  then show ?thesis using l(2,3) by auto
qed

lemma disconnect_dropped:
  assumes "hub_inv h"
  shows "\<exists>h'. disconnect c h = Inr h' \<and> dropped ({c} \<inter> set (clients h)) h h'"
proof (cases "c \<in> set (clients h)")
  case False
  then show ?thesis
    using dropped_refl hub_invD(2) [OF assms] by (auto simp: disconnect_absent)
next
  case True
  obtain hp rnd where d: "disconnect c h = Inr (h\<lparr>clients := removeAll c (clients h),
      rooms := without {c} (rooms h), heap := hp(c := closed_client (heap h c)), rand := rnd\<rparr>)"
    "ext (left_frame (clName (heap h c))) (heap h) hp"
    using disconnect_form [OF assms True] by blast
  have "dropped {c} h (h\<lparr>clients := removeAll c (clients h),
      rooms := without {c} (rooms h), heap := hp(c := closed_client (heap h c)), rand := rnd\<rparr>)"
  proof (rule droppedI [where hp = "hp(c := closed_client (heap h c))" and rnd = rnd])
    show "ext1 is_left (if d \<in> {c} then closed_client (heap h d) else heap h d)
        ((hp(c := closed_client (heap h c))) d)" for d
      using d(2) ext1_mono [of "left_frame (clName (heap h c))" "heap h d" "hp d" is_left]
      by (auto simp: ext_def is_left_def)
  qed (simp add: removeAll_filter_not_eq neq_commute)
  with d(1) True show ?thesis by simp
qed

lemma disconnect_each_dropped:
  assumes "hub_inv h"
  shows "\<exists>h'. disconnect_each cs h = Inr h' \<and> dropped (set cs \<inter> set (clients h)) h h'"
  using assms
proof (induction cs arbitrary: h)
  case Nil
  then show ?case using dropped_refl hub_invD(2) [OF Nil.prems] by simp
next
  case (Cons c cs)
  obtain h1 where 1: "disconnect c h = Inr h1" "dropped ({c} \<inter> set (clients h)) h h1"
    using disconnect_dropped [OF Cons.prems] by blast
  obtain h2 where 2: "disconnect_each cs h1 = Inr h2" "dropped (set cs \<inter> set (clients h1)) h1 h2"
    using Cons.IH [OF hub_inv_dropped [OF Cons.prems 1(2)]] by blast
  have "clients h1 = filter (\<lambda>d. d \<notin> {c} \<inter> set (clients h)) (clients h)"
    using 1(2) by (auto simp: dropped_def)
  then have "({c} \<inter> set (clients h)) \<union> (set cs \<inter> set (clients h1)) = set (c # cs) \<inter> set (clients h)"
    by auto
  with dropped_trans [OF 1(2) 2(2)] 1(1) 2(1) show ?case by simp
qed

subsection \<open>Message delivery\<close>

definition slow_members :: "room \<Rightarrow> cid \<Rightarrow> 'a mem_scheme \<Rightarrow> cid set" where
  "slow_members r except s = {c \<in> set (members r). c \<noteq> except \<and> \<not> has_room s c}"

lemma deliver_each_open:
  "distinct cs \<Longrightarrow> \<forall>c \<in> set cs. \<not> send_closed s c \<Longrightarrow>
     deliver_each cs e x s = Inr (filter (\<lambda>c. c \<noteq> x \<and> \<not> has_room s c) cs,
       s\<lparr>heap := push_all (set cs - {x}) e (heap s)\<rparr>)"
proof (induction cs arbitrary: s)
  case Nil
  then show ?case by simp
next
  case (Cons c cs)
  show ?case
  proof (cases "c = x")
    case True
    then show ?thesis using Cons.IH [of s] Cons.prems by simp
  next
    case False
    let ?s = "s\<lparr>heap := (heap s)(c := push e (heap s c))\<rparr>"
    have "push_all (set cs - {x}) e (heap ?s) = push_all (set (c # cs) - {x}) e (heap s)"
      using Cons.prems(1) False by (auto simp: push_all_def)
    moreover have "filter (\<lambda>d. d \<noteq> x \<and> \<not> has_room ?s d) cs = filter (\<lambda>d. d \<noteq> x \<and> \<not> has_room s d) cs"
      using Cons.prems(1) by (intro filter_cong) auto
    moreover have "\<forall>d \<in> set cs. \<not> send_closed ?s d"
      using Cons.prems(2) by simp
    ultimately show ?thesis
      using Cons.IH [of ?s] Cons.prems False by (simp add: enqueue_open del: fun_upd_apply)
  qed
qed

lemma hub_inv_heap:
  assumes "hub_inv h" and "ext P (heap h) hp"
  shows "hub_inv (h\<lparr>heap := hp, rand := rnd\<rparr>)"
  using assms(1) extD(4,5) [OF assms(2)] unfolding hub_inv_def by simp

lemma hub_inv_push_all:
  "hub_inv h \<Longrightarrow> hub_inv (h\<lparr>heap := push_all A e (heap h), rand := rnd\<rparr>)"
  by (rule hub_inv_heap [of _ "\<lambda>_. True"]) (simp_all add: ext_push_all)

lemma hub_inv_room:
  assumes "hub_inv h" and "map_of (rooms h) n = Some r"
  shows "distinct (members r)" "set (members r) \<subseteq> set (clients h)"
    "\<forall>c \<in> set (members r). \<not> send_closed h c" "rName r = n" "members r \<noteq> []"
proof -
  have mem: "(n, r) \<in> set (rooms h)" using assms(2) by (rule map_of_SomeD)
  show "set (members r) \<subseteq> set (clients h)" using hub_invD(3) [OF assms(1) mem] .
  then show "\<forall>c \<in> set (members r). \<not> send_closed h c" using hub_invD(4) [OF assms(1)] by blast
  show "distinct (members r)" "rName r = n" "members r \<noteq> []"
    using rooms_okD [OF hub_invD(2) [OF assms(1)] assms(2)] by blast+
qed

lemma deliverMessage_dropped:
  assumes "hub_inv h" and "map_of (rooms h) n = Some r"
  shows "\<exists>h' rnd. deliverMessage r e x h = Inr h' \<and>
    dropped (slow_members r x h) (h\<lparr>heap := push_all (set (members r) - {x}) e (heap h), rand := rnd\<rparr>) h'"
proof -
  let ?cs = "shuffle (rand h 0) (members r)" and ?rnd = "\<lambda>i. rand h (Suc i)"
  let ?slow = "filter (\<lambda>c. c \<noteq> x \<and> \<not> has_room h c) ?cs"
  let ?h = "h\<lparr>heap := push_all (set (members r) - {x}) e (heap h), rand := ?rnd\<rparr>"
  have inv: "hub_inv ?h"
    by (rule hub_inv_push_all [OF assms(1)])
  obtain h' where h': "disconnect_each ?slow ?h = Inr h'"
    "dropped (set ?slow \<inter> set (clients ?h)) ?h h'"
    using disconnect_each_dropped [OF inv] by blast
  have "set ?slow \<inter> set (clients ?h) = slow_members r x h"
    using hub_inv_room(2) [OF assms] by (auto simp: slow_members_def)
  moreover have "deliverMessage r e x h = disconnect_each ?slow ?h"
    using hub_inv_room(1,3) [OF assms] by (simp add: deliverMessage_def draw_def deliver_each_open)
  ultimately show ?thesis using h' by auto
qed

end
