(* ===== verification/Hub_Safe.thy ===== *)
theory Hub_Safe
  imports Hub_Inv
begin

text \<open>
  What each event of the actor loop does from a state in the invariant: a closed form per
  operation, the preservation of the invariant, and the absence of panics. The one
  obligation on the environment is \<open>ev_ok\<close>: a client registers with an open queue, and a
  join comes from a client that is still registered.
\<close>

definition ev_ok :: "event \<Rightarrow> 'a hub_scheme \<Rightarrow> bool" where
  "ev_ok ev h = (case ev of
       EvRegister c \<Rightarrow> \<not> send_closed h c \<and> chan_ok (clSend (heap h c))
     | EvInbound cmd _ _ \<Rightarrow> cmdKind cmd = TypeJoin \<longrightarrow> cmdClient cmd \<in> set (clients h)
     | _ \<Rightarrow> True)"

section \<open>Closed forms\<close>

definition room_or_new :: "string \<Rightarrow> 'a hub_scheme \<Rightarrow> room" where
  "room_or_new n h = (case map_of (rooms h) n of None \<Rightarrow> newRoom n | Some r \<Rightarrow> r)"

lemma room_or_new_ok:
  assumes "hub_inv h"
  shows "rName (room_or_new n h) = n" "distinct (members (room_or_new n h))"
    "set (members (room_or_new n h)) \<subseteq> set (clients h)"
  using hub_inv_room(1,2,4) [OF assms, of n] by (auto simp: room_or_new_def split: option.split)

lemma rooms_ok_update:
  assumes "rooms_ok rs" and "rName r = n" and "distinct (members r)" and "members r \<noteq> []"
  shows "rooms_ok (AList.update n r rs)"
proof -
  have "k = n \<and> q = r \<or> (k, q) \<in> set rs" if "(k, q) \<in> set (AList.update n r rs)" for k q
    using that by (induction rs) (auto split: if_splits)
  then show ?thesis
    using assms unfolding rooms_ok_def by (fastforce simp: distinct_update)
qed

lemma join_form:
  assumes "hub_inv h" and "cmdClient cmd \<in> set (clients h)"
  defines "r' \<equiv> room_add (cmdClient cmd) (room_or_new (cmdRoom cmd) h)"
  shows "join cmd h = Inr (h\<lparr>rooms := AList.update (cmdRoom cmd) r' (rooms h),
    heap := push_all (set (members r')) (presence_frame (cmdRoom cmd)
              (clName (heap h (cmdClient cmd))) True (names_in h r')) (heap h),
    rand := \<lambda>i. rand h (Suc (Suc i))\<rparr>)"
proof -
  have "\<forall>c \<in> set (members r'). \<not> send_closed h c" "distinct (members r')" "rName r' = cmdRoom cmd"
    using room_or_new_ok [OF assms(1), of "cmdRoom cmd"] hub_invD(4) [OF assms(1)] assms(2)
    by (auto simp: r'_def)
  then show ?thesis
    by (simp add: join_def Let_def broadcastPresence_open names_in_def
        flip: room_or_new_def r'_def)
qed

lemma join_inv:
  assumes "hub_inv h" and "cmdClient cmd \<in> set (clients h)"
  shows "\<exists>h'. join cmd h = Inr h' \<and> hub_inv h'"
proof -
  let ?r = "room_add (cmdClient cmd) (room_or_new (cmdRoom cmd) h)"
  let ?rs = "AList.update (cmdRoom cmd) ?r (rooms h)"
  have "members ?r \<noteq> []"
    by (metis insertI1 list.set(1) room_simps(4) empty_iff)
  then have ok: "rooms_ok ?rs"
    using rooms_ok_update [OF hub_invD(2) [OF assms(1)], of ?r "cmdRoom cmd"]
      room_or_new_ok [OF assms(1)] by simp
  have "set (members q) \<subseteq> set (clients h)" if "(k, q) \<in> set ?rs" for k q
  proof -
    have "map_of ?rs k = Some q"
      using that ok by (simp add: rooms_ok_def)
    then show ?thesis
      using room_or_new_ok(3) [OF assms(1), of "cmdRoom cmd"] assms hub_inv_room(2) [OF assms(1)]
      by (auto simp: update_conv' split: if_splits)
  qed
  then have "hub_inv (h\<lparr>rooms := ?rs\<rparr>)"
    using assms(1) ok unfolding hub_inv_def by auto
  from hub_inv_push_all [OF this] show ?thesis
    unfolding join_form [OF assms] by simp
qed

lemma leave_form:
  assumes "hub_inv h" and "map_of (rooms h) (cmdRoom cmd) = Some r"
  defines "r' \<equiv> room_remove (cmdClient cmd) r"
  shows "\<exists>ns. leave cmd h = Inr (h\<lparr>rooms := purge (cmdClient cmd) {cmdRoom cmd} (rooms h),
    heap := push_all (set (members r')) (presence_frame (cmdRoom cmd)
              (clName (heap h (cmdClient cmd))) False ns) (heap h),
    rand := \<lambda>i. rand h (Suc (Suc i))\<rparr>) \<and>
    mset ns = image_mset (\<lambda>c. clName (heap h c)) (mset (members r'))"
proof -
  have r: "\<forall>c \<in> set (members r'). \<not> send_closed h c" "distinct (members r')" "rName r = cmdRoom cmd"
    using hub_inv_room [OF assms(1,2)] by (auto simp: r'_def)
  let ?h = "h\<lparr>rooms := AList.update (cmdRoom cmd) r' (rooms h)\<rparr>"
  have "broadcastPresence r' (clName (heap h (cmdClient cmd))) False ?h =
    Inr (?h\<lparr>heap := push_all (set (members r')) (presence_frame (cmdRoom cmd)
          (clName (heap h (cmdClient cmd))) False (names_in ?h r')) (heap h),
        rand := \<lambda>i. rand h (Suc (Suc i))\<rparr>)"
    using r by (simp add: broadcastPresence_open r'_def)
  then have "leave cmd h = Inr (h\<lparr>rooms := purge (cmdClient cmd) {cmdRoom cmd} (rooms h),
    heap := push_all (set (members r')) (presence_frame (cmdRoom cmd)
              (clName (heap h (cmdClient cmd))) False (names_in ?h r')) (heap h),
    rand := \<lambda>i. rand h (Suc (Suc i))\<rparr>)"
    using update_delete_purge [OF hub_invD(2) [OF assms(1)] assms(2), of "cmdClient cmd"] assms(2) r(3)
    by (simp add: leave_def Let_def flip: r'_def) (simp add: r'_def split: if_splits)
  then show ?thesis using mset_names_in [of ?h r'] by auto
qed

lemma leave_absent: "map_of (rooms h) (cmdRoom cmd) = None \<Longrightarrow> leave cmd h = Inr h"
  by (simp add: leave_def)

lemma leave_inv:
  assumes "hub_inv h"
  shows "\<exists>h'. leave cmd h = Inr h' \<and> hub_inv h'"
proof (cases "map_of (rooms h) (cmdRoom cmd)")
  case None
  then show ?thesis using assms by (simp add: leave_absent)
next
  case (Some r)
  let ?rs = "purge (cmdClient cmd) {cmdRoom cmd} (rooms h)"
  have "set (members q) \<subseteq> set (clients h)" if "(k, q) \<in> set ?rs" for k q
    using that hub_invD(3) [OF assms] by (fastforce simp: set_purge split: if_splits)
  then have "hub_inv (h\<lparr>rooms := ?rs\<rparr>)"
    using assms rooms_ok_purge [OF hub_invD(2) [OF assms]] unfolding hub_inv_def by auto
  from hub_inv_push_all [OF this] show ?thesis
    using leave_form [OF assms Some] by auto
qed


subsection \<open>Broadcasting\<close>

definition handed :: "bool \<Rightarrow> Message \<Rightarrow> Message chan \<Rightarrow> Message chan \<Rightarrow> bool" where
  "handed ctxDone m p p' \<longleftrightarrow>
     (if chan_room p
      then p' = p\<lparr>chBuf := chBuf p @ [m]\<rparr> \<or> (ctxDone \<and> p' = p)
      else p' = p)"

lemma handoff_open:
  "\<not> chClosed (persist h) \<Longrightarrow>
    \<exists>p rnd. handoff ctxDone m h = Inr (h\<lparr>persist := p, rand := rnd\<rparr>) \<and> handed ctxDone m (persist h) p"
proof -
  assume open_p: "\<not> chClosed (persist h)"
  have same: "h = h\<lparr>persist := persist h, rand := rand h\<rparr>" "h = h\<lparr>rand := rand h\<rparr>"
    "snd (draw h) = h\<lparr>persist := persist h, rand := \<lambda>i. rand h (Suc i)\<rparr>"
    by (simp_all add: draw_def)
  show ?thesis
  proof (cases "chan_room (persist h) \<and> even (fst (if ctxDone then draw h else (0, h)))")
    case True
    then have "handoff ctxDone m h = Inr (h\<lparr>persist := (persist h)\<lparr>chBuf := chBuf (persist h) @ [m]\<rparr>,
        rand := (if ctxDone then \<lambda>i. rand h (Suc i) else rand h)\<rparr>)"
      using open_p by (auto simp: handoff_def chan_offer_open draw_def)
    moreover have "handed ctxDone m (persist h) ((persist h)\<lparr>chBuf := chBuf (persist h) @ [m]\<rparr>)"
      using True by (simp add: handed_def)
    ultimately show ?thesis by blast
  next
    case False
    then have "handoff ctxDone m h = Inr (h\<lparr>persist := persist h,
        rand := (if ctxDone \<and> chan_room (persist h) then \<lambda>i. rand h (Suc i) else rand h)\<rparr>)"
      using open_p same by (auto simp: handoff_def draw_def split: if_splits)
    moreover have "handed ctxDone m (persist h) (persist h)"
      using False by (auto simp: handed_def split: if_splits)
    ultimately show ?thesis by blast
  qed
qed

lemma handed_ok: "handed b m p p' \<Longrightarrow> chan_ok p \<Longrightarrow> chan_ok p'"
  "handed b m p p' \<Longrightarrow> chClosed p' = chClosed p" "handed b m p p' \<Longrightarrow> chCap p' = chCap p"
  by (auto simp: handed_def chan_ok_def chan_room_def split: if_splits)

lemma broadcast_form:
  fixes now :: gotime
  assumes "hub_inv h" and "map_of (rooms h) (cmdRoom cmd) = Some r"
  defines "m \<equiv> message_of cmd now h"
  shows "\<exists>h1 p rnd0 rnd. broadcast ctxDone now cmd h = Inr (h1\<lparr>persist := p, rand := rnd\<rparr>) \<and>
    dropped (slow_members r (cmdClient cmd) h)
      (h\<lparr>messagesTotal := messagesTotal h + 1,
         heap := push_all (set (members r) - {cmdClient cmd}) (message_frame (cmdRoom cmd) m) (heap h),
         rand := rnd0\<rparr>) h1 \<and>
    handed ctxDone m (persist h) p"
proof -
  let ?h = "h\<lparr>messagesTotal := messagesTotal h + 1\<rparr>" and ?c = "cmdClient cmd"
  have inv: "hub_inv ?h"
    using assms(1) by (simp add: hub_inv_def)
  have r: "map_of (rooms ?h) (cmdRoom cmd) = Some r"
    using assms(2) by simp
  obtain h1 rnd0 where d: "deliverMessage r (message_frame (cmdRoom cmd) m) ?c ?h = Inr h1"
    "dropped (slow_members r ?c ?h) (?h\<lparr>heap := push_all (set (members r) - {?c})
       (message_frame (cmdRoom cmd) m) (heap ?h), rand := rnd0\<rparr>) h1"
    using deliverMessage_dropped [OF inv r] by blast
  have p: "persist h1 = persist h"
    using d(2) by (auto simp: dropped_def)
  obtain p rnd where "handoff ctxDone m h1 = Inr (h1\<lparr>persist := p, rand := rnd\<rparr>)"
    "handed ctxDone m (persist h1) p"
    using handoff_open [of h1 ctxDone m] hub_invD(6) [OF assms(1)] p by auto
  moreover have "message_of cmd now ?h = m"
    by (simp add: m_def message_of_def)
  ultimately show ?thesis
    using d p assms(2) by (auto simp: broadcast_def Let_def slow_members_def)
qed

lemma broadcast_absent: "map_of (rooms h) (cmdRoom cmd) = None \<Longrightarrow> broadcast b now cmd h = Inr h"
  by (simp add: broadcast_def)

lemma broadcast_inv:
  assumes "hub_inv h"
  shows "\<exists>h'. broadcast ctxDone now cmd h = Inr h' \<and> hub_inv h'"
proof (cases "map_of (rooms h) (cmdRoom cmd)")
  case None
  then show ?thesis using assms by (simp add: broadcast_absent)
next
  case (Some r)
  from broadcast_form [OF assms Some] obtain h1 p rnd0 rnd where
    b: "broadcast ctxDone now cmd h = Inr (h1\<lparr>persist := p, rand := rnd\<rparr>)"
    "dropped (slow_members r (cmdClient cmd) h) (h\<lparr>messagesTotal := messagesTotal h + 1,
       heap := push_all (set (members r) - {cmdClient cmd})
         (message_frame (cmdRoom cmd) (message_of cmd now h)) (heap h), rand := rnd0\<rparr>) h1"
    "handed ctxDone (message_of cmd now h) (persist h) p" by blast
  have "hub_inv (h\<lparr>messagesTotal := messagesTotal h + 1\<rparr>)"
    using assms by (simp add: hub_inv_def)
  then have "hub_inv h1"
    using hub_inv_dropped [OF _ b(2)] hub_inv_push_all by fastforce
  moreover have "persist h1 = persist h"
    using b(2) by (auto simp: dropped_def)
  ultimately have "hub_inv (h1\<lparr>persist := p, rand := rnd\<rparr>)"
    using handed_ok [OF b(3)] by (simp add: hub_inv_def)
  then show ?thesis using b(1) by blast
qed

section \<open>Events\<close>

lemma handle_inv:
  assumes "hub_inv h" and "cmdKind cmd = TypeJoin \<Longrightarrow> cmdClient cmd \<in> set (clients h)"
  shows "\<exists>h'. handle ctxDone now cmd h = Inr h' \<and> hub_inv h'"
  using join_inv [OF assms(1)] leave_inv [OF assms(1)] broadcast_inv [OF assms(1)] assms
  by (auto simp: handle_def)

lemma hub_inv_register:
  "hub_inv h \<Longrightarrow> \<not> send_closed h c \<Longrightarrow> chan_ok (clSend (heap h c)) \<Longrightarrow>
     hub_inv (h\<lparr>clients := List.insert c (clients h)\<rparr>)"
  unfolding hub_inv_def by (auto simp: distinct_insert)

lemma hub_inv_other [simp]:
  "hub_inv (h\<lparr>rand := rnd\<rparr>) = hub_inv h"
  "hub_inv (h\<lparr>messageRate := a\<rparr>) = hub_inv h"
  "hub_inv (h\<lparr>messageRate := a, lastSampledTotal := b\<rparr>) = hub_inv h"
  "hub_inv (h\<lparr>hubDone := d\<rparr>) = hub_inv h"
  by (simp_all add: hub_inv_def)

lemma run_step_inv:
  assumes "hub_inv h" and "ev_ok ev h"
  shows "\<exists>st h'. run_step ev h = Inr (st, h') \<and> hub_inv h'"
proof (cases ev)
  case (EvRegister c)
  then show ?thesis using assms hub_inv_register by (auto simp: ev_ok_def)
next
  case (EvUnregister c)
  obtain h' where "disconnect c h = Inr h'" "dropped ({c} \<inter> set (clients h)) h h'"
    using disconnect_dropped [OF assms(1)] by blast
  then show ?thesis using hub_inv_dropped [OF assms(1)] EvUnregister by auto
next
  case (EvInbound cmd now b)
  then show ?thesis using handle_inv [OF assms(1), of cmd b now] assms(2) by (auto simp: ev_ok_def)
next
  case EvQuery
  then show ?thesis using assms(1) by (simp add: snapshot_def draw_def)
next
  case EvTick
  then show ?thesis using assms(1) by simp
next
  case EvDone
  then show ?thesis using assms(1) by simp
qed

text \<open>The obligations of a whole execution, each checked in the state its event finds.\<close>

fun evs_ok :: "event list \<Rightarrow> 'a hub_scheme \<Rightarrow> bool" where
  "evs_ok [] h = True"
| "evs_ok (ev # evs) h = (ev_ok ev h \<and>
     (case run_step ev h of Inl _ \<Rightarrow> True
      | Inr (_, h') \<Rightarrow> ev = EvDone \<or> evs_ok evs h'))"

lemma Run_inv:
  "hub_inv h \<Longrightarrow> evs_ok evs h \<Longrightarrow> \<exists>h'. Run evs h = Inr h' \<and> hub_inv h'"
proof (induction evs arbitrary: h)
  case Nil
  then show ?case by simp
next
  case (Cons ev evs)
  obtain st h1 where "run_step ev h = Inr (st, h1)" "hub_inv h1"
    using run_step_inv [of h ev] Cons.prems by auto
  then show ?case using Cons.IH [of h1] Cons.prems(2) by (cases "ev = EvDone") auto
qed

section \<open>A join after the disconnect\<close>

lemma enqueue_each_panics:
  "distinct cs \<Longrightarrow> c \<in> set cs \<Longrightarrow> send_closed s c \<Longrightarrow> \<forall>d \<in> set cs - {c}. \<not> send_closed s d \<Longrightarrow>
     enqueue_each cs e s = Inl (SendOnClosed (Some c))"
proof (induction cs arbitrary: s)
  case Nil
  then show ?case by simp
next
  case (Cons d cs)
  show ?case
  proof (cases "d = c")
    case True
    then show ?thesis using Cons.prems(3) by (simp add: enqueue_closed)
  next
    case False
    let ?s = "s\<lparr>heap := (heap s)(d := push e (heap s d))\<rparr>"
    have "enqueue_each cs e ?s = Inl (SendOnClosed (Some c))"
      using Cons.prems False by (intro Cons.IH) auto
    then show ?thesis
      using Cons.prems False by (simp add: enqueue_open del: fun_upd_apply)
  qed
qed

lemma join_closed_panics:
  assumes "hub_inv h" and "send_closed h (cmdClient cmd)"
  shows "join cmd h = Inl (SendOnClosed (Some (cmdClient cmd)))"
proof -
  let ?c = "cmdClient cmd"
  let ?r = "room_add ?c (room_or_new (cmdRoom cmd) h)"
  have "distinct (members ?r)" "\<forall>d \<in> set (members ?r) - {?c}. \<not> send_closed h d"
    using room_or_new_ok [OF assms(1), of "cmdRoom cmd"] hub_invD(4) [OF assms(1)] by auto
  then show ?thesis
    using assms(2) by (simp add: join_def Let_def broadcastPresence_def room_names_def draw_def
        enqueue_each_panics flip: room_or_new_def)
qed

section \<open>What a step leaves alone\<close>

text \<open>A step leaves alone whatever is outside the hub.\<close>

lemma dropped_frame:
  "dropped D h h' \<Longrightarrow> hub.more h' = hub.more h \<and> hubDone h' = hubDone h"
  by (auto simp: dropped_def)

lemma handle_frame:
  assumes "hub_inv h" and "ev_ok (EvInbound cmd now b) h" and "handle b now cmd h = Inr h'"
  shows "hub.more h' = hub.more h \<and> hubDone h' = hubDone h"
proof -
  consider (j) "cmdKind cmd = TypeJoin" | (l) "cmdKind cmd = TypeLeave" | (m) "cmdKind cmd = TypeMessage"
    | (u) "cmdKind cmd \<noteq> TypeJoin" "cmdKind cmd \<noteq> TypeLeave" "cmdKind cmd \<noteq> TypeMessage" by blast
  then show ?thesis
  proof cases
    case j
    then have "cmdClient cmd \<in> set (clients h)" using assms(2) by (simp add: ev_ok_def)
    from join_form [OF assms(1) this] assms(3) j show ?thesis by (auto simp: handle_def)
  next
    case l
    then show ?thesis
      using leave_form [OF assms(1), of cmd] leave_absent [of h cmd] assms(3)
      by (cases "map_of (rooms h) (cmdRoom cmd)") (auto simp: handle_def)
  next
    case m
    show ?thesis
    proof (cases "map_of (rooms h) (cmdRoom cmd)")
      case None
      then show ?thesis using assms(3) m by (simp add: handle_def broadcast_absent)
    next
      case (Some r)
      from broadcast_form [OF assms(1) Some, where ctxDone = b and now = now] assms(3) m
      obtain h1 p rnd hp rnd0 D where "h' = h1\<lparr>persist := p, rand := rnd\<rparr>"
        "dropped D (h\<lparr>messagesTotal := messagesTotal h + 1, heap := hp, rand := rnd0\<rparr>) h1"
        by (auto simp: handle_def)
      then show ?thesis using dropped_frame [of D _ h1] by fastforce
    qed
  next
    case u
    then show ?thesis using assms(3) by (simp add: handle_def)
  qed
qed

lemma run_step_more:
  assumes "hub_inv h" and "ev_ok ev h" and "run_step ev h = Inr (st, h')"
  shows "hub.more h' = hub.more h \<and> hubDone h' = (hubDone h \<or> ev = EvDone)"
proof (cases ev)
  case (EvUnregister c)
  then show ?thesis
    using disconnect_dropped [OF assms(1), of c] assms(3) dropped_frame by fastforce
next
  case (EvInbound cmd now b)
  then show ?thesis using handle_frame [OF assms(1)] assms(2,3) by auto
qed (use assms(3) in \<open>auto simp: snapshot_def draw_def\<close>)

text \<open>
  What a step does to the struct of any client: frames may be added at the end of its queue,
  and the queue is closed exactly when the step disconnects the client.
\<close>

definition client_kept :: "'a hub_scheme \<Rightarrow> 'a hub_scheme \<Rightarrow> cid \<Rightarrow> bool" where
  "client_kept h h' c \<longleftrightarrow> ext1 (\<lambda>_. True)
     (if c \<in> set (clients h) \<and> c \<notin> set (clients h') then closed_client (heap h c) else heap h c)
     (heap h' c)"

lemma client_kept_dropped:
  assumes "dropped D h0 h'" and "clients h0 = clients h" and "D \<subseteq> set (clients h)"
    and "\<And>c. ext1 (\<lambda>_. True) (heap h c) (heap h0 c)"
  shows "client_kept h h' c"
proof -
  obtain hp rnd where h': "h' = h0\<lparr>clients := filter (\<lambda>c. c \<notin> D) (clients h0),
      rooms := without D (rooms h0), heap := hp, rand := rnd\<rparr>"
    and e: "ext1 is_left (if c \<in> D then closed_client (heap h0 c) else heap h0 c) (hp c)"
    using assms(1) unfolding dropped_def by blast
  have "ext1 (\<lambda>_. True) (if c \<in> D then closed_client (heap h c) else heap h c)
      (if c \<in> D then closed_client (heap h0 c) else heap h0 c)"
    using assms(4) ext1_closed_client by simp
  from ext1_trans [OF this ext1_mono [OF e]]
  have "ext1 (\<lambda>_. True) (if c \<in> D then closed_client (heap h c) else heap h c) (heap h' c)"
    by (simp add: h')
  moreover have "c \<in> set (clients h) \<and> c \<notin> set (clients h') \<longleftrightarrow> c \<in> D"
    using assms(2,3) by (auto simp: h')
  ultimately show ?thesis by (simp add: client_kept_def)
qed

lemma client_kept_same:
  "clients h' = clients h \<Longrightarrow> ext1 (\<lambda>_. True) (heap h c) (heap h' c) \<Longrightarrow> client_kept h h' c"
  by (simp add: client_kept_def)

lemma ext1_push_all: "ext1 (\<lambda>_. True) (hp c) (push_all A e hp c)"
  by (simp add: push_all_def ext1_push)

lemma run_step_client:
  assumes "hub_inv h" and "ev_ok ev h" and "run_step ev h = Inr (st, h')"
  shows "client_kept h h' c"
proof (cases ev)
  case (EvRegister d)
  then show ?thesis using assms(3) by (auto simp: client_kept_def)
next
  case (EvUnregister d)
  then have "dropped ({d} \<inter> set (clients h)) h h'"
    using disconnect_dropped [OF assms(1), of d] assms(3) by auto
  then show ?thesis by (rule client_kept_dropped) auto
next
  case (EvInbound cmd now b)
  with assms(3) have h': "handle b now cmd h = Inr h'" by auto
  consider (j) "cmdKind cmd = TypeJoin" | (l) "cmdKind cmd = TypeLeave" | (m) "cmdKind cmd = TypeMessage"
    | (u) "cmdKind cmd \<noteq> TypeJoin" "cmdKind cmd \<noteq> TypeLeave" "cmdKind cmd \<noteq> TypeMessage" by blast
  then show ?thesis
  proof cases
    case j
    then have "cmdClient cmd \<in> set (clients h)" using assms(2) EvInbound by (simp add: ev_ok_def)
    from join_form [OF assms(1) this] h' j show ?thesis
      by (auto simp: handle_def intro!: client_kept_same ext1_push_all)
  next
    case l
    then show ?thesis
      using leave_form [OF assms(1), of cmd] leave_absent [of h cmd] h'
      by (cases "map_of (rooms h) (cmdRoom cmd)")
        (auto simp: handle_def intro!: client_kept_same ext1_push_all)
  next
    case m
    show ?thesis
    proof (cases "map_of (rooms h) (cmdRoom cmd)")
      case None
      then show ?thesis using h' m by (auto simp: handle_def broadcast_absent intro: client_kept_same)
    next
      case (Some r)
      from broadcast_form [OF assms(1) Some, where ctxDone = b and now = now] h' m
      obtain h1 p rnd rnd0 where 1: "h' = h1\<lparr>persist := p, rand := rnd\<rparr>"
        "dropped (slow_members r (cmdClient cmd) h)
          (h\<lparr>messagesTotal := messagesTotal h + 1, heap := push_all (set (members r) - {cmdClient cmd})
             (message_frame (cmdRoom cmd) (message_of cmd now h)) (heap h), rand := rnd0\<rparr>) h1"
        by (auto simp: handle_def)
      have "slow_members r (cmdClient cmd) h \<subseteq> set (clients h)"
        using hub_inv_room(2) [OF assms(1) Some] by (auto simp: slow_members_def)
      from client_kept_dropped [OF 1(2) _ this] have "client_kept h h1 c"
        by (simp add: ext1_push_all)
      then show ?thesis unfolding 1(1) by (simp add: client_kept_def)
    qed
  next
    case u
    then show ?thesis using h' by (auto simp: handle_def intro: client_kept_same)
  qed
qed (use assms(3) in \<open>auto simp: snapshot_def draw_def intro!: client_kept_same\<close>)

end
