(* ===== verification/Hub_Spec.thy ===== *)
theory Hub_Spec
  imports Hub_Safe
begin

text \<open>
  What the hub promises, stated without queues and loops: who is connected and who is in
  which room, and how each event changes that. \<open>chat_of\<close> abstracts the actor's state;
  \<open>step_refines\<close> says that every event of the actor loop does to the abstraction exactly what
  the specification says. The second part describes what each event puts into each
  client's queue, the third lifts both to whole executions.
\<close>

section \<open>The abstract chat\<close>

record chat =
  connected :: "cid set"
  membership :: "(string \<times> cid) set"

definition mem_of :: "(string \<times> room) list \<Rightarrow> (string \<times> cid) set" where
  "mem_of rs = {(n, c). \<exists>r. (n, r) \<in> set rs \<and> c \<in> set (members r)}"

definition chat_of :: "'a hub_scheme \<Rightarrow> chat" where
  "chat_of h = \<lparr>connected = set (clients h), membership = mem_of (rooms h)\<rparr>"

definition kick :: "cid set \<Rightarrow> chat \<Rightarrow> chat" where
  "kick D a = \<lparr>connected = connected a - D, membership = {(n, c) \<in> membership a. c \<notin> D}\<rparr>"

fun spec_step :: "event \<Rightarrow> cid set \<Rightarrow> chat \<Rightarrow> chat" where
  "spec_step (EvRegister c) slow a = a\<lparr>connected := insert c (connected a)\<rparr>"
| "spec_step (EvUnregister c) slow a = kick {c} a"
| "spec_step (EvInbound cmd now b) slow a =
     (if cmdKind cmd = TypeJoin
      then a\<lparr>membership := insert (cmdRoom cmd, cmdClient cmd) (membership a)\<rparr>
      else if cmdKind cmd = TypeLeave
      then a\<lparr>membership := membership a - {(cmdRoom cmd, cmdClient cmd)}\<rparr>
      else if cmdKind cmd = TypeMessage then kick slow a
      else a)"
| "spec_step EvQuery slow a = a"
| "spec_step EvTick slow a = a"
| "spec_step EvDone slow a = a"

text \<open>The clients an event finds too slow: the other members of the room with a full queue.\<close>

definition slow_of :: "event \<Rightarrow> 'a hub_scheme \<Rightarrow> cid set" where
  "slow_of ev h = (case ev of
       EvInbound cmd now b \<Rightarrow>
         (if cmdKind cmd = TypeMessage
          then (case map_of (rooms h) (cmdRoom cmd) of
                  None \<Rightarrow> {} | Some r \<Rightarrow> slow_members r (cmdClient cmd) h)
          else {})
     | _ \<Rightarrow> {})"

subsection \<open>Membership through the map operations\<close>

lemma mem_of_iff: "rooms_ok rs \<Longrightarrow> (n, c) \<in> mem_of rs \<longleftrightarrow> (\<exists>r. map_of rs n = Some r \<and> c \<in> set (members r))"
  by (auto simp: mem_of_def rooms_ok_def)

lemma mem_of_without: "mem_of (without D rs) = {(n, c) \<in> mem_of rs. c \<notin> D}"
  unfolding mem_of_def set_without by (force simp: filter_empty_conv)

lemma mem_of_purge: "mem_of (purge c S rs) = mem_of rs - (S \<times> {c})"
proof -
  have "(n, d) \<in> mem_of (purge c S rs) \<longleftrightarrow>
      (\<exists>r. (n, r) \<in> set rs \<and> d \<in> set (members (if n \<in> S then room_remove c r else r)))" for n d
  proof -
    have "x \<in> set xs \<Longrightarrow> xs \<noteq> []" for x :: cid and xs by auto
    then show ?thesis unfolding mem_of_def set_purge mem_Collect_eq prod.case by blast
  qed
  then have "(n, d) \<in> mem_of (purge c S rs) \<longleftrightarrow> (n, d) \<in> mem_of rs - (S \<times> {c})" for n d
    by (cases "n \<in> S") (auto simp: mem_of_def)
  then show ?thesis by auto
qed

lemma mem_of_join:
  assumes "hub_inv h"
  shows "mem_of (AList.update n (room_add c (room_or_new n h)) (rooms h)) = insert (n, c) (mem_of (rooms h))"
proof -
  let ?r = "room_add c (room_or_new n h)"
  have ne: "members ?r \<noteq> []"
    by (metis insertI1 list.set(1) room_simps(4) empty_iff)
  have ok: "rooms_ok (rooms h)" using hub_invD(2) [OF assms] .
  then have ok': "rooms_ok (AList.update n ?r (rooms h))"
    using rooms_ok_update [OF _ _ _ ne] room_or_new_ok [OF assms, of n] by simp
  have "(k, d) \<in> mem_of (AList.update n ?r (rooms h)) \<longleftrightarrow> (k, d) \<in> insert (n, c) (mem_of (rooms h))"
    for k d
    unfolding mem_of_iff [OF ok'] insert_iff mem_of_iff [OF ok]
    by (auto simp: update_conv' room_or_new_def split: option.splits)
  then show ?thesis by auto
qed

lemma chat_of_dropped: "dropped D h h' \<Longrightarrow> chat_of h' = kick D (chat_of h)"
  by (auto simp: dropped_def chat_of_def kick_def mem_of_without)

lemma chat_of_simps [simp]:
  "connected (chat_of h) = set (clients h)" "membership (chat_of h) = mem_of (rooms h)"
  "chat_of (h\<lparr>heap := hp\<rparr>) = chat_of h" "chat_of (h\<lparr>rand := rnd\<rparr>) = chat_of h"
  "chat_of (h\<lparr>persist := p\<rparr>) = chat_of h" "chat_of (h\<lparr>messagesTotal := t\<rparr>) = chat_of h"
  "chat_of (h\<lparr>rooms := rs\<rparr>) = (chat_of h)\<lparr>membership := mem_of rs\<rparr>"
  by (simp_all add: chat_of_def)

lemma kick_absent:
  assumes "hub_inv h" and "c \<notin> set (clients h)"
  shows "kick {c} (chat_of h) = chat_of h"
  using assms(2) hub_invD(3) [OF assms(1)] by (fastforce simp: kick_def chat_of_def mem_of_def)

section \<open>Every event refines the specification\<close>

lemma step_refines:
  assumes "hub_inv h" and "ev_ok ev h" and "run_step ev h = Inr (st, h')"
  shows "chat_of h' = spec_step ev (slow_of ev h) (chat_of h)"
proof (cases ev)
  case (EvUnregister c)
  obtain h1 where 1: "disconnect c h = Inr h1" "dropped ({c} \<inter> set (clients h)) h h1"
    using disconnect_dropped [OF assms(1)] by blast
  then have "chat_of h' = kick ({c} \<inter> set (clients h)) (chat_of h)"
    using assms(3) EvUnregister chat_of_dropped by auto
  then show ?thesis
    using EvUnregister kick_absent [OF assms(1), of c] by (cases "c \<in> set (clients h)") (auto simp: kick_def)
next
  case (EvInbound cmd now b)
  with assms(3) have h': "handle b now cmd h = Inr h'" by auto
  consider (j) "cmdKind cmd = TypeJoin" | (l) "cmdKind cmd = TypeLeave" | (m) "cmdKind cmd = TypeMessage"
    | (u) "cmdKind cmd \<noteq> TypeJoin" "cmdKind cmd \<noteq> TypeLeave" "cmdKind cmd \<noteq> TypeMessage" by blast
  then show ?thesis
  proof cases
    case j
    then have "cmdClient cmd \<in> set (clients h)"
      using assms(2) EvInbound by (simp add: ev_ok_def)
    from join_form [OF assms(1) this] h' j show ?thesis
      using EvInbound mem_of_join [OF assms(1)] by (auto simp: handle_def)
  next
    case l
    show ?thesis
    proof (cases "map_of (rooms h) (cmdRoom cmd)")
      case None
      then have "(cmdRoom cmd, cmdClient cmd) \<notin> mem_of (rooms h)"
        using mem_of_iff [OF hub_invD(2) [OF assms(1)]] by simp
      then show ?thesis using h' l None EvInbound by (simp add: handle_def leave_absent)
    next
      case (Some r)
      show ?thesis
        using leave_form [OF assms(1) Some] h' l EvInbound
        by (auto simp: handle_def mem_of_purge)
    qed
  next
    case m
    show ?thesis
    proof (cases "map_of (rooms h) (cmdRoom cmd)")
      case None
      then show ?thesis using h' m EvInbound
        by (simp add: handle_def broadcast_absent slow_of_def kick_def chat_of_def)
    next
      case (Some r)
      from broadcast_form [OF assms(1) Some, where ctxDone = b and now = now] h' m
      obtain h1 p rnd hp rnd0 where "h' = h1\<lparr>persist := p, rand := rnd\<rparr>"
        "dropped (slow_members r (cmdClient cmd) h)
          (h\<lparr>messagesTotal := messagesTotal h + 1, heap := hp, rand := rnd0\<rparr>) h1"
        by (auto simp: handle_def)
      then show ?thesis
        using chat_of_dropped [of _ _ h1] m Some EvInbound by (fastforce simp: slow_of_def)
    qed
  next
    case u
    then show ?thesis using h' EvInbound by (simp add: handle_def)
  qed
qed (use assms(3) in \<open>auto simp: chat_of_def snapshot_def draw_def\<close>)

end

