(* ===== verification/Hub_Trace.thy ===== *)
theory Hub_Trace
  imports Hub_Spec
begin

text \<open>
  What each event puts into the clients' queues and into the persistence queue, and what that
  adds up to over an execution of the actor loop. \<open>posts\<close> selects the chat messages of a
  queue from the history, presence and error frames around them.
\<close>

section \<open>One event\<close>

definition posts :: "Envelope list \<Rightarrow> Envelope list" where
  "posts q = filter (\<lambda>e. eType e = TypeMessage) q"

text \<open>The message a command is accepted as, if its room exists, and whom it is meant for.\<close>

definition accepted :: "event \<Rightarrow> 'a hub_scheme \<Rightarrow> Message list" where
  "accepted ev h = (case ev of
       EvInbound cmd now b \<Rightarrow>
         if cmdKind cmd = TypeMessage \<and> map_of (rooms h) (cmdRoom cmd) \<noteq> None
         then [message_of cmd now h] else []
     | _ \<Rightarrow> [])"

definition addressed :: "event \<Rightarrow> 'a hub_scheme \<Rightarrow> cid \<Rightarrow> Envelope list" where
  "addressed ev h d = (case ev of
       EvInbound cmd now b \<Rightarrow>
         if cmdKind cmd = TypeMessage \<and> d \<noteq> cmdClient cmd \<and> (cmdRoom cmd, d) \<in> mem_of (rooms h)
         then [message_frame (cmdRoom cmd) (message_of cmd now h)] else []
     | _ \<Rightarrow> [])"

lemma posts_simps [simp]:
  "posts [] = []" "posts (xs @ ys) = posts xs @ posts ys"
  "posts (message_frame n m # q) = message_frame n m # posts q"
  "posts (presence_frame n u j ns # q) = posts q"
  by (simp_all add: posts_def message_frame_def presence_frame_def)

lemma posts_is_left: "list_all is_left ys \<Longrightarrow> posts ys = []"
  by (auto simp: posts_def is_left_def left_frame_def presence_frame_def list_all_iff filter_empty_conv)

lemma posts_push_message:
  "posts (chBuf (clSend (push (message_frame n m) cl))) =
     posts (chBuf (clSend cl)) @ (if chan_room (clSend cl) then [message_frame n m] else [])"
  by (simp add: push_def)

lemma posts_push_presence [simp]:
  "posts (chBuf (clSend (push (presence_frame n u j ns) cl))) = posts (chBuf (clSend cl))"
  by (simp add: push_def)

lemma dropped_queue:
  assumes "dropped D h h'"
  shows "posts (sendq h' c) = posts (sendq h c)" "send_closed h' c \<longleftrightarrow> c \<in> D \<or> send_closed h c"
    "clID (heap h' c) = clID (heap h c)" "clName (heap h' c) = clName (heap h c)"
    "persist h' = persist h" "messagesTotal h' = messagesTotal h"
    "lastSampledTotal h' = lastSampledTotal h" "messageRate h' = messageRate h"
    "clients h' = filter (\<lambda>c. c \<notin> D) (clients h)"
proof -
  obtain hp rnd where h': "h' = h\<lparr>clients := filter (\<lambda>c. c \<notin> D) (clients h),
      rooms := without D (rooms h), heap := hp, rand := rnd\<rparr>"
    and e: "ext1 is_left (if c \<in> D then closed_client (heap h c) else heap h c) (hp c)"
    using assms unfolding dropped_def by blast
  from e show "posts (sendq h' c) = posts (sendq h c)"
    unfolding h' by (auto simp: ext1_def closed_client_def posts_is_left split: if_splits)
  from e show "send_closed h' c \<longleftrightarrow> c \<in> D \<or> send_closed h c"
    "clID (heap h' c) = clID (heap h c)" "clName (heap h' c) = clName (heap h c)"
    unfolding h' by (auto simp: ext1_def closed_client_def split: if_splits)
qed (use assms in \<open>auto simp: dropped_def\<close>)

lemma mem_of_member:
  "hub_inv h \<Longrightarrow> map_of (rooms h) n = Some r \<Longrightarrow> (n, d) \<in> mem_of (rooms h) \<longleftrightarrow> d \<in> set (members r)"
  using mem_of_iff [OF hub_invD(2)] by auto

text \<open>The effect of one event on the queue of client \<open>d\<close> and on the counters.\<close>

definition step_effect :: "event \<Rightarrow> 'a hub_scheme \<Rightarrow> 'a hub_scheme \<Rightarrow> cid \<Rightarrow> bool" where
  "step_effect ev h h' d \<longleftrightarrow>
     posts (sendq h' d) = posts (sendq h d) @ (if has_room h d then addressed ev h d else []) \<and>
     (addressed ev h d \<noteq> [] \<and> \<not> has_room h d \<longrightarrow> d \<notin> set (clients h') \<and> send_closed h' d) \<and>
     (send_closed h d \<longrightarrow> send_closed h' d) \<and>
     clID (heap h' d) = clID (heap h d) \<and> clName (heap h' d) = clName (heap h d) \<and>
     messagesTotal h' = messagesTotal h + of_nat (length (accepted ev h)) \<and>
     (ev \<noteq> EvTick \<longrightarrow> lastSampledTotal h' = lastSampledTotal h) \<and>
     (\<exists>ys. chBuf (persist h') = chBuf (persist h) @ ys \<and> subseq ys (accepted ev h)) \<and>
     chCap (persist h') = chCap (persist h)"

lemma broadcast_effect:
  fixes now :: gotime
  assumes "hub_inv h" and "map_of (rooms h) (cmdRoom cmd) = Some r"
    and "cmdKind cmd = TypeMessage" and "broadcast b now cmd h = Inr h'"
  shows "step_effect (EvInbound cmd now b) h h' d"
proof -
  let ?m = "message_of cmd now h" and ?c = "cmdClient cmd"
  let ?f = "message_frame (cmdRoom cmd) ?m"
  from broadcast_form [OF assms(1,2), where ctxDone = b and now = now] assms(4)
  obtain h1 p rnd0 rnd where h': "h' = h1\<lparr>persist := p, rand := rnd\<rparr>"
    and d: "dropped (slow_members r ?c h) (h\<lparr>messagesTotal := messagesTotal h + 1,
        heap := push_all (set (members r) - {?c}) ?f (heap h), rand := rnd0\<rparr>) h1"
    and p: "handed b ?m (persist h) p" by auto
  have mem: "(cmdRoom cmd, d) \<in> mem_of (rooms h) \<longleftrightarrow> d \<in> set (members r)"
    by (rule mem_of_member [OF assms(1,2)])
  have acc: "accepted (EvInbound cmd now b) h = [?m]"
    using assms(2,3) by (simp add: accepted_def)
  have "posts (sendq h' d) =
      posts (sendq h d) @ (if has_room h d then addressed (EvInbound cmd now b) h d else [])"
    using mem assms(3) unfolding h' by (auto simp: dropped_queue(1) [OF d] push_all_def
        posts_push_message addressed_def)
  moreover have "addressed (EvInbound cmd now b) h d \<noteq> [] \<and> \<not> has_room h d \<longrightarrow>
      d \<notin> set (clients h') \<and> send_closed h' d"
    using mem unfolding h' by (auto simp: dropped_queue(2,9) [OF d] slow_members_def addressed_def
        split: if_splits)
  moreover have "\<exists>ys. chBuf (persist h') = chBuf (persist h) @ ys \<and>
      subseq ys (accepted (EvInbound cmd now b) h)"
    using p unfolding h' acc by (auto simp: handed_def split: if_splits)
  ultimately show ?thesis
    unfolding step_effect_def acc using handed_ok(3) [OF p]
    by (auto simp: h' dropped_queue(2-8) [OF d])
qed

lemma step_effect_none:
  assumes "addressed ev h d = []" and "accepted ev h = []" and "ev \<noteq> EvTick"
    and "posts (sendq h' d) = posts (sendq h d)" and "send_closed h d \<longrightarrow> send_closed h' d"
    and "clID (heap h' d) = clID (heap h d)" and "clName (heap h' d) = clName (heap h d)"
    and "messagesTotal h' = messagesTotal h" and "lastSampledTotal h' = lastSampledTotal h"
    and "persist h' = persist h"
  shows "step_effect ev h h' d"
  unfolding step_effect_def using assms by auto

lemma run_step_effect:
  assumes "hub_inv h" and "ev_ok ev h" and "run_step ev h = Inr (st, h')"
  shows "step_effect ev h h' d"
proof (cases ev)
  case (EvUnregister c)
  then have d: "dropped ({c} \<inter> set (clients h)) h h'"
    using disconnect_dropped [OF assms(1), of c] assms(3) by auto
  show ?thesis
    using EvUnregister
    by (intro step_effect_none) (auto simp: addressed_def accepted_def dropped_queue [OF d])
next
  case (EvInbound cmd now b)
  with assms(3) have h': "handle b now cmd h = Inr h'" by auto
  have none: "cmdKind cmd \<noteq> TypeMessage \<Longrightarrow> addressed ev h d = [] \<and> accepted ev h = []"
    by (simp add: EvInbound addressed_def accepted_def)
  consider (j) "cmdKind cmd = TypeJoin" | (l) "cmdKind cmd = TypeLeave" | (m) "cmdKind cmd = TypeMessage"
    | (u) "cmdKind cmd \<noteq> TypeJoin" "cmdKind cmd \<noteq> TypeLeave" "cmdKind cmd \<noteq> TypeMessage" by blast
  then show ?thesis
  proof cases
    case j
    then have "cmdClient cmd \<in> set (clients h)"
      using assms(2) EvInbound by (simp add: ev_ok_def)
    from join_form [OF assms(1) this] h' j none show ?thesis
      using EvInbound by (intro step_effect_none) (auto simp: handle_def push_all_def)
  next
    case l
    show ?thesis
    proof (cases "map_of (rooms h) (cmdRoom cmd)")
      case None
      then show ?thesis using h' l none EvInbound
        by (intro step_effect_none) (auto simp: handle_def leave_absent)
    next
      case (Some r)
      show ?thesis
        using leave_form [OF assms(1) Some] h' l none EvInbound
        by (intro step_effect_none) (auto simp: handle_def push_all_def)
    qed
  next
    case m
    show ?thesis
    proof (cases "map_of (rooms h) (cmdRoom cmd)")
      case None
      then have "(cmdRoom cmd, d) \<notin> mem_of (rooms h)"
        using mem_of_iff [OF hub_invD(2) [OF assms(1)]] by simp
      with None show ?thesis using h' m EvInbound
        by (intro step_effect_none) (auto simp: handle_def broadcast_absent addressed_def accepted_def)
    next
      case (Some r)
      then show ?thesis
        using broadcast_effect [OF assms(1) Some m] h' m EvInbound by (simp add: handle_def)
    qed
  next
    case u
    then show ?thesis using h' none EvInbound
      by (intro step_effect_none) (auto simp: handle_def)
  qed
qed (use assms(3) in \<open>auto simp: step_effect_def addressed_def accepted_def snapshot_def draw_def\<close>)


section \<open>Whole executions\<close>

text \<open>\<open>along f evs h\<close> collects \<open>f\<close> over the events of an execution, each in the state it finds.\<close>

fun along :: "(event \<Rightarrow> 'a hub_scheme \<Rightarrow> 'b list) \<Rightarrow> event list \<Rightarrow> 'a hub_scheme \<Rightarrow> 'b list" where
  "along f [] h = []"
| "along f (ev # evs) h = f ev h @ (case run_step ev h of
       Inl _ \<Rightarrow> [] | Inr (_, h') \<Rightarrow> if ev = EvDone then [] else along f evs h')"

lemma Run_Cons_cases:
  assumes "hub_inv h" and "evs_ok (ev # evs) h" and "Run (ev # evs) h = Inr h'"
  obtains st h1 where "run_step ev h = Inr (st, h1)" "hub_inv h1" "\<And>d. step_effect ev h h1 d"
    "\<And>f. along f (ev # evs) h = f ev h @ (if ev = EvDone then [] else along f evs h1)"
    "if ev = EvDone then h' = h1 else evs_ok evs h1 \<and> Run evs h1 = Inr h'"
proof -
  have "ev_ok ev h" using assms(2) by simp
  from run_step_inv [OF assms(1) this] obtain st h1
    where 1: "run_step ev h = Inr (st, h1)" "hub_inv h1" by blast
  moreover have "step_effect ev h h1 d" for d
    using run_step_effect [OF assms(1) _ 1(1)] assms(2) by simp
  moreover have "if ev = EvDone then h' = h1 else evs_ok evs h1 \<and> Run evs h1 = Inr h'"
    using assms(2,3) 1(1) by auto
  ultimately show ?thesis using that by simp
qed

lemma Run_closed:
  "hub_inv h \<Longrightarrow> evs_ok evs h \<Longrightarrow> Run evs h = Inr h' \<Longrightarrow> send_closed h d \<Longrightarrow> send_closed h' d"
proof (induction evs arbitrary: h)
  case Nil
  then show ?case by simp
next
  case (Cons ev evs)
  from Run_Cons_cases [OF Cons.prems(1-3)] obtain h1 where 1: "hub_inv h1" "step_effect ev h h1 d"
    "if ev = EvDone then h' = h1 else evs_ok evs h1 \<and> Run evs h1 = Inr h'" by metis
  then have "send_closed h1 d" using Cons.prems(4) by (simp add: step_effect_def)
  then show ?case using Cons.IH [OF 1(1)] 1(3) by (cases "ev = EvDone") auto
qed

lemma Run_posts:
  "hub_inv h \<Longrightarrow> evs_ok evs h \<Longrightarrow> Run evs h = Inr h' \<Longrightarrow> d \<in> set (clients h') \<Longrightarrow>
    posts (sendq h' d) = posts (sendq h d) @ along (\<lambda>ev h. addressed ev h d) evs h"
proof (induction evs arbitrary: h)
  case Nil
  then show ?case by simp
next
  case (Cons ev evs)
  from Run_Cons_cases [OF Cons.prems(1-3)] obtain h1 where 1: "hub_inv h1" "step_effect ev h h1 d"
    "\<And>f :: event \<Rightarrow> 'a hub_scheme \<Rightarrow> Envelope list.
       along f (ev # evs) h = f ev h @ (if ev = EvDone then [] else along f evs h1)"
    "if ev = EvDone then h' = h1 else evs_ok evs h1 \<and> Run evs h1 = Inr h'" by metis
  obtain h2 where "Run (ev # evs) h = Inr h2" "hub_inv h2"
    using Run_inv [OF Cons.prems(1,2)] by blast
  then have "\<not> send_closed h' d"
    using Cons.prems(3,4) hub_invD(4) by auto
  then have "\<not> send_closed h1 d"
    using Run_closed [OF 1(1), of evs h'] 1(4) by (auto split: if_splits)
  then have "posts (sendq h1 d) = posts (sendq h d) @ addressed ev h d"
    using 1(2) unfolding step_effect_def by (cases "addressed ev h d = []") auto
  then show ?case
    using Cons.IH [OF 1(1)] 1(3,4) Cons.prems(4) by (cases "ev = EvDone") auto
qed

lemma Run_counts:
  "hub_inv h \<Longrightarrow> evs_ok evs h \<Longrightarrow> Run evs h = Inr h' \<Longrightarrow>
    messagesTotal h' = messagesTotal h + of_nat (length (along accepted evs h)) \<and>
    (EvTick \<notin> set evs \<longrightarrow> lastSampledTotal h' = lastSampledTotal h) \<and>
    (\<exists>ys. chBuf (persist h') = chBuf (persist h) @ ys \<and> subseq ys (along accepted evs h)) \<and>
    chCap (persist h') = chCap (persist h)"
proof (induction evs arbitrary: h)
  case Nil
  then show ?case by simp
next
  case (Cons ev evs)
  from Run_Cons_cases [OF Cons.prems(1-3)] obtain h1 where 1: "hub_inv h1" "step_effect ev h h1 0"
    "\<And>f :: event \<Rightarrow> 'a hub_scheme \<Rightarrow> Message list.
       along f (ev # evs) h = f ev h @ (if ev = EvDone then [] else along f evs h1)"
    "if ev = EvDone then h' = h1 else evs_ok evs h1 \<and> Run evs h1 = Inr h'" by metis
  obtain ys where ys: "chBuf (persist h1) = chBuf (persist h) @ ys" "subseq ys (accepted ev h)"
    using 1(2) unfolding step_effect_def by blast
  show ?case
  proof (cases "ev = EvDone")
    case True
    then show ?thesis using 1 ys by (auto simp: step_effect_def)
  next
    case False
    then have "evs_ok evs h1" "Run evs h1 = Inr h'" using 1(4) by auto
    from Cons.IH [OF 1(1) this] obtain zs where zs: "chBuf (persist h') = chBuf (persist h1) @ zs"
      "subseq zs (along accepted evs h1)"
      "messagesTotal h' = messagesTotal h1 + of_nat (length (along accepted evs h1))"
      "EvTick \<notin> set evs \<longrightarrow> lastSampledTotal h' = lastSampledTotal h1"
      "chCap (persist h') = chCap (persist h1)" by blast
    have "subseq (ys @ zs) (along accepted (ev # evs) h)"
      using ys(2) zs(2) 1(3) False by (simp add: list_emb_append_mono)
    then have "\<exists>ws. chBuf (persist h') = chBuf (persist h) @ ws \<and>
        subseq ws (along accepted (ev # evs) h)"
      using ys(1) zs(1) by auto
    then show ?thesis
      using zs(3-5) 1(2,3) False by (auto simp: step_effect_def)
  qed
qed

end
