(* ===== verification/Persist.thy ===== *)
theory Persist
  imports Message_Store
begin

text \<open>
  The cold-path worker of \<^verbatim>\<open>internal/persist/persist.go\<close>: it moves messages from the queue the
  hub fills to a message store, and drains the queue when its context is cancelled. The
  store's \<^verbatim>\<open>SaveMessage\<close> is a parameter, as it is an interface in Go; a failed save is logged
  and the message is lost.
\<close>

record 's persister =
  pIn :: "Message chan"
  pStore :: 's

definition persist_New :: "'s \<Rightarrow> int \<Rightarrow> 's persister" where
  "persist_New st queueDepth =
     \<lparr>pIn = make_chan (if queueDepth \<le> 0 then 1 else nat queueDepth), pStore = st\<rparr>"

text \<open>The sending end of the queue, for the hub.\<close>

definition Inbox :: "'s persister \<Rightarrow> Message chan" where
  "Inbox p = pIn p"

definition persist_save ::
    "('env \<Rightarrow> Message \<Rightarrow> 's \<Rightarrow> ('e + Message) \<times> 's) \<Rightarrow> 'env \<Rightarrow> Message \<Rightarrow> 's \<Rightarrow> 's" where
  "persist_save save env m st = snd (save env m st)"

text \<open>
  The \<^verbatim>\<open>drain\<close> loop: a receive while the queue has values, return when it has none. On a
  closed queue a receive yields zero messages for ever, so the loop would not end; the result
  is an option for that reason. \<open>env k\<close> are the circumstances of the loop's \<open>k\<close>-th save.
\<close>

partial_function (option) drain ::
    "('env \<Rightarrow> Message \<Rightarrow> 's \<Rightarrow> ('e + Message) \<times> 's) \<Rightarrow> (nat \<Rightarrow> 'env) \<Rightarrow> nat \<Rightarrow>
     ('s, 'a) persister_scheme \<Rightarrow> ('s, 'a) persister_scheme option" where
  "drain save env k p = (case chan_recv (pIn p) of
       Received m ch \<Rightarrow>
         drain save env (Suc k) (p\<lparr>pIn := ch, pStore := persist_save save (env k) m (pStore p)\<rparr>)
     | ChanClosed \<Rightarrow>
         drain save env (Suc k) (p\<lparr>pStore := persist_save save (env k) zero_Message (pStore p)\<rparr>)
     | NotReady \<Rightarrow> Some p)"

text \<open>
  The \<^verbatim>\<open>Run\<close> loop over the choices its \<^verbatim>\<open>select\<close> makes: to take a message (only possible when
  there is one), or to see the cancelled context, drain and return. The result says
  whether the worker has returned.
\<close>

datatype 'env pchoice = TakeMessage 'env | CtxDone "nat \<Rightarrow> 'env"

fun persister_Run ::
    "('env \<Rightarrow> Message \<Rightarrow> 's \<Rightarrow> ('e + Message) \<times> 's) \<Rightarrow> 'env pchoice list \<Rightarrow>
     ('s, 'a) persister_scheme \<Rightarrow> (bool \<times> ('s, 'a) persister_scheme) option" where
  "persister_Run save [] p = Some (False, p)"
| "persister_Run save (TakeMessage env # cs) p = (case chan_recv (pIn p) of
       Received m ch \<Rightarrow>
         persister_Run save cs (p\<lparr>pIn := ch, pStore := persist_save save env m (pStore p)\<rparr>)
     | ChanClosed \<Rightarrow>
         persister_Run save cs (p\<lparr>pStore := persist_save save env zero_Message (pStore p)\<rparr>)
     | NotReady \<Rightarrow> persister_Run save cs p)"
| "persister_Run save (CtxDone env # cs) p = map_option (Pair True) (drain save env 0 p)"

section \<open>Draining\<close>

definition tagged :: "(nat \<Rightarrow> 'env) \<Rightarrow> nat \<Rightarrow> Message list \<Rightarrow> ('env \<times> Message) list" where
  "tagged env k ms = zip (map env [k..<k + length ms]) ms"

lemma tagged_simps [simp]:
  "tagged env k [] = []" "tagged env k (m # ms) = (env k, m) # tagged env (Suc k) ms"
  by (simp_all add: tagged_def upt_rec [of k] del: upt_Suc)

lemma map_snd_tagged [simp]: "map snd (tagged env k ms) = ms"
  by (simp add: tagged_def)

lemma drain_open:
  "\<not> chClosed (pIn p) \<Longrightarrow> drain save env k p = Some (p\<lparr>pIn := (pIn p)\<lparr>chBuf := []\<rparr>,
     pStore := save_all save (tagged env k (chBuf (pIn p))) (pStore p)\<rparr>)"
proof (induction "chBuf (pIn p)" arbitrary: p k)
  case Nil
  then have "chBuf (pIn p) = []" by simp
  then have "p\<lparr>pIn := (pIn p)\<lparr>chBuf := []\<rparr>, pStore := pStore p\<rparr> = p"
    by (cases p; cases "pIn p") simp
  with Nil show ?case
    by (subst drain.simps) (simp add: chan_recv_def)
next
  case (Cons m ms)
  let ?p = "p\<lparr>pIn := (pIn p)\<lparr>chBuf := ms\<rparr>, pStore := persist_save save (env k) m (pStore p)\<rparr>"
  have buf: "chBuf (pIn p) = m # ms" using Cons.hyps(2) by simp
  then have "drain save env k p = drain save env (Suc k) ?p"
    by (subst drain.simps) (simp add: chan_recv_def)
  also have "\<dots> = Some (?p\<lparr>pIn := (pIn ?p)\<lparr>chBuf := []\<rparr>,
      pStore := save_all save (tagged env (Suc k) (chBuf (pIn ?p))) (pStore ?p)\<rparr>)"
    using Cons.hyps(1) [of ?p] Cons.prems by simp
  finally show ?case
    using buf by (simp add: persist_save_def)
qed

text \<open>On a closed queue the loop has no result.\<close>

lemma drain_Some_open:
  fixes save :: "'env \<Rightarrow> Message \<Rightarrow> 's \<Rightarrow> ('e + Message) \<times> 's"
    and p :: "('s, 'm) persister_scheme"
  assumes "drain save env k p = Some q"
  shows "\<not> chClosed (pIn p)"
proof (rule drain.raw_induct [where P = "\<lambda>save env k p q. \<not> chClosed (pIn p)", OF _ assms])
  fix rec :: "('env \<Rightarrow> Message \<Rightarrow> 's \<Rightarrow> ('e + Message) \<times> 's) \<Rightarrow> (nat \<Rightarrow> 'env) \<Rightarrow> nat \<Rightarrow>
      ('s, 'm) persister_scheme \<Rightarrow> ('s, 'm) persister_scheme option"
    and save :: "'env \<Rightarrow> Message \<Rightarrow> 's \<Rightarrow> ('e + Message) \<times> 's"
    and env k and p q :: "('s, 'm) persister_scheme"
  assume IH: "\<And>save env k p q. rec save env k p = Some q \<Longrightarrow> \<not> chClosed (pIn p)"
    and eq: "(case chan_recv (pIn p) of
       Received m ch \<Rightarrow>
         rec save env (Suc k) (p\<lparr>pIn := ch, pStore := persist_save save (env k) m (pStore p)\<rparr>)
     | ChanClosed \<Rightarrow>
         rec save env (Suc k) (p\<lparr>pStore := persist_save save (env k) zero_Message (pStore p)\<rparr>)
     | NotReady \<Rightarrow> Some p) = Some q"
  show "\<not> chClosed (pIn p)"
  proof (cases "chBuf (pIn p)")
    case Nil
    then show ?thesis using eq IH by (fastforce simp: chan_recv_def split: if_splits)
  next
    case (Cons m ms)
    then show ?thesis using eq IH by (fastforce simp: chan_recv_def)
  qed
qed

lemma drain_closed: "chClosed (pIn p) \<Longrightarrow> drain save env k p = None"
  using drain_Some_open by (metis option.exhaust)

end
