(* ===== verification/Pipeline.thy ===== *)
theory Pipeline
  imports Hub_Trace Persist Store
begin

text \<open>
  The hub and the persister side by side, as \<^verbatim>\<open>cmd/chat/main.go\<close> starts them: the hub's
  \<^verbatim>\<open>persist\<close> channel is the persister's \<^verbatim>\<open>in\<close>, and both watch the same context. A schedule
  is the interleaving of the two goroutines' turns; a turn that the code cannot take has
  no result.
\<close>

section \<open>State and turns\<close>

record 's server = hub +
  db :: 's
  ctxCancelled :: bool
  persisterDone :: bool

datatype 'env turn =
    HubTurn event
  | PersistTake 'env
  | PersistStop "nat \<Rightarrow> 'env"
  | Cancel

definition worker_of :: "'s server \<Rightarrow> 's persister" where
  "worker_of s = \<lparr>pIn = persist s, pStore = db s\<rparr>"

definition put_worker :: "'s persister \<Rightarrow> 's server \<Rightarrow> 's server" where
  "put_worker p s = s\<lparr>persist := pIn p, db := pStore p\<rparr>"

text \<open>
  Whether the hub's loop can take an event now: it has not returned, the cancelled context is
  seen only after it is cancelled, and the cold-path \<^verbatim>\<open>select\<close> sees the context as it is.
\<close>

definition hub_can :: "event \<Rightarrow> 's server \<Rightarrow> bool" where
  "hub_can ev s \<longleftrightarrow> \<not> hubDone s \<and> (case ev of
       EvInbound cmd now b \<Rightarrow> b = ctxCancelled s
     | EvDone \<Rightarrow> ctxCancelled s
     | _ \<Rightarrow> True)"

fun take_turn :: "('env \<Rightarrow> Message \<Rightarrow> 's \<Rightarrow> ('e + Message) \<times> 's) \<Rightarrow> 'env turn \<Rightarrow> 's server \<Rightarrow>
    (panic + 's server) option" where
  "take_turn save (HubTurn ev) s = (if hub_can ev s
     then Some (ebind (run_step ev s) (\<lambda>(_, s'). Inr s')) else None)"
| "take_turn save (PersistTake env) s = (if persisterDone s \<or> chan_recv (persist s) = NotReady then None
     else map_option (\<lambda>(_, p). Inr (put_worker p s)) (persister_Run save [TakeMessage env] (worker_of s)))"
| "take_turn save (PersistStop env) s = (if persisterDone s \<or> \<not> ctxCancelled s then None
     else map_option (\<lambda>(done, p). Inr ((put_worker p s)\<lparr>persisterDone := done\<rparr>))
       (persister_Run save [CtxDone env] (worker_of s)))"
| "take_turn save Cancel s = Some (Inr (s\<lparr>ctxCancelled := True\<rparr>))"

fun schedule :: "('env \<Rightarrow> Message \<Rightarrow> 's \<Rightarrow> ('e + Message) \<times> 's) \<Rightarrow> 'env turn list \<Rightarrow> 's server \<Rightarrow>
    (panic + 's server) option" where
  "schedule save [] s = Some (Inr s)"
| "schedule save (t # ts) s = (case take_turn save t s of
       None \<Rightarrow> None
     | Some (Inl p) \<Rightarrow> Some (Inl p)
     | Some (Inr s') \<Rightarrow> schedule save ts s')"

text \<open>What the turns of a schedule contribute, each in the state it finds.\<close>

fun during :: "('env \<Rightarrow> Message \<Rightarrow> 's \<Rightarrow> ('e + Message) \<times> 's) \<Rightarrow>
    ('env turn \<Rightarrow> 's server \<Rightarrow> 'b list) \<Rightarrow> 'env turn list \<Rightarrow> 's server \<Rightarrow> 'b list" where
  "during save f [] s = []"
| "during save f (t # ts) s = f t s @ (case take_turn save t s of
       Some (Inr s') \<Rightarrow> during save f ts s' | _ \<Rightarrow> [])"

fun always :: "('env \<Rightarrow> Message \<Rightarrow> 's \<Rightarrow> ('e + Message) \<times> 's) \<Rightarrow>
    ('env turn \<Rightarrow> 's server \<Rightarrow> bool) \<Rightarrow> 'env turn list \<Rightarrow> 's server \<Rightarrow> bool" where
  "always save Q [] s = True"
| "always save Q (t # ts) s = (Q t s \<and> (case take_turn save t s of
       Some (Inr s') \<Rightarrow> always save Q ts s' | _ \<Rightarrow> True))"

definition turn_ok :: "'env turn \<Rightarrow> 's server \<Rightarrow> bool" where
  "turn_ok t s \<longleftrightarrow> (case t of HubTurn ev \<Rightarrow> ev_ok ev s | _ \<Rightarrow> True)"

definition accepts :: "'env turn \<Rightarrow> 's server \<Rightarrow> Message list" where
  "accepts t s = (case t of HubTurn ev \<Rightarrow> accepted ev s | _ \<Rightarrow> [])"

text \<open>The messages a turn of the persister takes out of the queue, with their circumstances.\<close>

definition takes :: "'env turn \<Rightarrow> 's server \<Rightarrow> ('env \<times> Message) list" where
  "takes t s = (case t of
       PersistTake env \<Rightarrow> map (Pair env) (take 1 (chBuf (persist s)))
     | PersistStop env \<Rightarrow> tagged env 0 (chBuf (persist s))
     | _ \<Rightarrow> [])"

text \<open>A turn the cold path does not lose a message in: the queue has room, the context is live.\<close>

definition unhurried :: "'env turn \<Rightarrow> 's server \<Rightarrow> bool" where
  "unhurried t s \<longleftrightarrow> (case t of
       HubTurn ev \<Rightarrow> accepted ev s \<noteq> [] \<longrightarrow> chan_room (persist s) \<and> \<not> ctxCancelled s
     | _ \<Rightarrow> True)"

section \<open>One turn\<close>

lemma hub_inv_server [simp]:
  fixes s :: "'s server"
  shows "hub_inv (s\<lparr>db := d\<rparr>) = hub_inv s" "hub_inv (s\<lparr>ctxCancelled := b\<rparr>) = hub_inv s"
    "hub_inv (s\<lparr>persisterDone := b\<rparr>) = hub_inv s"
  by (simp_all add: hub_inv_def)

text \<open>A hub turn hands over exactly what it accepts when nothing stands in the way.\<close>

lemma handed_over:
  assumes "hub_inv h" and "ev_ok ev h" and "run_step ev h = Inr (st, h')"
    and "chan_room (persist h)" and "\<And>cmd now. ev \<noteq> EvInbound cmd now True"
  shows "chBuf (persist h') = chBuf (persist h) @ accepted ev h"
proof (cases "accepted ev h = []")
  case True
  then show ?thesis
    using run_step_effect [OF assms(1-3), of 0] by (auto simp: step_effect_def)
next
  case False
  then obtain cmd now b r where ev: "ev = EvInbound cmd now b" "cmdKind cmd = TypeMessage"
    "map_of (rooms h) (cmdRoom cmd) = Some r"
    by (auto simp: accepted_def split: event.splits if_splits)
  then have b: "\<not> b" using assms(5) by (cases b) auto
  from broadcast_form [OF assms(1) ev(3), where ctxDone = b and now = now] assms(3) ev(1,2)
  obtain h1 p rnd where "h' = h1\<lparr>persist := p, rand := rnd\<rparr>"
    "handed b (message_of cmd now h) (persist h) p"
    by (auto simp: handle_def Type_defs)
  then show ?thesis
    using assms(4) b ev by (simp add: handed_def accepted_def)
qed

lemma run_step_frame:
  fixes s :: "'s server"
  assumes "hub_inv s" and "ev_ok ev s" and "run_step ev s = Inr (st, s')"
  shows "db s' = db s \<and> ctxCancelled s' = ctxCancelled s \<and> persisterDone s' = persisterDone s \<and>
    hubDone s' = (hubDone s \<or> ev = EvDone)"
  using run_step_more [OF assms] by (cases s; cases s') auto

text \<open>
  What a turn does to the queue and the store: the queue gains a subsequence of what the turn
  accepts, all of it when unhurried, at its end, and loses what the turn takes, which is saved
  in order, at its front.
\<close>

lemma take_turn_effect:
  fixes save :: "'env \<Rightarrow> Message \<Rightarrow> 's \<Rightarrow> ('e + Message) \<times> 's" and s :: "'s server"
  assumes "hub_inv s" and "turn_ok t s" and "take_turn save t s = Some r"
  obtains s' ys where "r = Inr s'" "hub_inv s'"
    "chBuf (persist s) @ ys = map snd (takes t s) @ chBuf (persist s')"
    "subseq ys (accepts t s)" "unhurried t s \<Longrightarrow> ys = accepts t s"
    "db s' = save_all save (takes t s) (db s)"
    "hubDone s' = (hubDone s \<or> t = HubTurn EvDone)"
    "persisterDone s' = (persisterDone s \<or> (\<exists>env. t = PersistStop env))"
    "ctxCancelled s' = (ctxCancelled s \<or> t = Cancel)"
    "\<And>env. t = PersistStop env \<Longrightarrow> chBuf (persist s') = []"
proof (cases t)
  case (HubTurn ev)
  have ok: "ev_ok ev s" using assms(2) HubTurn by (simp add: turn_ok_def)
  obtain st s' where s': "run_step ev s = Inr (st, s')" "hub_inv s'"
    using run_step_inv [OF assms(1) ok] by blast
  have can: "hub_can ev s" and r: "r = Inr s'"
    using assms(3) s'(1) HubTurn by (auto split: if_splits)
  obtain ys where ys: "chBuf (persist s') = chBuf (persist s) @ ys" "subseq ys (accepted ev s)"
    using run_step_effect [OF assms(1) ok s'(1), of 0] by (auto simp: step_effect_def)
  have exact: "ys = accepted ev s" if "unhurried t s"
  proof (cases "accepted ev s = []")
    case True
    then show ?thesis using ys(2) by simp
  next
    case False
    then have "chan_room (persist s)" "\<And>cmd now. ev \<noteq> EvInbound cmd now True"
      using that HubTurn can by (auto simp: unhurried_def hub_can_def)
    from handed_over [OF assms(1) ok s'(1) this] ys(1) show ?thesis by simp
  qed
  have "db s' = db s \<and> ctxCancelled s' = ctxCancelled s \<and> persisterDone s' = persisterDone s \<and>
      hubDone s' = (hubDone s \<or> ev = EvDone)"
    using run_step_frame [OF assms(1) ok s'(1)] by simp
  then show ?thesis
    using that [OF r s'(2)] ys exact HubTurn by (simp add: accepts_def takes_def)
next
  case (PersistTake env)
  have "\<not> chClosed (persist s)" using hub_invD(6) [OF assms(1)] .
  then obtain m ms where q: "chBuf (persist s) = m # ms"
    using assms(3) PersistTake by (auto simp: chan_recv_def split: if_splits list.splits)
  let ?s = "s\<lparr>persist := (persist s)\<lparr>chBuf := ms\<rparr>, db := snd (save env m (db s))\<rparr>"
  have "r = Inr ?s"
    using q assms(3) PersistTake
    by (simp add: chan_recv_def worker_of_def put_worker_def persist_save_def split: if_splits)
  moreover have "hub_inv ?s"
    using hub_inv_persist [OF assms(1), of "(persist s)\<lparr>chBuf := ms\<rparr>"] hub_invD(6,7) [OF assms(1)] q
    by (simp add: chan_ok_def)
  ultimately show ?thesis
    by (rule that [of ?s "[]"]) (use q PersistTake in \<open>simp_all add: accepts_def takes_def\<close>)
next
  case (PersistStop env)
  let ?p = "(persist s)\<lparr>chBuf := []\<rparr>" and ?ms = "tagged env 0 (chBuf (persist s))"
  have "\<not> chClosed (pIn (worker_of s))" using hub_invD(6) [OF assms(1)] by (simp add: worker_of_def)
  from drain_open [OF this, of save env 0]
  have "r = Inr (s\<lparr>persist := ?p, db := save_all save ?ms (db s), persisterDone := True\<rparr>)"
    using assms(3) PersistStop by (simp add: worker_of_def put_worker_def split: if_splits)
  moreover have "hub_inv (s\<lparr>persist := ?p, db := save_all save ?ms (db s), persisterDone := True\<rparr>)"
    using hub_inv_persist [OF assms(1), of ?p] hub_invD(6) [OF assms(1)] by (simp add: chan_ok_def)
  ultimately show ?thesis
    by (rule that [of _ "[]"]) (use PersistStop in \<open>simp_all add: accepts_def takes_def\<close>)
next
  case Cancel
  show ?thesis
    by (rule that [of "s\<lparr>ctxCancelled := True\<rparr>" "[]"])
      (use assms(1,3) Cancel in \<open>simp_all add: accepts_def takes_def\<close>)
qed

section \<open>Whole schedules\<close>

lemma schedule_effect:
  fixes save :: "'env \<Rightarrow> Message \<Rightarrow> 's \<Rightarrow> ('e + Message) \<times> 's" and s :: "'s server"
  assumes "hub_inv s" and "always save turn_ok ts s" and "schedule save ts s = Some r"
  shows "\<exists>s' ys. r = Inr s' \<and> hub_inv s' \<and>
    chBuf (persist s) @ ys = map snd (during save takes ts s) @ chBuf (persist s') \<and>
    subseq ys (during save accepts ts s) \<and>
    (always save unhurried ts s \<longrightarrow> ys = during save accepts ts s) \<and>
    db s' = save_all save (during save takes ts s) (db s)"
  using assms
proof (induction ts arbitrary: s)
  case Nil
  then show ?case by (intro exI [of _ s] exI [of _ "[]"]) simp
next
  case (Cons t ts)
  obtain r1 where r1: "take_turn save t s = Some r1"
    using Cons.prems(3) by (auto split: option.splits)
  have "turn_ok t s" using Cons.prems(2) by simp
  from take_turn_effect [OF Cons.prems(1) this r1] obtain s1 ys1 where 1:
    "r1 = Inr s1" "hub_inv s1" "chBuf (persist s) @ ys1 = map snd (takes t s) @ chBuf (persist s1)"
    "subseq ys1 (accepts t s)" "unhurried t s \<Longrightarrow> ys1 = accepts t s"
    "db s1 = save_all save (takes t s) (db s)" by metis
  have "always save turn_ok ts s1" "schedule save ts s1 = Some r"
    using Cons.prems(2,3) r1 1(1) by simp_all
  from Cons.IH [OF 1(2) this] obtain s' ys where 2: "r = Inr s'" "hub_inv s'"
    "chBuf (persist s1) @ ys = map snd (during save takes ts s1) @ chBuf (persist s')"
    "subseq ys (during save accepts ts s1)"
    "always save unhurried ts s1 \<longrightarrow> ys = during save accepts ts s1"
    "db s' = save_all save (during save takes ts s1) (db s1)" by blast
  have "chBuf (persist s) @ ys1 @ ys = map snd (takes t s) @ map snd (during save takes ts s1) @ chBuf (persist s')"
    using 1(3) 2(3) by (metis append.assoc)
  moreover have "subseq (ys1 @ ys) (during save accepts (t # ts) s)"
    using r1 1(1,4) 2(4) by (simp add: list_emb_append_mono)
  moreover have "always save unhurried (t # ts) s \<longrightarrow> ys1 @ ys = during save accepts (t # ts) s"
    using r1 1(1,5) 2(5) by simp
  ultimately show ?case
    using 2(1,2,6) r1 1(1,6)
    by (intro exI [of _ s'] exI [of _ "ys1 @ ys"]) (simp add: save_all_append)
qed

lemma schedule_stop_empty:
  fixes save :: "'env \<Rightarrow> Message \<Rightarrow> 's \<Rightarrow> ('e + Message) \<times> 's" and s :: "'s server"
  assumes "hub_inv s" and "always save turn_ok (ts @ [PersistStop env]) s"
    and "schedule save (ts @ [PersistStop env]) s = Some r"
  shows "\<exists>s'. r = Inr s' \<and> chBuf (persist s') = []"
  using assms
proof (induction ts arbitrary: s)
  case Nil
  then obtain r1 where r1: "take_turn save (PersistStop env) s = Some r1"
    by (auto split: option.splits)
  have "turn_ok (PersistStop env) s" by (simp add: turn_ok_def)
  from take_turn_effect [OF Nil.prems(1) this r1] obtain s1 where
    "r1 = Inr s1" "\<And>env'. PersistStop env = PersistStop env' \<Longrightarrow> chBuf (persist s1) = []" by metis
  then show ?case using Nil.prems(3) r1 by auto
next
  case (Cons t ts)
  obtain r1 where r1: "take_turn save t s = Some r1"
    using Cons.prems(3) by (auto split: option.splits)
  have "turn_ok t s" using Cons.prems(2) by simp
  from take_turn_effect [OF Cons.prems(1) this r1] obtain s1 where 1: "r1 = Inr s1" "hub_inv s1"
    by metis
  show ?case using Cons.IH [OF 1(2)] Cons.prems(2,3) r1 1(1) by simp
qed

text \<open>What a store keeps of a message, apart from its id: its timestamp at the store's precision.\<close>

definition kept :: "(gotime \<Rightarrow> gotime) \<Rightarrow> Message \<Rightarrow> Message" where
  "kept stamp m = m\<lparr>mID := 0, mCreatedAt := stamp (mCreatedAt m)\<rparr>"

lemma stored_as_kept: "\<not> IsZero (mCreatedAt m) \<Longrightarrow> stored_as stamp now 0 m = kept stamp m"
  by (simp add: stored_as_def stamped_def kept_def)

definition dated :: "Message list \<Rightarrow> bool" where
  "dated ms \<longleftrightarrow> (\<forall>m \<in> set ms. \<not> IsZero (mCreatedAt m))"

context message_store
begin

lemma stored_as_takes:
  assumes "dated (map snd tk)"
  shows "map (\<lambda>(env, m). stored_as stamp (clock env) 0 m) tk = map (kept stamp) (map snd tk)"
  using assms by (auto simp: dated_def stored_as_kept)

lemma dated_takes:
  assumes "dated (q @ acc)" and "q @ ys = tk @ q'" and "subseq ys acc"
  shows "dated tk"
proof -
  have "set tk \<subseteq> set (q @ ys)" using assms(2) by simp
  then show ?thesis
    using assms(1,3) by (auto simp: dated_def dest: subseq_order.trans list_emb_set)
qed

text \<open>Any schedule stores a subsequence of what was queued and accepted, in that order.\<close>

lemma schedule_stores:
  assumes "hub_inv s" and "valid (db s)" and "always SaveMessage turn_ok ts s"
    and "schedule SaveMessage ts s = Some r"
    and "dated (chBuf (persist s) @ during SaveMessage accepts ts s)"
  shows "\<exists>s' xs. r = Inr s' \<and> valid (db s') \<and> stored (db s') = stored (db s) @ xs \<and>
    subseq (map erase_id xs @ map (kept stamp) (chBuf (persist s')))
      (map (kept stamp) (chBuf (persist s) @ during SaveMessage accepts ts s))"
proof -
  obtain s' ys where 1: "r = Inr s'"
    "chBuf (persist s) @ ys = map snd (during SaveMessage takes ts s) @ chBuf (persist s')"
    "subseq ys (during SaveMessage accepts ts s)"
    "db s' = save_all SaveMessage (during SaveMessage takes ts s) (db s)"
    using schedule_effect [OF assms(1,3,4)] by metis
  let ?tk = "during SaveMessage takes ts s"
  obtain xs where xs: "valid (db s')" "stored (db s') = stored (db s) @ xs"
    "subseq (map erase_id xs) (map (\<lambda>(env, m). stored_as stamp (clock env) 0 m) ?tk)"
    using save_all_grows [OF assms(2), of ?tk] 1(4) by auto
  have "subseq (map erase_id xs) (map (kept stamp) (map snd ?tk))"
    using xs(3) stored_as_takes [OF dated_takes [OF assms(5) 1(2,3)]] by simp
  then have "subseq (map erase_id xs @ map (kept stamp) (chBuf (persist s')))
      (map (kept stamp) (map snd ?tk @ chBuf (persist s')))"
    by (simp add: list_emb_append_mono)
  also have "map snd ?tk @ chBuf (persist s') = chBuf (persist s) @ ys" using 1(2) ..
  also have "subseq (map (kept stamp) (chBuf (persist s) @ ys))
      (map (kept stamp) (chBuf (persist s) @ during SaveMessage accepts ts s))"
    using 1(3) by (intro subseq_map list_emb_append_mono) simp_all
  finally show ?thesis using 1(1) xs(1,2) by blast
qed

text \<open>
  Nothing is lost, if no hand-off was refused, no save failed and the persister stopped
  last.
\<close>

lemma schedule_stores_all:
  assumes "hub_inv s" and "valid (db s)" and "always SaveMessage turn_ok (ts @ [PersistStop env]) s"
    and "schedule SaveMessage (ts @ [PersistStop env]) s = Some r"
    and "always SaveMessage unhurried (ts @ [PersistStop env]) s"
    and "dated (chBuf (persist s) @ during SaveMessage accepts (ts @ [PersistStop env]) s)"
    and "saves_fine SaveMessage healthy full (during SaveMessage takes (ts @ [PersistStop env]) s) (db s)"
  shows "\<exists>s' xs. r = Inr s' \<and> stored (db s') = stored (db s) @ xs \<and>
    map erase_id xs = map (kept stamp)
      (chBuf (persist s) @ during SaveMessage accepts (ts @ [PersistStop env]) s)"
proof -
  let ?ts = "ts @ [PersistStop env]"
  let ?tk = "during SaveMessage takes ?ts s"
  obtain s' ys where 1: "r = Inr s'"
    "chBuf (persist s) @ ys = map snd ?tk @ chBuf (persist s')"
    "ys = during SaveMessage accepts ?ts s"
    "db s' = save_all SaveMessage ?tk (db s)"
    using schedule_effect [OF assms(1,3,4)] assms(5) by metis
  have "chBuf (persist s') = []"
    using schedule_stop_empty [OF assms(1,3,4)] 1(1) by simp
  then have q: "map snd ?tk = chBuf (persist s) @ ys" using 1(2) by simp
  obtain xs where xs: "stored (db s') = stored (db s) @ xs"
    "map erase_id xs = map (\<lambda>(env, m). stored_as stamp (clock env) 0 m) ?tk"
    using save_all_exact [OF assms(2,7)] 1(4) by auto
  have "dated (map snd ?tk)" using assms(6) q 1(3) by simp
  then have "map erase_id xs = map (kept stamp) (chBuf (persist s) @ ys)"
    using xs(2) stored_as_takes q by simp
  then show ?thesis using 1(1,3) xs(1) by blast
qed

text \<open>
  With the persister caught up, no hand-off refused and no save failed, the history of a room
  is the latest of what was stored, queued and accepted for it, in the order of time.
\<close>

lemma schedule_history:
  assumes "hub_inv s" and "valid (db s)" and "always SaveMessage turn_ok ts s"
    and "schedule SaveMessage ts s = Some (Inr s')" and "chBuf (persist s') = []"
    and "always SaveMessage unhurried ts s"
    and "dated (chBuf (persist s) @ during SaveMessage accepts ts s)"
    and "saves_fine SaveMessage healthy full (during SaveMessage takes ts s) (db s)"
    and "healthy env" and "0 \<le> lim"
  shows "\<exists>ms. RecentByRoom env rm lim (db s') = Inr ms \<and>
    map erase_id ms = latest (nat lim) rm
      (map erase_id (stored (db s)) @ map (kept stamp) (chBuf (persist s) @ during SaveMessage accepts ts s))"
proof -
  let ?tk = "during SaveMessage takes ts s" and ?in = "chBuf (persist s) @ during SaveMessage accepts ts s"
  have 1: "map snd ?tk = ?in" "db s' = save_all SaveMessage ?tk (db s)"
    using schedule_effect [OF assms(1,3,4)] assms(5,6) by auto
  have "valid (db s')" using save_all_grows [OF assms(2), of ?tk] 1(2) by auto
  obtain xs where xs: "stored (db s') = stored (db s) @ xs" "map erase_id xs = map (kept stamp) ?in"
    using save_all_exact [OF assms(2,8)] stored_as_takes [of ?tk] assms(7) 1 by auto
  obtain ms where ms: "RecentByRoom env rm lim (db s') = Inr ms" using recent_healthy [OF assms(9,10)] by blast
  have "ms = latest (nat lim) rm (stored (db s) @ xs)"
    using recent_is_latest [OF \<open>valid (db s')\<close> assms(10) ms] xs(1) by simp
  then have "map erase_id ms = latest (nat lim) rm (map erase_id (stored (db s) @ xs))"
    by (simp only: latest_erased)
  then show ?thesis using ms xs(2) by simp
qed

end

end
