(* ===== verification/Config.thy ===== *)
theory Config
  imports Go_Prelude
begin

text \<open>
  The configuration of \<^verbatim>\<open>internal/config/config.go\<close> and its start-up validation. The
  numeric fields are read and compared here, never computed with, so they are plain
  integers; durations are in nanoseconds. Every error carries the offending value, as the
  formatted Go error does.
\<close>

record Config =
  cfgAddr :: string
  cfgDBURL :: string
  cfgMaxMessageSize :: int
  cfgSendBuffer :: int
  cfgPingInterval :: int
  cfgHistoryLimit :: int
  cfgMaxRooms :: int
  cfgAllowedOrigins :: "string list"
  cfgSessionTTL :: int
  cfgSecureCookies :: bool
  cfgDebugAddr :: string

definition Second :: int where
  "Second = 10 ^ 9"

definition Hour :: int where
  "Hour = 3600 * Second"

definition defaultAddr :: string where
  [simp]: "defaultAddr = '':8080''"

definition defaultMaxMessageSize :: int where
  [simp]: "defaultMaxMessageSize = 4 * 2 ^ 10"

definition defaultSendBuffer :: int where
  [simp]: "defaultSendBuffer = 16"

definition defaultPingInterval :: int where
  [simp]: "defaultPingInterval = 30 * Second"

definition defaultHistoryLimit :: int where
  [simp]: "defaultHistoryLimit = 50"

definition defaultMaxRooms :: int where
  [simp]: "defaultMaxRooms = 256"

definition defaultSessionTTL :: int where
  [simp]: "defaultSessionTTL = 7 * 24 * Hour"

definition Default :: Config where
  "Default = \<lparr>cfgAddr = defaultAddr, cfgDBURL = '''', cfgMaxMessageSize = defaultMaxMessageSize,
     cfgSendBuffer = defaultSendBuffer, cfgPingInterval = defaultPingInterval,
     cfgHistoryLimit = defaultHistoryLimit, cfgMaxRooms = defaultMaxRooms, cfgAllowedOrigins = [],
     cfgSessionTTL = defaultSessionTTL, cfgSecureCookies = False, cfgDebugAddr = ''''\<rparr>"

datatype config_error =
    AddrRequired
  | MaxMessageSizeNotPositive int
  | SendBufferNotPositive int
  | PingIntervalNotPositive int
  | HistoryLimitNegative int
  | MaxRoomsNotPositive int
  | SessionTTLNotPositive int

definition Validate :: "Config \<Rightarrow> config_error option" where
  "Validate c =
     (if cfgAddr c = '''' then Some AddrRequired
      else if cfgMaxMessageSize c \<le> 0 then Some (MaxMessageSizeNotPositive (cfgMaxMessageSize c))
      else if cfgSendBuffer c \<le> 0 then Some (SendBufferNotPositive (cfgSendBuffer c))
      else if cfgPingInterval c \<le> 0 then Some (PingIntervalNotPositive (cfgPingInterval c))
      else if cfgHistoryLimit c < 0 then Some (HistoryLimitNegative (cfgHistoryLimit c))
      else if cfgMaxRooms c \<le> 0 then Some (MaxRoomsNotPositive (cfgMaxRooms c))
      else if cfgSessionTTL c \<le> 0 then Some (SessionTTLNotPositive (cfgSessionTTL c))
      else None)"

lemma Default_valid: "Validate Default = None"
  by (simp add: Validate_def Default_def Second_def Hour_def)

text \<open>What the rest of the program may assume of a configuration that passed.\<close>

lemma Validate_None_iff:
  "Validate c = None \<longleftrightarrow> cfgAddr c \<noteq> '''' \<and> 0 < cfgMaxMessageSize c \<and> 0 < cfgSendBuffer c \<and>
     0 < cfgPingInterval c \<and> 0 \<le> cfgHistoryLimit c \<and> 0 < cfgMaxRooms c \<and> 0 < cfgSessionTTL c"
  by (auto simp: Validate_def)

end
