(* ===== verification/Backend.thy ===== *)
theory Backend
  imports Auth_Laws Pipeline Config
begin

text \<open>
  The choice of the database in \<^verbatim>\<open>openStores\<close> of \<^verbatim>\<open>cmd/chat/main.go\<close>, and the two stores the
  configuration chooses: whatever the choice, they meet the contracts of the message store and of the account
  store. So what is built on them is proved once for both databases.
\<close>

section \<open>The choice\<close>

datatype db_choice = PostgresDB string | SQLiteDB string

definition choose_db :: "string \<Rightarrow> db_choice" where
  "choose_db url =
     (if HasPrefix url ''postgres://'' \<or> HasPrefix url ''postgresql://'' then PostgresDB url
      else let path = TrimPrefix url ''sqlite:'' in SQLiteDB (if path = '''' then ''chat.db'' else path))"

definition db_of :: "Config \<Rightarrow> db_choice" where
  "db_of cfg = choose_db (cfgDBURL cfg)"

text \<open>The stores of the choice; \<open>ts\<close> is the precision of Postgres timestamps.\<close>

definition auth_store_of :: "(gotime \<Rightarrow> gotime) \<Rightarrow> db_choice \<Rightarrow> (auth_env, auth_db) Store_ops" where
  "auth_store_of ts c = (case c of PostgresDB _ \<Rightarrow> postgres_store ts | SQLiteDB _ \<Rightarrow> sqlite_store)"

definition SaveMessage_of ::
    "(gotime \<Rightarrow> gotime) \<Rightarrow> db_choice \<Rightarrow> db_env \<Rightarrow> Message \<Rightarrow> msg_table \<Rightarrow> (store_error + Message) \<times> msg_table" where
  "SaveMessage_of ts c = (case c of PostgresDB _ \<Rightarrow> Postgres_SaveMessage ts | SQLiteDB _ \<Rightarrow> SQLite_SaveMessage)"

definition RecentByRoom_of ::
    "db_choice \<Rightarrow> db_env \<Rightarrow> string \<Rightarrow> int \<Rightarrow> msg_table \<Rightarrow> store_error + Message list" where
  "RecentByRoom_of c = (case c of PostgresDB _ \<Rightarrow> Postgres_RecentByRoom | SQLiteDB _ \<Rightarrow> SQLite_RecentByRoom)"

lemma default_db: "db_of Default = SQLiteDB ''chat.db''"
  by (simp add: db_of_def choose_db_def Default_def HasPrefix_def TrimPrefix_def)

lemma sqlite_chosen:
  "auth_store_of ts (SQLiteDB p) = sqlite_store" "SaveMessage_of ts (SQLiteDB p) = SQLite_SaveMessage"
  "RecentByRoom_of (SQLiteDB p) = SQLite_RecentByRoom"
  by (simp_all add: auth_store_of_def SaveMessage_of_def RecentByRoom_of_def)

lemma postgres_chosen:
  "auth_store_of ts (PostgresDB u) = postgres_store ts" "SaveMessage_of ts (PostgresDB u) = Postgres_SaveMessage ts"
  "RecentByRoom_of (PostgresDB u) = Postgres_RecentByRoom"
  by (simp_all add: auth_store_of_def SaveMessage_of_def RecentByRoom_of_def)

lemmas default_stores = sqlite_chosen [where p = "''chat.db''", folded default_db]

section \<open>Accounts\<close>

context auth_store
begin

lemma Logout_ops:
  assumes "valid s" and "Logout K (NewService ops ttl) env token s = (res, s')"
  shows "valid s'" "account s' = account s"
proof -
  have "valid s' \<and> account s' = account s"
  proof (cases "token = ''''")
    case True
    then show ?thesis using assms by (simp add: Logout_def)
  next
    case False
    then have d: "delete_session env (hashToken K token) s = (res, s')"
      using assms(2) by (simp add: Logout_def NewService_def)
    show ?thesis
    proof (cases res)
      case (Inl e)
      then show ?thesis using delete_err d assms(1) by blast
    next
      case (Inr x)
      then show ?thesis using delete_ok [OF assms(1)] d by simp
    qed
  qed
  then show "valid s'" "account s' = account s" by blast+
qed

lemma Logout_healthy:
  assumes "healthy env"
  shows "\<exists>s'. Logout K (NewService ops ttl) env token s = (Inr (), s')"
  using delete_healthy [OF assms] by (simp add: Logout_def NewService_def)

lemma Authenticate_session:
  assumes "valid s" and "Authenticate K (NewService ops ttl) env token s = Inr u"
  shows "\<exists>e n h. session s (hashToken K token) = Some (uID u, e) \<and> now env < e \<and> account s n = Some (u, h)"
  using assms lookup_ok [OF assms(1)] by (simp add: Authenticate_def NewService_def split: if_splits)

end

text \<open>
  The clock a session's expiry is compared with: that of the server with SQLite, of the database with
  Postgres; and what is left of the expiry when it is stored.
\<close>

definition auth_clock :: "db_choice \<Rightarrow> auth_env \<Rightarrow> gotime" where
  "auth_clock c env = (case c of PostgresDB _ \<Rightarrow> aDbNow env | SQLiteDB _ \<Rightarrow> sint (UnixNano (aNow env)))"

definition auth_expiry :: "(gotime \<Rightarrow> gotime) \<Rightarrow> db_choice \<Rightarrow> gotime \<Rightarrow> gotime" where
  "auth_expiry ts c t = (case c of PostgresDB _ \<Rightarrow> ts t | SQLiteDB _ \<Rightarrow> sint (UnixNano t))"

lemma auth_store_either:
  "auth_store (CreateUser (auth_store_of ts c)) (CredentialsByUsername (auth_store_of ts c))
     (CreateSession (auth_store_of ts c)) (UserBySessionToken (auth_store_of ts c))
     (DeleteSession (auth_store_of ts c)) (auth_clock c) (\<lambda>env. aFault env = NoFault) auth_ok users_full
     db_account db_session (auth_expiry ts c)"
proof (cases c)
  case (PostgresDB url)
  then have "auth_clock c = (\<lambda>env. aDbNow env)" "auth_expiry ts c = ts"
    by (simp_all add: auth_clock_def auth_expiry_def fun_eq_iff)
  then show ?thesis using postgres_auth.auth_store_axioms [of ts] PostgresDB
    by (simp add: auth_store_of_def postgres_store_def)
next
  case (SQLiteDB path)
  then have "auth_clock c = (\<lambda>env. sint (UnixNano (aNow env)))" "auth_expiry ts c = (\<lambda>t. sint (UnixNano t))"
    by (simp_all add: auth_clock_def auth_expiry_def fun_eq_iff)
  then show ?thesis using sqlite_auth.auth_store_axioms SQLiteDB
    by (simp add: auth_store_of_def sqlite_store_def)
qed

interpretation db_auth: auth_store "CreateUser (auth_store_of ts c)" "CredentialsByUsername (auth_store_of ts c)"
    "CreateSession (auth_store_of ts c)" "UserBySessionToken (auth_store_of ts c)"
    "DeleteSession (auth_store_of ts c)" "auth_clock c" "\<lambda>env. aFault env = NoFault" auth_ok users_full
    db_account db_session "auth_expiry ts c"
  for ts c
  by (rule auth_store_either)

lemma db_ops: "db_auth.ops ts c = auth_store_of ts c"
  by (simp add: db_auth.ops_def)

text \<open>What the contract leaves open: answers under faults, and the sessions a logout does not touch.\<close>

lemma db_session_fault:
  "aFault env \<noteq> NoFault \<Longrightarrow> \<exists>e. CreateSession (auth_store_of ts c) env t i x z = (Inl e, z)"
  by (cases c) (simp_all add: sqlite_chosen postgres_chosen sqlite_store_def postgres_store_def SQLite_CreateSession_def
      Postgres_CreateSession_def sql_insert_session_def)

lemma db_credentials_fault:
  "aFault env \<noteq> NoFault \<Longrightarrow> \<exists>e. CredentialsByUsername (auth_store_of ts c) env n z = Inl e"
  by (cases c) (simp_all add: sqlite_chosen postgres_chosen sqlite_store_def postgres_store_def
      SQLite_CredentialsByUsername_def Postgres_CredentialsByUsername_def)

lemma db_delete_fault:
  "aFault env \<noteq> NoFault \<Longrightarrow> \<exists>e. DeleteSession (auth_store_of ts c) env t z = (Inl e, z)"
  by (cases c) (simp_all add: sqlite_chosen postgres_chosen sqlite_store_def postgres_store_def SQLite_DeleteSession_def
      Postgres_DeleteSession_def)

lemma select_after_delete:
  "t' \<noteq> t \<Longrightarrow> sql_select_session t' now (sql_delete_session t z) = sql_select_session t' now z"
proof -
  assume "t' \<noteq> t"
  then have "find (\<lambda>s. srHash s = t' \<and> now < srExpires s) (filter (\<lambda>s. srHash s \<noteq> t) xs) =
      find (\<lambda>s. srHash s = t' \<and> now < srExpires s) xs" for xs :: "session_row list"
    by (induction xs) auto
  then show ?thesis by (auto simp: sql_select_session_def sql_delete_session_def split: option.split)
qed

lemma db_other_sessions:
  assumes "Logout K (NewService (auth_store_of ts c) ttl) env token s = (Inr (), s')"
    and "hashToken K other \<noteq> hashToken K token"
  shows "Authenticate K (NewService (auth_store_of ts c) ttl) env' other s' =
    Authenticate K (NewService (auth_store_of ts c) ttl) env' other s"
proof -
  have "s' = s \<or> s' = sql_delete_session (hashToken K token) s"
    using assms(1) by (cases c) (auto simp: sqlite_chosen postgres_chosen sqlite_store_def postgres_store_def Logout_def
        NewService_def SQLite_DeleteSession_def Postgres_DeleteSession_def split: if_splits)
  then show ?thesis
    using select_after_delete [OF assms(2)] by (cases c) (auto simp: sqlite_chosen postgres_chosen sqlite_store_def
        postgres_store_def Authenticate_def NewService_def SQLite_UserBySessionToken_def Postgres_UserBySessionToken_def)
qed

section \<open>Messages\<close>

definition table_valid :: "db_choice \<Rightarrow> msg_table \<Rightarrow> bool" where
  "table_valid c t = (case c of PostgresDB _ \<Rightarrow> table_ok t | SQLiteDB _ \<Rightarrow> sqlite_ok t)"

definition rows_of :: "db_choice \<Rightarrow> msg_table \<Rightarrow> Message list" where
  "rows_of c t = (case c of PostgresDB _ \<Rightarrow> map postgres_row (tblRows t) | SQLiteDB _ \<Rightarrow> map sqlite_row (tblRows t))"

definition stamp_of :: "(gotime \<Rightarrow> gotime) \<Rightarrow> db_choice \<Rightarrow> gotime \<Rightarrow> gotime" where
  "stamp_of ts c t = (case c of PostgresDB _ \<Rightarrow> ts t | SQLiteDB _ \<Rightarrow> Unix_nanos (UnixNano t))"

lemma sqlite_tables:
  "table_valid (SQLiteDB p) = sqlite_ok" "rows_of (SQLiteDB p) = (\<lambda>t. map sqlite_row (tblRows t))"
  "stamp_of ts (SQLiteDB p) = (\<lambda>t. Unix_nanos (UnixNano t))"
  by (simp_all add: table_valid_def rows_of_def stamp_of_def fun_eq_iff)

lemma postgres_tables:
  "table_valid (PostgresDB u) = table_ok" "rows_of (PostgresDB u) = (\<lambda>t. map postgres_row (tblRows t))"
  "stamp_of ts (PostgresDB u) = ts"
  by (simp_all add: table_valid_def rows_of_def stamp_of_def fun_eq_iff)

lemma message_store_either:
  "message_store (SaveMessage_of ts c) (RecentByRoom_of c) envNow (\<lambda>env. envFault env = NoFault)
     (table_valid c) table_full (rows_of c) (stamp_of ts c)"
proof (cases c)
  case (PostgresDB url)
  then show ?thesis using postgres.message_store_axioms [of ts] by (simp add: postgres_chosen postgres_tables)
next
  case (SQLiteDB path)
  then show ?thesis using sqlite.message_store_axioms by (simp add: sqlite_chosen sqlite_tables)
qed

interpretation db_messages: message_store "SaveMessage_of ts c" "RecentByRoom_of c" envNow
    "\<lambda>env. envFault env = NoFault" "table_valid c" table_full "rows_of c" "stamp_of ts c"
  for ts c
  by (rule message_store_either)

end
