(* ===== verification/Store_Props.thy ===== *)
theory Store_Props
  imports Backend
begin

text \<open>
  What the database stores and the persistence worker promise: which history a query returns
  and in which order, what its errors are, what of a message survives storage, and that the
  worker's shutdown loop ends with every queued message offered to the store in order.
\<close>

section \<open>Example tables\<close>

definition sample_row :: "int \<Rightarrow> string \<Rightarrow> int \<Rightarrow> msg_row" where
  "sample_row i rm t = \<lparr>rowID = i, rowRoom = rm, rowSenderID = ''7'', rowSenderName = ''alice'',
     rowContent = ''hi'', rowCreatedAt = t\<rparr>"

definition sample_table :: msg_table where
  "sample_table = \<lparr>tblRows = [sample_row 1 ''r'' 10, sample_row 2 ''s'' 20, sample_row 3 ''r'' 20,
     sample_row 4 ''r'' 20], nextID = 5\<rparr>"

definition calm :: db_env where
  "calm = \<lparr>envNow = 30, envFault = NoFault\<rparr>"

definition sample_message :: Message where
  "sample_message = zero_Message\<lparr>mRoom := ''r'', mContent := ''new''\<rparr>"

lemmas sample_defs = sample_row_def sample_table_def calm_def sample_message_def

lemma sample_ok: "sqlite_ok sample_table" "table_ok sample_table"
  by (simp_all add: sqlite_ok_def table_ok_def sample_defs nano_range_def)

section \<open>History\<close>

lemma mset_last_n: "mset (last_n n xs) \<subseteq># mset xs"
  unfolding last_n_def by (metis append_take_drop_id mset_append mset_subset_eq_add_right)

lemma mset_newest: "mset (newest n rm ms) \<subseteq># mset ms"
proof -
  have "mset (newest n rm ms) \<subseteq># mset (sort_key msg_key (filter (\<lambda>m. mRoom m = rm) ms))"
    unfolding newest_def by (rule mset_last_n)
  also have "\<dots> \<subseteq># mset ms" by (simp add: multiset_filter_subset)
  finally show ?thesis .
qed

text \<open>The reading of a history: what \<open>newest\<close> means of its result.\<close>

definition is_history :: "Message list \<Rightarrow> string \<Rightarrow> int \<Rightarrow> Message list \<Rightarrow> bool" where
  "is_history ms rm lim table \<longleftrightarrow> mset ms \<subseteq># mset table \<and> (\<forall>m \<in> set ms. mRoom m = rm) \<and>
     length ms = min (nat lim) (length (filter (\<lambda>m. mRoom m = rm) table)) \<and>
     sorted (map msg_key ms) \<and>
     (\<forall>m \<in> set table. mRoom m = rm \<and> m \<notin> set ms \<longrightarrow> (\<forall>x \<in> set ms. msg_key m \<le> msg_key x))"

lemma is_history_newest: "is_history (newest (nat lim) rm table) rm lim table"
  unfolding is_history_def using mset_newest newest_sorted newest_room length_newest
  by (intro conjI) (simp_all, blast intro: newest_cut)

text \<open>
  C27. A successful history query, on either database, returns rows of the table, all of the asked room, as
  many as there are up to the limit, sorted by time and then id (oldest first), and no row it
  leaves out is newer than one it returns.
\<close>

theorem history_is_newest_in_order:
  assumes "table_valid c t" and "0 \<le> lim" and "RecentByRoom_of c env rm lim t = Inr ms"
  shows "is_history ms rm lim (rows_of c t)"
  using db_messages.recent_ok [OF assms] is_history_newest by simp

theorem history_is_newest_in_order_witness:
  "(\<exists>ms. SQLite_RecentByRoom calm ''r'' 2 sample_table = Inr ms \<and> length ms = 2 \<and> sorted (map msg_key ms)) \<and>
   (\<exists>ms. Postgres_RecentByRoom calm ''r'' 2 sample_table = Inr ms \<and> length ms = 2 \<and> sorted (map msg_key ms))"
proof
  obtain ms where ms: "SQLite_RecentByRoom calm ''r'' 2 sample_table = Inr ms"
    using sqlite.recent_healthy [of calm 2 "''r''" sample_table] by (auto simp: calm_def)
  have "is_history ms ''r'' 2 (map sqlite_row (tblRows sample_table))"
    using history_is_newest_in_order [where c = "SQLiteDB ''''", unfolded sqlite_tables sqlite_chosen, OF sample_ok(1) _ ms]
    by simp
  then show "\<exists>ms. SQLite_RecentByRoom calm ''r'' 2 sample_table = Inr ms \<and> length ms = 2 \<and> sorted (map msg_key ms)"
    using ms by (simp add: is_history_def sample_defs sqlite_row_def)
next
  obtain ms where ms: "Postgres_RecentByRoom calm ''r'' 2 sample_table = Inr ms"
    using postgres.recent_healthy [of calm 2 "''r''" sample_table] by (auto simp: calm_def)
  have "is_history ms ''r'' 2 (map postgres_row (tblRows sample_table))"
    using history_is_newest_in_order [where c = "PostgresDB ''''", unfolded postgres_tables postgres_chosen, OF sample_ok(2) _ ms]
    by simp
  then show "\<exists>ms. Postgres_RecentByRoom calm ''r'' 2 sample_table = Inr ms \<and> length ms = 2 \<and> sorted (map msg_key ms)"
    using ms by (simp add: is_history_def sample_defs postgres_row_def)
qed

text \<open>
  Every failure of the SQLite history query, and no partial result: a failed query, a row
  that does not scan and a broken iteration are errors exactly when the loop reaches them;
  otherwise the whole history is returned.
\<close>

definition query_size :: "string \<Rightarrow> int \<Rightarrow> msg_table \<Rightarrow> nat" where
  "query_size rm lim t = length (sqlite_limit lim (sql_select_recent rm t))"

lemma scan_rows_result:
  "scan_rows rd f k rs out = (case f of
       ScanFault j \<Rightarrow> if k \<le> j \<and> j < k + length rs then Inl ScanningRow else Inr (out @ map rd rs)
     | IterFault j \<Rightarrow> if k \<le> j \<and> j \<le> k + length rs then Inl IteratingRows else Inr (out @ map rd rs)
     | _ \<Rightarrow> Inr (out @ map rd rs))"
  by (induction rs arbitrary: k out) (auto split: fault.splits)

theorem sqlite_history_all_or_error:
  "SQLite_RecentByRoom env rm lim t = (case envFault env of
       ExecFault \<Rightarrow> Inl (QueryingRecent rm)
     | ScanFault j \<Rightarrow> if j < query_size rm lim t then Inl ScanningRow
                      else SQLite_RecentByRoom (env\<lparr>envFault := NoFault\<rparr>) rm lim t
     | IterFault j \<Rightarrow> if j \<le> query_size rm lim t then Inl IteratingRows
                      else SQLite_RecentByRoom (env\<lparr>envFault := NoFault\<rparr>) rm lim t
     | _ \<Rightarrow> SQLite_RecentByRoom (env\<lparr>envFault := NoFault\<rparr>) rm lim t)"
  by (auto simp: SQLite_RecentByRoom_def scan_rows_result query_size_def split: fault.splits)

section \<open>Saving and reading back\<close>

lemma stamped_id: "(stamped now m)\<lparr>mID := i\<rparr> = m\<lparr>mID := i, mCreatedAt := mCreatedAt (stamped now m)\<rparr>"
  by (simp add: stamped_def)

lemma saved_row:
  assumes "table_valid c t" and "envFault env = NoFault" and "SaveMessage_of ts c env m t = (Inr m', t')"
    and "stamp_of ts c (mCreatedAt m') = mCreatedAt m'"
  shows "table_valid c t'" "rows_of c t' = rows_of c t @ [m']" "mRoom m' = mRoom m"
proof -
  let ?m = "stamped (envNow env) m"
  have "table_valid c t' \<and> rows_of c t' = rows_of c t @ [m'] \<and> mRoom m' = mRoom m"
  proof (cases c)
    case (PostgresDB u)
    obtain i where "sql_insert_message (envFault env) ?m (ts (mCreatedAt ?m)) t = Some (i, t')"
      "m' = ?m\<lparr>mID := word_of_int i\<rparr>"
      using assms(2,3) PostgresDB by (auto simp: postgres_chosen Postgres_SaveMessage_def Let_def split: option.splits if_splits)
    then show ?thesis
      using postgres_insert [of t "envFault env" ?m ts i t'] assms(1,4) PostgresDB
      by (simp add: postgres_tables stamped_id)
  next
    case (SQLiteDB p)
    obtain i where "sql_insert_message (envFault env) ?m (sint (UnixNano (mCreatedAt ?m))) t = Some (i, t')"
      "m' = ?m\<lparr>mID := word_of_int i\<rparr>"
      using assms(2,3) SQLiteDB by (auto simp: sqlite_chosen SQLite_SaveMessage_def Let_def split: option.splits if_splits)
    then show ?thesis
      using sqlite_insert [of t "envFault env" ?m i t'] assms(1,4) SQLiteDB
      by (simp add: sqlite_tables stamped_id)
  qed
  then show "table_valid c t'" "rows_of c t' = rows_of c t @ [m']" "mRoom m' = mRoom m" by blast+
qed

text \<open>A message that is read has the room and the time of a row.\<close>

lemma row_of_message:
  assumes "table_valid c t" and "x \<in> set (rows_of c t)"
  shows "\<exists>r \<in> set (tblRows t). mRoom x = rowRoom r \<and> mCreatedAt x = rowCreatedAt r"
proof (cases c)
  case (PostgresDB u)
  then show ?thesis using assms(2) by (auto simp: postgres_tables postgres_row_def)
next
  case (SQLiteDB p)
  then obtain r where r: "r \<in> set (tblRows t)" "x = sqlite_row r" using assms(2) by (auto simp: sqlite_tables)
  then have "mCreatedAt x = rowCreatedAt r"
    using sqlite_row_key [of t r] assms(1) SQLiteDB by (simp add: sqlite_tables msg_key_def row_key_def)
  then show ?thesis using r by (auto simp: sqlite_row_def)
qed

text \<open>
  C28. Round trip through either database: a message saved without a fault, no older than what its room
  holds and with a timestamp at the precision of the table (for SQLite, in the 64-bit nanosecond range), is
  the last entry of its room's next history, exactly as the save returned it, id included.
\<close>

theorem saved_message_reads_back:
  assumes "table_valid c t" and "envFault env = NoFault" and "SaveMessage_of ts c env m t = (Inr m', t')"
    and "stamp_of ts c (mCreatedAt m') = mCreatedAt m'"
    and "\<forall>r \<in> set (tblRows t). rowRoom r = mRoom m \<longrightarrow> rowCreatedAt r \<le> mCreatedAt m'"
    and "0 < lim" and "RecentByRoom_of c env' (mRoom m) lim t' = Inr ms"
  shows "ms \<noteq> [] \<and> last ms = m'"
proof -
  note t' = saved_row [OF assms(1-4)]
  have "\<forall>x \<in> set (rows_of c t). mRoom x = mRoom m' \<longrightarrow> mCreatedAt x \<le> mCreatedAt m'"
    using assms(5) row_of_message [OF assms(1)] t'(3) by fastforce
  from last_latest [OF this, of "nat lim"] db_messages.recent_is_latest [OF t'(1) _ assms(7)] assms(6)
  show ?thesis by (simp add: t'(2,3))
qed

theorem saved_message_reads_back_witness:
  "\<exists>m' t' ms. SQLite_SaveMessage calm sample_message sample_table = (Inr m', t') \<and>
     SQLite_RecentByRoom calm ''r'' 3 t' = Inr ms \<and> last ms = m' \<and> mID m' = 5"
proof -
  obtain m' t' where save: "SQLite_SaveMessage calm sample_message sample_table = (Inr m', t')"
    and m': "mCreatedAt m' = 30" "mID m' = 5"
    by (simp add: SQLite_SaveMessage_def sample_defs stamped_def sql_insert_message_def
        IsZero_def zero_time_def zero_Message_def)
  obtain ms where ms: "SQLite_RecentByRoom calm (mRoom sample_message) 3 t' = Inr ms"
    using sqlite.recent_healthy [of calm 3] by (fastforce simp: calm_def)
  have "last ms = m'"
    using saved_message_reads_back [where c = "SQLiteDB ''''", unfolded sqlite_tables sqlite_chosen,
        OF sample_ok(1) _ save _ _ _ ms] m'
    by (simp add: calm_def sample_row_def sample_table_def sqlite_row_def Unix_nanos_def UnixNano_def)
  then show ?thesis using save ms m'(2) by (auto simp: sample_message_def)
qed

text \<open>
  The precision SQLite keeps: a saved message comes back with the timestamp that was
  reported for it exactly when that timestamp fits a signed 64-bit count of nanoseconds (years
  1678 to 2262); any other one comes back as a different instant.
\<close>

theorem sqlite_timestamp_survives_iff:
  assumes "sqlite_ok t" and "SQLite_SaveMessage env m t = (Inr m', t')"
  shows "mCreatedAt (last (map sqlite_row (tblRows t'))) = mCreatedAt m' \<longleftrightarrow> nano_range (mCreatedAt m')"
proof -
  obtain i where "map sqlite_row (tblRows t') = map sqlite_row (tblRows t) @
      [stored_as (\<lambda>t. Unix_nanos (UnixNano t)) (envNow env) i m]"
    and "m' = (stamped (envNow env) m)\<lparr>mID := mID m'\<rparr>"
    using sqlite.save_ok [OF assms] by blast
  then have "last (map sqlite_row (tblRows t')) = stored_as (\<lambda>t. Unix_nanos (UnixNano t)) (envNow env) i m"
    and "mCreatedAt m' = mCreatedAt (stamped (envNow env) m)"
    by (simp, metis Message.select_convs(6) Message.surjective Message.update_convs(1))
  then show ?thesis by (simp add: UnixNano_eq_iff)
qed

theorem sqlite_timestamp_survives_iff_witness:
  "\<exists>m' t'. SQLite_SaveMessage calm (sample_message\<lparr>mCreatedAt := 2 ^ 63\<rparr>) sample_table = (Inr m', t') \<and>
     mCreatedAt (last (map sqlite_row (tblRows t'))) \<noteq> mCreatedAt m'"
proof -
  obtain m' t' where save: "SQLite_SaveMessage calm (sample_message\<lparr>mCreatedAt := 2 ^ 63\<rparr>) sample_table = (Inr m', t')"
    and "mCreatedAt m' = 2 ^ 63"
    by (simp add: SQLite_SaveMessage_def sample_defs stamped_def sql_insert_message_def
        IsZero_def zero_time_def zero_Message_def)
  then show ?thesis
    using sqlite_timestamp_survives_iff [OF sample_ok(1) save] by (auto simp: nano_range_def)
qed

section \<open>The hub's history\<close>

text \<open>
  The history a joining client gets, over SQLite: never more than the limit, the newest
  messages of the room when the limit is positive, nothing and no query when it is not; an
  error only for a positive limit and a database fault, and then it names the room.
\<close>

theorem history_is_bounded_and_newest:
  assumes "sqlite_ok t"
  shows "case History (Some (\<lambda>rm lim. SQLite_RecentByRoom env rm lim t)) limit rm of
      Inl e \<Rightarrow> 0 < limit \<and> envFault env \<noteq> NoFault \<and> (\<exists>cause. e = LoadingHistory rm cause)
    | Inr ms \<Rightarrow> length ms \<le> nat limit \<and> is_history ms rm (max limit 0) (map sqlite_row (tblRows t))"
proof (cases "limit \<le> 0")
  case True
  then show ?thesis by (simp add: History_def is_history_def)
next
  case False
  then show ?thesis
    using sqlite.recent_ok [OF assms, of limit env rm] sqlite.recent_healthy [of env limit rm t]
      is_history_newest [of limit rm "map sqlite_row (tblRows t)"]
    by (auto simp: History_def length_newest split: sum.splits)
qed

theorem history_is_bounded_and_newest_witness:
  "case History (Some (\<lambda>rm lim. SQLite_RecentByRoom calm rm lim sample_table)) 2 ''r'' of
     Inl e \<Rightarrow> False | Inr ms \<Rightarrow> length ms \<le> 2"
  using history_is_bounded_and_newest [OF sample_ok(1), where env = calm and limit = 2 and rm = "''r''"]
  by (auto simp: calm_def split: sum.splits)

text \<open>
  On a negative limit the two stores part ways: SQLite reads it as no limit and returns
  the room's whole history, Postgres refuses the query.
\<close>

theorem negative_limit_differs:
  assumes "sqlite_ok t" and "lim < 0"
  shows "SQLite_RecentByRoom (env\<lparr>envFault := NoFault\<rparr>) rm lim t =
      Inr (newest (length (tblRows t)) rm (map sqlite_row (tblRows t))) \<and>
    Postgres_RecentByRoom env rm lim t = Inl (QueryingRecent rm)"
proof -
  let ?rs = "sql_select_recent rm t"
  have "length ?rs \<le> length (tblRows t)" by (simp add: sql_select_recent_def)
  then have "map sqlite_row (rev ?rs) = newest (length (tblRows t)) rm (map sqlite_row (tblRows t))"
    using query_newest [of t sqlite_row "length (tblRows t)" rm] sqlite_row_key [OF assms(1)]
    by (simp add: sqlite_row_def)
  then show ?thesis
    using assms(2) by (simp add: SQLite_RecentByRoom_def Postgres_RecentByRoom_def sqlite_limit_def
        scan_rows_no_fault rev_map)
qed

theorem negative_limit_differs_witness:
  "(\<exists>ms. SQLite_RecentByRoom (calm\<lparr>envFault := NoFault\<rparr>) ''r'' (-1) sample_table = Inr ms) \<and>
   Postgres_RecentByRoom calm ''r'' (-1) sample_table = Inl (QueryingRecent ''r'')"
  using negative_limit_differs [OF sample_ok(1), of "-1" calm "''r''"] by simp

section \<open>The two databases\<close>












section \<open>The worker's shutdown loop\<close>

text \<open>
  The drain loop returns exactly when the queue has not been closed, for every store; it
  then has offered every queued message to the store, in order, and leaves the queue empty.
\<close>

theorem drain_saves_everything_queued:
  "drain save env 0 p = (if chClosed (pIn p) then None
     else Some (p\<lparr>pIn := (pIn p)\<lparr>chBuf := []\<rparr>,
                 pStore := save_all save (tagged env 0 (chBuf (pIn p))) (pStore p)\<rparr>))"
  by (simp add: drain_open drain_closed)

end
