(* ===== verification/Hub_Props.thy ===== *)
theory Hub_Props
  imports Hub_Trace Config
begin

text \<open>
  The properties of the hub, each a corollary of the lemmas on its operations, with the
  concrete hub they are tried on: alice (1) and bob (2) connected and both in room
  \<open>''r''\<close>, queues of two frames, bob's empty (\<open>demo\<close>) or full (\<open>demo_slow\<close>).
\<close>

definition demo_client :: "cid \<Rightarrow> client" where
  "demo_client c = \<lparr>clID = (if c = 1 then ''7'' else ''8''),
     clName = (if c = 1 then ''alice'' else ''bob''), clSend = make_chan 2, clPingInterval = 30\<rparr>"

definition demo :: hub where
  "demo = (New demo_client (\<lambda>_. 0) (make_chan 4) 50)
     \<lparr>clients := [1, 2], rooms := [(''r'', \<lparr>rName = ''r'', members = [1, 2]\<rparr>)]\<rparr>"

definition full_chan :: "Envelope chan" where
  "full_chan = \<lparr>chBuf = [zero_Envelope, zero_Envelope], chCap = 2, chClosed = False\<rparr>"

definition demo_slow :: hub where
  "demo_slow = set_send 2 full_chan demo"

definition say :: "cid \<Rightarrow> string \<Rightarrow> string \<Rightarrow> command" where
  "say c rm txt = \<lparr>cmdKind = TypeMessage, cmdClient = c, cmdRoom = rm, cmdText = txt\<rparr>"

definition enter :: "cid \<Rightarrow> string \<Rightarrow> command" where
  "enter c rm = \<lparr>cmdKind = TypeJoin, cmdClient = c, cmdRoom = rm, cmdText = ''''\<rparr>"

definition depart :: "cid \<Rightarrow> string \<Rightarrow> command" where
  "depart c rm = \<lparr>cmdKind = TypeLeave, cmdClient = c, cmdRoom = rm, cmdText = ''''\<rparr>"

lemmas demo_defs = demo_def demo_client_def full_chan_def demo_slow_def say_def enter_def
  depart_def New_def make_chan_def set_send_def

lemma demo_inv [simp]: "hub_inv demo"
  by (auto simp: hub_inv_def rooms_ok_def demo_defs chan_ok_def)

lemma demo_slow_inv [simp]: "hub_inv demo_slow"
  by (auto simp: hub_inv_def rooms_ok_def demo_defs chan_ok_def)

lemma New_inv: "\<not> chClosed p \<Longrightarrow> chan_ok p \<Longrightarrow> hub_inv (New hp rnd p lim)"
  by (simp add: New_def hub_inv_def)

section \<open>Safety of the actor loop\<close>

text \<open>
  C5. No execution of the actor loop panics as long as clients register with an open queue
  and only registered clients join; every state it reaches satisfies the invariant: no
  client is listed twice, only connected clients are room members, every room is inhabited
  and filed under its own name, every connected client's queue is open and within bounds.
\<close>

theorem actor_loop_safe:
  assumes "hub_inv h" and "evs_ok evs h"
  shows "\<exists>h'. Run evs h = Inr h' \<and> hub_inv h'"
  using Run_inv [OF assms] .

theorem actor_loop_safe_witness:
  "\<exists>h'. Run [EvInbound (say 1 ''r'' ''hi'') 5 False, EvUnregister 2, EvTick] demo = Inr h' \<and> hub_inv h'"
proof -
  have "evs_ok [EvInbound (say 1 ''r'' ''hi'') 5 False, EvUnregister 2, EvTick] demo"
    by (simp add: ev_ok_def demo_defs go_simps)
  then show ?thesis by (rule actor_loop_safe [OF demo_inv])
qed

text \<open>
  C6. The actor refines the abstract chat: whatever the queues and loop orders, an event
  changes who is connected and who is in which room exactly as the specification says; a
  message evicts precisely the other members of its room whose queue is full.
\<close>

theorem actor_refines_chat:
  assumes "hub_inv h" and "ev_ok ev h" and "run_step ev h = Inr (st, h')"
  shows "chat_of h' = spec_step ev (slow_of ev h) (chat_of h)"
  using step_refines [OF assms] .

theorem actor_refines_chat_witness:
  "\<exists>h'. run_step (EvInbound (say 1 ''r'' ''hi'') 5 False) demo_slow = Inr (None, h') \<and>
     chat_of h' = \<lparr>connected = {1}, membership = {(''r'', 1)}\<rparr>"
proof -
  let ?ev = "EvInbound (say 1 ''r'' ''hi'') 5 False"
  have ok: "ev_ok ?ev demo_slow" by (simp add: ev_ok_def say_def go_simps)
  obtain h' where h': "run_step ?ev demo_slow = Inr (None, h')"
    by (simp add: demo_defs go_simps)
  have slow: "slow_of ?ev demo_slow = {2}"
    by (auto simp: slow_of_def slow_members_def demo_defs go_simps)
  have "chat_of demo_slow = \<lparr>connected = {1, 2}, membership = {(''r'', 1), (''r'', 2)}\<rparr>"
    by (auto simp: chat_of_def mem_of_def demo_defs)
  then have "chat_of h' = \<lparr>connected = {1}, membership = {(''r'', 1)}\<rparr>"
    unfolding actor_refines_chat [OF demo_slow_inv ok h'] slow
    by (auto simp: kick_def say_def go_simps)
  then show ?thesis using h' by blast
qed

text \<open>
  C19. A client that is still connected has missed nothing: over any execution of the actor
  loop, the chat messages appended to its queue are exactly those posted by others to rooms
  it was in at that moment, in the order the hub accepted them.
\<close>

theorem connected_client_gets_every_message:
  assumes "hub_inv h" and "evs_ok evs h" and "Run evs h = Inr h'" and "d \<in> set (clients h')"
  shows "posts (sendq h' d) = posts (sendq h d) @ along (\<lambda>ev h. addressed ev h d) evs h"
  using Run_posts [OF assms] .

theorem connected_client_gets_every_message_witness:
  "\<exists>h'. Run [EvInbound (say 1 ''r'' ''hi'') 5 False] demo = Inr h' \<and>
     posts (sendq h' 2) = [message_frame ''r'' (message_of (say 1 ''r'' ''hi'') 5 demo)]"
proof -
  let ?evs = "[EvInbound (say 1 ''r'' ''hi'') 5 False]"
  have ok: "evs_ok ?evs demo"
    by (simp add: ev_ok_def demo_defs go_simps)
  obtain h' where h': "Run ?evs demo = Inr h'" "2 \<in> set (clients h')"
    by (simp add: demo_defs go_simps)
  have "along (\<lambda>ev h. addressed ev h 2) ?evs demo =
      [message_frame ''r'' (message_of (say 1 ''r'' ''hi'') 5 demo)]"
    by (auto simp: addressed_def mem_of_def demo_defs Type_defs split: sum.split)
  moreover have "posts (sendq demo 2) = []"
    by (simp add: demo_defs)
  ultimately show ?thesis
    using connected_client_gets_every_message [OF demo_inv ok h'] h'(1) by auto
qed

section \<open>Slow clients\<close>

lemma dropped_sendq:
  assumes "dropped D h h'"
  obtains ys where "sendq h' c = sendq h c @ ys" "list_all is_left ys"
    "chan_ok (clSend (heap h c)) \<Longrightarrow> chan_ok (clSend (heap h' c))"
    "chCap (clSend (heap h' c)) = chCap (clSend (heap h c))"
proof -
  obtain hp rnd where h': "h' = h\<lparr>clients := filter (\<lambda>c. c \<notin> D) (clients h),
      rooms := without D (rooms h), heap := hp, rand := rnd\<rparr>"
    and e: "ext1 is_left (if c \<in> D then closed_client (heap h c) else heap h c) (hp c)"
    using assms unfolding dropped_def by blast
  from e show ?thesis
    using that unfolding h' by (auto simp: ext1_def closed_client_def chan_ok_def split: if_splits)
qed

lemma broadcast_outcome:
  fixes now :: gotime
  assumes "hub_inv h" and "map_of (rooms h) (cmdRoom cmd) = Some r"
    and "broadcast b now cmd h = Inr h'" and "d \<in> set (members r)" and "d \<noteq> cmdClient cmd"
  shows "if has_room h d
    then d \<in> set (clients h') \<and> (\<exists>ys. list_all is_left ys \<and>
      sendq h' d = sendq h d @ message_frame (cmdRoom cmd) (message_of cmd now h) # ys)
    else d \<notin> set (clients h') \<and> send_closed h' d \<and> sendq h' d = sendq h d"
proof -
  let ?f = "message_frame (cmdRoom cmd) (message_of cmd now h)"
  from broadcast_form [OF assms(1,2), where ctxDone = b and now = now] assms(3)
  obtain h1 p rnd0 rnd where h': "h' = h1\<lparr>persist := p, rand := rnd\<rparr>"
    and dr: "dropped (slow_members r (cmdClient cmd) h) (h\<lparr>messagesTotal := messagesTotal h + 1,
        heap := push_all (set (members r) - {cmdClient cmd}) ?f (heap h), rand := rnd0\<rparr>) h1"
    by auto
  obtain ys where ys: "sendq h1 d = chBuf (clSend (push ?f (heap h d))) @ ys" "list_all is_left ys"
    "chan_ok (clSend (push ?f (heap h d))) \<Longrightarrow> chan_ok (clSend (heap h1 d))"
    "chCap (clSend (heap h1 d)) = chCap (clSend (heap h d))"
    using dropped_sendq [OF dr, of d] assms(4,5) by (auto simp: push_all_def)
  have d: "d \<in> set (clients h)" "chan_ok (clSend (heap h d))"
    using hub_inv_room(2) [OF assms(1,2)] hub_invD(5) [OF assms(1)] assms(4) by auto
  have "ys = []" if "\<not> has_room h d"
    using that ys d(2) by (auto simp: push_def chan_ok_def chan_room_def)
  then show ?thesis
    using ys(1,2) d(1) dropped_queue(2,9) [OF dr] assms(4,5) unfolding h'
    by (auto simp: push_def slow_members_def)
qed

lemma broadcast_bystander:
  fixes now :: gotime
  assumes "hub_inv h" and "map_of (rooms h) (cmdRoom cmd) = Some r"
    and "broadcast b now cmd h = Inr h'" and "d \<notin> set (members r) - {cmdClient cmd}"
  shows "d \<in> set (clients h') = (d \<in> set (clients h)) \<and> send_closed h' d = send_closed h d \<and>
    (\<exists>ys. list_all is_left ys \<and> sendq h' d = sendq h d @ ys)"
proof -
  let ?f = "message_frame (cmdRoom cmd) (message_of cmd now h)"
  from broadcast_form [OF assms(1,2), where ctxDone = b and now = now] assms(3)
  obtain h1 p rnd0 rnd where h': "h' = h1\<lparr>persist := p, rand := rnd\<rparr>"
    and dr: "dropped (slow_members r (cmdClient cmd) h) (h\<lparr>messagesTotal := messagesTotal h + 1,
        heap := push_all (set (members r) - {cmdClient cmd}) ?f (heap h), rand := rnd0\<rparr>) h1"
    by auto
  have "push_all (set (members r) - {cmdClient cmd}) ?f (heap h) d = heap h d"
    using assms(4) by (auto simp: push_all_def)
  moreover have "d \<notin> slow_members r (cmdClient cmd) h" using assms(4) by (auto simp: slow_members_def)
  moreover obtain ys where "list_all is_left ys"
    "sendq h1 d = chBuf (clSend (push_all (set (members r) - {cmdClient cmd}) ?f (heap h) d)) @ ys"
    using dropped_sendq [OF dr, of d] by auto
  ultimately show ?thesis using dropped_queue(2,9) [OF dr] unfolding h' by auto
qed

text \<open>
  C20. One slow client never costs the others anything. Among the members of the room other than the sender: one whose
  queue has space gets the message and stays connected, one whose queue
  is full is disconnected and its queue closed with nothing more put into it. Everybody else, the
  sender even with a full queue included, stays connected or not as before, and is at most sent
  notices that a dropped member left.
\<close>

theorem slow_clients_are_isolated:
  fixes now :: gotime
  assumes "hub_inv h" and "map_of (rooms h) (cmdRoom cmd) = Some r"
    and "broadcast b now cmd h = Inr h'"
  shows "(\<forall>d \<in> set (members r) - {cmdClient cmd}.
      if has_room h d
      then d \<in> set (clients h') \<and> (\<exists>ys. list_all is_left ys \<and>
        sendq h' d = sendq h d @ message_frame (cmdRoom cmd) (message_of cmd now h) # ys)
      else d \<notin> set (clients h') \<and> send_closed h' d \<and> sendq h' d = sendq h d) \<and>
    (\<forall>d. d \<notin> set (members r) - {cmdClient cmd} \<longrightarrow>
      d \<in> set (clients h') = (d \<in> set (clients h)) \<and> send_closed h' d = send_closed h d \<and>
      (\<exists>ys. list_all is_left ys \<and> sendq h' d = sendq h d @ ys))"
  using broadcast_outcome [OF assms] broadcast_bystander [OF assms] by blast

theorem slow_clients_are_isolated_witness:
  "\<exists>h'. broadcast False 5 (say 1 ''r'' ''hi'') demo_slow = Inr h' \<and>
     2 \<notin> set (clients h') \<and> send_closed h' 2 \<and> sendq h' 2 = sendq demo_slow 2"
proof -
  have r: "map_of (rooms demo_slow) (cmdRoom (say 1 ''r'' ''hi'')) = Some \<lparr>rName = ''r'', members = [1, 2]\<rparr>"
    and full: "\<not> has_room demo_slow 2" and c: "cmdClient (say 1 ''r'' ''hi'') = 1"
    by (simp_all add: demo_defs chan_room_def)
  obtain h' where h': "broadcast False 5 (say 1 ''r'' ''hi'') demo_slow = Inr h'"
    using broadcast_inv [OF demo_slow_inv] by blast
  show ?thesis
    using slow_clients_are_isolated [OF demo_slow_inv r h'] full h' c by auto
qed

section \<open>Disconnecting\<close>

lemma disconnect_outcome:
  assumes "hub_inv h" and "c \<in> set (clients h)" and "disconnect c h = Inr h'"
  shows "c \<notin> set (clients h')" "send_closed h' c" "sendq h' c = sendq h c"
    "\<And>n. (n, c) \<notin> mem_of (rooms h')" "disconnect c h' = Inr h'"
    "\<And>d. d \<noteq> c \<Longrightarrow> \<not> shares (rooms h) c d \<Longrightarrow> heap h' d = heap h d"
    "\<And>d. d \<noteq> c \<Longrightarrow> \<exists>ys. sendq h' d = sendq h d @ ys \<and> list_all (left_frame (clName (heap h c))) ys"
proof -
  obtain hp rnd where h': "h' = h\<lparr>clients := removeAll c (clients h),
      rooms := without {c} (rooms h), heap := hp(c := closed_client (heap h c)), rand := rnd\<rparr>"
    and e: "ext (left_frame (clName (heap h c))) (heap h) hp"
    and f: "\<forall>d. \<not> shares (rooms h) c d \<longrightarrow> hp d = heap h d"
    using disconnect_form [OF assms(1,2)] assms(3) by auto
  show "c \<notin> set (clients h')" "send_closed h' c" "sendq h' c = sendq h c"
    "\<And>n. (n, c) \<notin> mem_of (rooms h')"
    "\<And>d. d \<noteq> c \<Longrightarrow> \<not> shares (rooms h) c d \<Longrightarrow> heap h' d = heap h d"
    "\<And>d. d \<noteq> c \<Longrightarrow> \<exists>ys. sendq h' d = sendq h d @ ys \<and> list_all (left_frame (clName (heap h c))) ys"
    using e f unfolding h' by (auto simp: closed_client_def mem_of_without ext_def ext1_def)
  then show "disconnect c h' = Inr h'" by (simp add: disconnect_absent)
qed

text \<open>
  Disconnecting is complete, quiet and idempotent: the client leaves the client set and
  every room and its queue is closed as it stands; the others are sent at most notices that
  this user left, and only those who shared a room with it; a second disconnect does nothing.
\<close>

theorem disconnect_complete_and_idempotent:
  assumes "hub_inv h" and "c \<in> set (clients h)" and "disconnect c h = Inr h'"
  shows "c \<notin> set (clients h') \<and> (\<forall>n. (n, c) \<notin> mem_of (rooms h')) \<and>
    send_closed h' c \<and> sendq h' c = sendq h c \<and>
    (\<forall>d. d \<noteq> c \<longrightarrow> (\<exists>ys. sendq h' d = sendq h d @ ys \<and> list_all (left_frame (clName (heap h c))) ys)) \<and>
    (\<forall>d. d \<noteq> c \<and> \<not> shares (rooms h) c d \<longrightarrow> sendq h' d = sendq h d) \<and>
    disconnect c h' = Inr h'"
  using disconnect_outcome [OF assms] by simp

theorem disconnect_complete_and_idempotent_witness:
  "\<exists>h'. disconnect 2 demo = Inr h' \<and> disconnect 2 h' = Inr h' \<and> send_closed h' 2"
proof -
  obtain h' where h': "disconnect 2 demo = Inr h'"
    using disconnect_dropped [OF demo_inv] by blast
  have "2 \<in> set (clients demo)" by (simp add: demo_defs)
  from disconnect_complete_and_idempotent [OF demo_inv this h'] h' show ?thesis by blast
qed

section \<open>Joining and leaving\<close>

lemma mset_set_members:
  assumes "hub_inv h" and "map_of (rooms h) n = Some r"
  shows "mset_set {d. (n, d) \<in> mem_of (rooms h)} = mset (members r)"
  using mem_of_member [OF assms] mset_set_set [OF hub_inv_room(1) [OF assms]] by simp

lemma push_all_queue:
  "chBuf (clSend (push_all A e hp d)) =
     chBuf (clSend (hp d)) @ (if d \<in> A \<and> chan_room (clSend (hp d)) then [e] else [])"
  by (simp add: push_all_def push_def)

lemma join_outcome:
  assumes "hub_inv h" and "cmdClient cmd \<in> set (clients h)"
  shows "\<exists>h' ns. join cmd h = Inr h' \<and>
    mem_of (rooms h') = insert (cmdRoom cmd, cmdClient cmd) (mem_of (rooms h)) \<and>
    mset ns = image_mset (\<lambda>d. clName (heap h d)) (mset_set {d. (cmdRoom cmd, d) \<in> mem_of (rooms h')}) \<and>
    (\<forall>d. sendq h' d = sendq h d @ (if (cmdRoom cmd, d) \<in> mem_of (rooms h') \<and> has_room h d
       then [presence_frame (cmdRoom cmd) (clName (heap h (cmdClient cmd))) True ns] else []))"
proof -
  let ?n = "cmdRoom cmd" and ?c = "cmdClient cmd"
  let ?r = "room_add ?c (room_or_new ?n h)"
  obtain h' where j: "join cmd h = Inr h'" "hub_inv h'"
    using join_inv [OF assms] by blast
  have h': "h' = h\<lparr>rooms := AList.update ?n ?r (rooms h), heap := push_all (set (members ?r))
      (presence_frame ?n (clName (heap h ?c)) True (names_in h ?r)) (heap h),
      rand := \<lambda>i. rand h (Suc (Suc i))\<rparr>"
    using j(1) join_form [OF assms] by simp
  have r: "map_of (rooms h') ?n = Some ?r"
    by (simp add: h' update_conv')
  have "mset (names_in h ?r) =
      image_mset (\<lambda>d. clName (heap h d)) (mset_set {d. (?n, d) \<in> mem_of (rooms h')})"
    unfolding mset_set_members [OF j(2) r] by (rule mset_names_in)
  moreover have "sendq h' d = sendq h d @ (if (?n, d) \<in> mem_of (rooms h') \<and> has_room h d
      then [presence_frame ?n (clName (heap h ?c)) True (names_in h ?r)] else [])" for d
    unfolding mem_of_member [OF j(2) r] by (simp add: h' push_all_queue)
  moreover have "mem_of (rooms h') = insert (?n, ?c) (mem_of (rooms h))"
    using mem_of_join [OF assms(1)] by (simp add: h')
  ultimately show ?thesis using j(1) by blast
qed

text \<open>
  A join by a connected client adds it to the room, creating the room if need be, and
  every member with space in its queue, the newcomer included, is sent one presence frame
  that lists the names of exactly the room's members after the join; nobody else is sent
  anything.
\<close>

theorem join_announces_members:
  assumes "hub_inv h" and "cmdClient cmd \<in> set (clients h)"
  shows "\<exists>h' ns. join cmd h = Inr h' \<and>
    mem_of (rooms h') = insert (cmdRoom cmd, cmdClient cmd) (mem_of (rooms h)) \<and>
    mset ns = image_mset (\<lambda>d. clName (heap h d)) (mset_set {d. (cmdRoom cmd, d) \<in> mem_of (rooms h')}) \<and>
    (\<forall>d. sendq h' d = sendq h d @ (if (cmdRoom cmd, d) \<in> mem_of (rooms h') \<and> has_room h d
       then [presence_frame (cmdRoom cmd) (clName (heap h (cmdClient cmd))) True ns] else []))"
  using join_outcome [OF assms] .

theorem join_announces_members_witness:
  "\<exists>h' ns. join (enter 1 ''new'') demo = Inr h' \<and> (''new'', 1) \<in> mem_of (rooms h') \<and>
     sendq h' 1 = [presence_frame ''new'' ''alice'' True ns] \<and> sendq h' 2 = []"
proof -
  have c: "cmdClient (enter 1 ''new'') \<in> set (clients demo)" by (simp add: demo_defs)
  have "has_room demo 1" "sendq demo 1 = []" "sendq demo 2 = []" "clName (heap demo 1) = ''alice''"
    "(''new'', 2) \<notin> mem_of (rooms demo)"
    by (simp_all add: demo_defs chan_room_def mem_of_def)
  then show ?thesis
    using join_announces_members [OF demo_inv c] by (fastforce simp: enter_def)
qed

text \<open>
  A join that reaches the actor after its client was disconnected is not ignored: the
  actor adds the client to the room and sends the presence frame to its closed queue, which
  panics on the actor goroutine. The membership guard that \<^verbatim>\<open>disconnect\<close> has is missing in
  \<^verbatim>\<open>join\<close>.
\<close>

theorem join_after_disconnect_panics:
  assumes "hub_inv h" and "cmdClient cmd \<in> set (clients h)" and "disconnect (cmdClient cmd) h = Inr h'"
  shows "join cmd h' = Inl (SendOnClosed (Some (cmdClient cmd)))"
proof (rule join_closed_panics)
  show "send_closed h' (cmdClient cmd)" using disconnect_outcome(2) [OF assms] .
  show "hub_inv h'"
    using disconnect_dropped [OF assms(1), of "cmdClient cmd"] hub_inv_dropped [OF assms(1)] assms(3)
    by auto
qed

theorem join_after_disconnect_panics_witness:
  "\<exists>h'. disconnect 2 demo = Inr h' \<and> join (enter 2 ''r'') h' = Inl (SendOnClosed (Some 2))"
proof -
  obtain h' where h': "disconnect (cmdClient (enter 2 ''r'')) demo = Inr h'"
    using disconnect_dropped [OF demo_inv] by blast
  have "cmdClient (enter 2 ''r'') \<in> set (clients demo)" by (simp add: demo_defs)
  from join_after_disconnect_panics [OF demo_inv this h'] h' show ?thesis
    by (simp add: enter_def)
qed

text \<open>
  A leave from a client that is not in the room still tells the room that it left: the
  membership does not change, yet every member with space is sent a departure notice.
\<close>

theorem leave_by_stranger_is_announced:
  assumes "hub_inv h" and "map_of (rooms h) (cmdRoom cmd) = Some r"
    and "cmdClient cmd \<notin> set (members r)"
  shows "\<exists>h' ns. leave cmd h = Inr h' \<and> rooms h' = rooms h \<and>
    (\<forall>d \<in> set (members r). has_room h d \<longrightarrow> sendq h' d = sendq h d @
       [presence_frame (cmdRoom cmd) (clName (heap h (cmdClient cmd))) False ns])"
proof -
  have "purge (cmdClient cmd) {cmdRoom cmd} (rooms h) = rooms h"
    using assms(2,3) by (intro purge_noop [OF hub_invD(2) [OF assms(1)]]) simp
  then show ?thesis
    using leave_form [OF assms(1,2)] assms(3) by (auto simp: push_all_queue)
qed

theorem leave_by_stranger_is_announced_witness:
  "\<exists>h' ns. leave (depart 3 ''r'') demo = Inr h' \<and> rooms h' = rooms demo \<and>
     sendq h' 1 = [presence_frame ''r'' ''bob'' False ns]"
proof -
  have r: "map_of (rooms demo) (cmdRoom (depart 3 ''r'')) = Some \<lparr>rName = ''r'', members = [1, 2]\<rparr>"
    "cmdClient (depart 3 ''r'') \<notin> set (members \<lparr>rName = ''r'', members = [1, 2]\<rparr>)"
    by (simp_all add: demo_defs)
  have "has_room demo 1" "sendq demo 1 = []" "clName (heap demo 3) = ''bob''"
    by (simp_all add: demo_defs chan_room_def)
  then show ?thesis
    using leave_by_stranger_is_announced [OF demo_inv r] by (fastforce simp: depart_def)
qed

section \<open>Snapshots, counters and limits\<close>

lemma room_names_inhabited:
  assumes "hub_inv h"
  shows "fst ` set (rooms h) = fst ` mem_of (rooms h)"
proof (intro equalityI subsetI)
  fix n assume "n \<in> fst ` set (rooms h)"
  then obtain r where r: "(n, r) \<in> set (rooms h)" by auto
  then obtain c where "c \<in> set (members r)"
    using hub_invD(2) [OF assms] by (cases "members r") (auto simp: rooms_ok_def)
  with r have "(n, c) \<in> mem_of (rooms h)" unfolding mem_of_def by blast
  then show "n \<in> fst ` mem_of (rooms h)" by force
next
  fix n assume "n \<in> fst ` mem_of (rooms h)"
  then obtain r where "(n, r) \<in> set (rooms h)" by (auto simp: mem_of_def)
  then show "n \<in> fst ` set (rooms h)" by force
qed

lemma room_size:
  assumes "hub_inv h" and "(n, r) \<in> set (rooms h)"
  shows "length (members r) = card {c. (n, c) \<in> mem_of (rooms h)}"
proof -
  have "map_of (rooms h) n = Some r"
    using hub_invD(2) [OF assms(1)] assms(2) by (simp add: rooms_ok_def)
  then show ?thesis
    using mem_of_member [OF assms(1)] hub_inv_room(1) [OF assms(1)] by (simp add: distinct_card)
qed

text \<open>
  C23. A snapshot reports the abstract chat: the number of connected clients, each inhabited
  room once with its number of members, and no other room.
\<close>

theorem snapshot_reports_chat:
  assumes "hub_inv h" and "snapshot h = (st, h')"
  shows "stConnections st = card (connected (chat_of h)) \<and> distinct (map riName (stRooms st)) \<and>
    set (map (\<lambda>i. (riName i, riMembers i)) (stRooms st)) =
      {(n, card {c. (n, c) \<in> membership (chat_of h)}) | n. n \<in> fst ` membership (chat_of h)} \<and>
    stMessagesTotal st = messagesTotal h \<and> stMessageRate st = messageRate h \<and>
    chat_of h' = chat_of h"
proof -
  have st: "stConnections st = length (clients h)" "stMessagesTotal st = messagesTotal h"
    "stMessageRate st = messageRate h" "h' = h\<lparr>rand := \<lambda>i. rand h (Suc i)\<rparr>"
    "stRooms st = map (\<lambda>(n, r). \<lparr>riName = n, riMembers = length (members r)\<rparr>) (shuffle (rand h 0) (rooms h))"
    using assms(2) by (auto simp: snapshot_def draw_def)
  have names: "map riName (stRooms st) = map fst (shuffle (rand h 0) (rooms h))"
    by (simp add: st(5) case_prod_beta)
  have "mset (map fst (shuffle (rand h 0) (rooms h))) = mset (map fst (rooms h))"
    unfolding mset_map mset_shuffle ..
  then have "distinct (map riName (stRooms st))"
    using hub_invD(2) [OF assms(1)] names by (metis mset_eq_imp_distinct_iff rooms_ok_def)
  moreover have "set (map (\<lambda>i. (riName i, riMembers i)) (stRooms st)) =
      (\<lambda>n. (n, card {c. (n, c) \<in> mem_of (rooms h)})) ` (fst ` set (rooms h))"
    using room_size [OF assms(1)] by (force simp: st(5) image_iff)
  ultimately show ?thesis
    using st(1-4) hub_invD(1) [OF assms(1)] room_names_inhabited [OF assms(1)]
    by (auto simp: distinct_card)
qed

theorem snapshot_reports_chat_witness:
  "distinct (map riName (stRooms (fst (snapshot demo)))) \<and> stConnections (fst (snapshot demo)) = 2"
proof -
  have "card (connected (chat_of demo)) = 2" by (simp add: demo_defs)
  then show ?thesis
    using snapshot_reports_chat [OF demo_inv, of "fst (snapshot demo)" "snd (snapshot demo)"] by simp
qed

lemma Run_append: "EvDone \<notin> set evs \<Longrightarrow> Run (evs @ fs) h = ebind (Run evs h) (Run fs)"
proof (induction evs arbitrary: h)
  case Nil
  then show ?case by simp
next
  case (Cons ev evs)
  then show ?case by (cases "run_step ev h") (auto split: prod.splits)
qed

text \<open>
  C24. The message counter counts the accepted messages (modulo \<open>2 ^ 64\<close>), and what the
  sampler publishes as the message rate is the number accepted since its previous tick.
\<close>

theorem rate_counts_accepted_messages:
  assumes "hub_inv h" and "evs_ok evs h" and "EvTick \<notin> set evs" and "EvDone \<notin> set evs"
    and "lastSampledTotal h = messagesTotal h" and "Run (evs @ [EvTick]) h = Inr h'"
  shows "messagesTotal h' = messagesTotal h + of_nat (length (along accepted evs h)) \<and>
    messageRate h' = of_nat (length (along accepted evs h)) \<and>
    lastSampledTotal h' = messagesTotal h'"
proof -
  obtain h1 where h1: "Run evs h = Inr h1" using Run_inv [OF assms(1,2)] by blast
  then have "h' = h1\<lparr>messageRate := messagesTotal h1 - lastSampledTotal h1,
      lastSampledTotal := messagesTotal h1\<rparr>"
    using assms(4,6) by (auto simp: Run_append)
  then show ?thesis
    using Run_counts [OF assms(1,2) h1] assms(3,5) by simp
qed

theorem rate_counts_accepted_messages_witness:
  "\<exists>h'. Run [EvInbound (say 1 ''r'' ''hi'') 5 False, EvTick] demo = Inr h' \<and> messageRate h' = 1"
proof -
  let ?evs = "[EvInbound (say 1 ''r'' ''hi'') 5 False]"
  have ok: "evs_ok ?evs demo" by (simp add: ev_ok_def demo_defs go_simps)
  obtain h' where h': "Run (?evs @ [EvTick]) demo = Inr h'"
    by (simp add: demo_defs go_simps)
  have "length (along accepted ?evs demo) = 1"
    by (simp add: accepted_def demo_defs Type_defs split: sum.split)
  moreover have "lastSampledTotal demo = messagesTotal demo" by (simp add: demo_defs)
  ultimately show ?thesis
    using rate_counts_accepted_messages [OF demo_inv ok _ _ _ h'] h' by auto
qed

text \<open>
  The hand-off to the persister never reorders or duplicates: over any execution the
  persistence queue grows by a subsequence of the accepted messages, within its capacity.
\<close>

theorem persist_queue_in_order:
  assumes "hub_inv h" and "evs_ok evs h" and "Run evs h = Inr h'"
  shows "\<exists>ys. chBuf (persist h') = chBuf (persist h) @ ys \<and> subseq ys (along accepted evs h) \<and>
    length (chBuf (persist h')) \<le> chCap (persist h)"
proof -
  have "chan_ok (persist h')"
    using Run_inv [OF assms(1,2)] assms(3) hub_invD(7) by auto
  then show ?thesis using Run_counts [OF assms] by (auto simp: chan_ok_def)
qed

theorem persist_queue_in_order_witness:
  "\<exists>h' ys. Run [EvInbound (say 1 ''r'' ''hi'') 5 False] demo = Inr h' \<and>
     chBuf (persist h') = chBuf (persist demo) @ ys \<and> subseq ys [message_of (say 1 ''r'' ''hi'') 5 demo]"
proof -
  let ?evs = "[EvInbound (say 1 ''r'' ''hi'') 5 False]"
  have ok: "evs_ok ?evs demo" by (simp add: ev_ok_def demo_defs go_simps)
  obtain h' where h': "Run ?evs demo = Inr h'" using Run_inv [OF demo_inv ok] by blast
  have "along accepted ?evs demo = [message_of (say 1 ''r'' ''hi'') 5 demo]"
    by (simp add: accepted_def demo_defs Type_defs split: sum.split)
  then show ?thesis
    using persist_queue_in_order [OF demo_inv ok h'] h' by auto
qed

lemma joins_accumulate:
  assumes "hub_inv h" and "c \<in> set (clients h)"
  shows "\<exists>h'. evs_ok (map (\<lambda>n. EvInbound (enter c n) now False) ns) h \<and>
    Run (map (\<lambda>n. EvInbound (enter c n) now False) ns) h = Inr h' \<and> hub_inv h' \<and>
    set ns \<times> {c} \<subseteq> mem_of (rooms h') \<and> mem_of (rooms h) \<subseteq> mem_of (rooms h')"
  using assms
proof (induction ns arbitrary: h)
  case Nil
  then show ?case by simp
next
  case (Cons n ns)
  let ?ev = "EvInbound (enter c n) now False"
  have ok: "ev_ok ?ev h" using Cons.prems(2) by (simp add: ev_ok_def enter_def)
  obtain st h1 where h1: "run_step ?ev h = Inr (st, h1)" "hub_inv h1"
    using run_step_inv [OF Cons.prems(1) ok] by blast
  have "chat_of h1 = (chat_of h)\<lparr>membership := insert (n, c) (mem_of (rooms h))\<rparr>"
    using step_refines [OF Cons.prems(1) ok h1(1)] by (simp add: enter_def)
  then have "connected (chat_of h1) = connected (chat_of h)"
    "membership (chat_of h1) = insert (n, c) (mem_of (rooms h))" by simp_all
  then have same: "set (clients h1) = set (clients h)" "mem_of (rooms h1) = insert (n, c) (mem_of (rooms h))"
    by simp_all
  have "c \<in> set (clients h1)" using same(1) Cons.prems(2) by simp
  from Cons.IH [OF h1(2) this] obtain h' where
    "evs_ok (map (\<lambda>n. EvInbound (enter c n) now False) ns) h1"
    "Run (map (\<lambda>n. EvInbound (enter c n) now False) ns) h1 = Inr h'" "hub_inv h'"
    "set ns \<times> {c} \<subseteq> mem_of (rooms h')" "mem_of (rooms h1) \<subseteq> mem_of (rooms h')" by blast
  moreover have "(n, c) \<in> mem_of (rooms h')" "mem_of (rooms h) \<subseteq> mem_of (rooms h')"
    using calculation(5) same(2) by auto
  ultimately show ?case using ok h1(1) by auto
qed

text \<open>
  C22. The configured room limit is not enforced by the hub: whatever limit a validated
  configuration carries, a single connected client can make the actor hold more rooms than
  that by joining enough of them, without any other event, and no command is refused on the way.
\<close>

theorem room_limit_is_not_enforced:
  assumes "Validate cfg = None" and "hub_inv h" and "c \<in> set (clients h)"
  shows "\<exists>ns evs h'. evs = map (\<lambda>n. EvInbound (enter c n) 0 False) ns \<and> evs_ok evs h \<and>
    Run evs h = Inr h' \<and> cfgMaxRooms cfg < int (length (rooms h'))"
proof -
  define ns where "ns = map (\<lambda>i. replicate i CHR ''r'') [0..<Suc (nat (cfgMaxRooms cfg))]"
  have "inj_on (\<lambda>i. replicate i CHR ''r'') A" for A :: "nat set"
    by (rule inj_onI) (metis length_replicate)
  then have ns: "card (set ns) = Suc (nat (cfgMaxRooms cfg))"
    by (simp add: ns_def card_image del: upt_Suc)
  obtain h' where h': "evs_ok (map (\<lambda>n. EvInbound (enter c n) 0 False) ns) h"
    "Run (map (\<lambda>n. EvInbound (enter c n) 0 False) ns) h = Inr h'" "hub_inv h'"
    "set ns \<times> {c} \<subseteq> mem_of (rooms h')"
    using joins_accumulate [OF assms(2,3)] by blast
  have "set ns \<subseteq> fst ` set (rooms h')"
    unfolding room_names_inhabited [OF h'(3)] using h'(4) by force
  then have "card (set ns) \<le> card (set (map fst (rooms h')))"
    by (intro card_mono) simp_all
  also have "\<dots> \<le> length (map fst (rooms h'))" by (rule card_length)
  finally have "cfgMaxRooms cfg < int (length (rooms h'))" using ns by simp
  with h'(1,2) show ?thesis by blast
qed

theorem room_limit_is_not_enforced_witness:
  "\<exists>evs h'. Run evs demo = Inr h' \<and> 256 < int (length (rooms h'))"
proof -
  have "1 \<in> set (clients demo)" by (simp add: demo_defs)
  from room_limit_is_not_enforced [OF Default_valid demo_inv this] show ?thesis
    by (auto simp: Default_def)
qed

end
