(* ===== verification/Pipeline_Props.thy ===== *)
theory Pipeline_Props
  imports Backend Hub_Props
begin

text \<open>
  What the hub and the persister guarantee together: everything that is stored was accepted,
  in the same order; nothing accepted is lost in the good case; and the shutdown race in
  which an accepted and delivered message is never stored.
\<close>

section \<open>An example server\<close>

definition office :: "msg_table server" where
  "office = hub.extend demo \<lparr>db = empty_table, ctxCancelled = False, persisterDone = False\<rparr>"

definition at_ease :: db_env where
  "at_ease = \<lparr>envNow = 30, envFault = NoFault\<rparr>"

abbreviation hello :: event where
  "hello \<equiv> EvInbound (say 1 ''r'' ''hi'') 5 False"

lemmas office_defs = office_def hub.extend_def at_ease_def empty_table_def demo_defs

lemma office_inv: "hub_inv office"
  by (simp add: hub_inv_def rooms_ok_def office_defs chan_ok_def)

lemma office_db: "db office = empty_table" "sqlite_ok empty_table"
  by (simp_all add: office_defs sqlite_ok_def table_ok_def)

lemmas turn_eval = office_defs go_simps hub_can_def worker_of_def put_worker_def chan_recv_def
  persist_save_def turn_ok_def accepts_def takes_def unhurried_def accepted_def

section \<open>What is stored\<close>

text \<open>
  C11. Under every interleaving of hub and persister in which only registered clients join (a late join of a dropped
  client can panic the hub, which is another property), whatever the faults of the configured database and the
  moment of shutdown: there is no panic, and what is stored, followed by what is still queued, is a subsequence of
  the messages queued before and accepted during the schedule, in that order. Nothing is
  stored twice, out of order or without having been accepted. The messages carry the wall clock, which is
  not the zero time.
\<close>

theorem stored_messages_are_accepted_in_order:
  assumes "hub_inv s" and "table_valid c (db s)" and "always (SaveMessage_of ts c) turn_ok ls s"
    and "schedule (SaveMessage_of ts c) ls s = Some r"
    and "dated (chBuf (persist s) @ during (SaveMessage_of ts c) accepts ls s)"
  shows "\<exists>s' xs. r = Inr s' \<and> table_valid c (db s') \<and>
    rows_of c (db s') = rows_of c (db s) @ xs \<and>
    subseq (map erase_id xs @ map (kept (stamp_of ts c)) (chBuf (persist s')))
      (map (kept (stamp_of ts c))
        (chBuf (persist s) @ during (SaveMessage_of ts c) accepts ls s))"
  using db_messages.schedule_stores [OF assms] .

lemma office_run:
  "\<exists>s'. schedule SQLite_SaveMessage [HubTurn hello, PersistTake at_ease] office = Some (Inr s')"
  by (simp add: turn_eval SQLite_SaveMessage_def sql_insert_message_def stamped_def IsZero_def
      zero_time_def)

lemma office_accepts:
  "during SQLite_SaveMessage accepts [HubTurn hello, PersistTake at_ease] office =
     [message_of (say 1 ''r'' ''hi'') 5 office]"
  by (simp add: turn_eval)

lemma office_dated:
  "dated (chBuf (persist office) @ [message_of (say 1 ''r'' ''hi'') 5 office])"
  by (simp add: dated_def turn_eval IsZero_def zero_time_def)

theorem stored_messages_are_accepted_in_order_witness:
  "\<exists>s' xs. schedule SQLite_SaveMessage [HubTurn hello, PersistTake at_ease] office = Some (Inr s') \<and>
     map sqlite_row (tblRows (db s')) = xs \<and>
     subseq (map erase_id xs)
       (map (kept (\<lambda>t. Unix_nanos (UnixNano t))) [message_of (say 1 ''r'' ''hi'') 5 office])"
proof -
  let ?ts = "[HubTurn hello, PersistTake at_ease]"
  obtain s1 where s1: "schedule SQLite_SaveMessage ?ts office = Some (Inr s1)"
    using office_run by blast
  have ok: "always SQLite_SaveMessage turn_ok ?ts office"
    by (simp add: turn_eval ev_ok_def)
  have "sqlite_ok (db office)" using office_db by simp
  from stored_messages_are_accepted_in_order [where c = "SQLiteDB ''''", unfolded sqlite_chosen sqlite_tables, OF office_inv this ok s1] office_accepts office_dated
  obtain xs where "map sqlite_row (tblRows (db s1)) = map sqlite_row (tblRows (db office)) @ xs"
    "subseq (map erase_id xs @ map (kept (\<lambda>t. Unix_nanos (UnixNano t))) (chBuf (persist s1)))
       (map (kept (\<lambda>t. Unix_nanos (UnixNano t))) (chBuf (persist office) @ [message_of (say 1 ''r'' ''hi'') 5 office]))"
    by (metis Inr_inject)
  moreover have "tblRows (db office) = []" "chBuf (persist office) = []" by (simp_all add: office_defs)
  ultimately have "map sqlite_row (tblRows (db s1)) = xs \<and> subseq (map erase_id xs)
      (map (kept (\<lambda>t. Unix_nanos (UnixNano t))) [message_of (say 1 ''r'' ''hi'') 5 office])"
    by (metis append_Nil list.map(1) subseq_prefixD)
  with s1 show ?thesis by blast
qed

text \<open>
  C9. Nothing accepted is lost when the queue never filled up, the context was live at every
  accepted message, every save was healthy and the persister stopped last: the table has
  gained exactly the messages queued and accepted, each once, in order.
\<close>

theorem everything_accepted_is_stored:
  assumes "hub_inv s" and "table_valid c (db s)"
    and "always (SaveMessage_of ts c) turn_ok (ls @ [PersistStop env]) s"
    and "schedule (SaveMessage_of ts c) (ls @ [PersistStop env]) s = Some r"
    and "always (SaveMessage_of ts c) unhurried (ls @ [PersistStop env]) s"
    and "dated (chBuf (persist s) @ during (SaveMessage_of ts c) accepts (ls @ [PersistStop env]) s)"
    and "saves_fine (SaveMessage_of ts c) (\<lambda>e. envFault e = NoFault) table_full
      (during (SaveMessage_of ts c) takes (ls @ [PersistStop env]) s) (db s)"
  shows "\<exists>s' xs. r = Inr s' \<and>
    rows_of c (db s') = rows_of c (db s) @ xs \<and>
    map erase_id xs = map (kept (stamp_of ts c))
      (chBuf (persist s) @ during (SaveMessage_of ts c) accepts (ls @ [PersistStop env]) s)"
  using db_messages.schedule_stores_all [OF assms] .

abbreviation good_end :: "db_env turn list" where
  "good_end \<equiv> [HubTurn hello, Cancel, HubTurn EvDone, PersistStop (\<lambda>_. at_ease)]"

theorem everything_accepted_is_stored_witness:
  "\<exists>s'. schedule SQLite_SaveMessage good_end office = Some (Inr s') \<and>
     map erase_id (map sqlite_row (tblRows (db s'))) =
       map (kept (\<lambda>t. Unix_nanos (UnixNano t))) [message_of (say 1 ''r'' ''hi'') 5 office]"
proof -
  let ?ts = "[HubTurn hello, Cancel, HubTurn EvDone]"
  obtain s1 where s1: "schedule SQLite_SaveMessage (?ts @ [PersistStop (\<lambda>_. at_ease)]) office = Some (Inr s1)"
    by (simp add: turn_eval drain_open)
  have ok: "always SQLite_SaveMessage turn_ok (?ts @ [PersistStop (\<lambda>_. at_ease)]) office"
    "always SQLite_SaveMessage unhurried (?ts @ [PersistStop (\<lambda>_. at_ease)]) office"
    by (simp_all add: turn_eval ev_ok_def drain_open)
  have acc: "during SQLite_SaveMessage accepts (?ts @ [PersistStop (\<lambda>_. at_ease)]) office =
      [message_of (say 1 ''r'' ''hi'') 5 office]"
    by (simp add: turn_eval drain_open)
  have fine: "saves_fine SQLite_SaveMessage (\<lambda>e. envFault e = NoFault) table_full
      (during SQLite_SaveMessage takes (?ts @ [PersistStop (\<lambda>_. at_ease)]) office) (db office)"
    by (simp add: turn_eval drain_open table_full_def)
  have "sqlite_ok (db office)" using office_db by simp
  from everything_accepted_is_stored [where c = "SQLiteDB ''''", unfolded sqlite_chosen sqlite_tables, OF office_inv this ok(1) s1 ok(2) _ fine] acc office_dated
  obtain xs where "map sqlite_row (tblRows (db s1)) = map sqlite_row (tblRows (db office)) @ xs"
    "map erase_id xs = map (kept (\<lambda>t. Unix_nanos (UnixNano t)))
       (chBuf (persist office) @ [message_of (say 1 ''r'' ''hi'') 5 office])"
    by (metis Inr_inject)
  moreover have "tblRows (db office) = []" "chBuf (persist office) = []" by (simp_all add: office_defs)
  ultimately have "map erase_id (map sqlite_row (tblRows (db s1))) =
      map (kept (\<lambda>t. Unix_nanos (UnixNano t))) [message_of (say 1 ''r'' ''hi'') 5 office]"
    by (metis append_Nil list.map(1))
  then show ?thesis using s1 by (auto simp del: schedule.simps)
qed

text \<open>
  C10. What a joining client is shown is what was said. Suppose only registered clients join, the queue had room and the
  context was live at every accepted message, every save was healthy, no message carries the zero time, and the
  persister has caught up. Then a healthy history query shows exactly the latest messages of the
  room, up to the limit (none for a limit that is not positive), of those stored before, queued before and accepted since: sorted by their time as
  the database keeps it, and by acceptance where times are equal. If the clock did not step back
  between the messages of the room, these are the last ones accepted, in the order they were accepted.
\<close>

theorem history_is_what_was_accepted:
  assumes "hub_inv s" and "table_valid c (db s)" and "always (SaveMessage_of ts c) turn_ok ls s"
    and "schedule (SaveMessage_of ts c) ls s = Some (Inr s')" and "chBuf (persist s') = []"
    and "always (SaveMessage_of ts c) unhurried ls s"
    and "dated (chBuf (persist s) @ during (SaveMessage_of ts c) accepts ls s)"
    and "saves_fine (SaveMessage_of ts c) (\<lambda>e. envFault e = NoFault) table_full
      (during (SaveMessage_of ts c) takes ls s) (db s)"
    and "envFault env = NoFault"
  shows "\<exists>ms. History (Some (\<lambda>rm lim. RecentByRoom_of c env rm lim (db s'))) (historyLimit s') rm = Inr ms \<and>
    (let said = map erase_id (rows_of c (db s)) @ map (kept (stamp_of ts c))
        (chBuf (persist s) @ during (SaveMessage_of ts c) accepts ls s);
       here = filter (\<lambda>m. mRoom m = rm) said in
     map erase_id ms = latest (nat (historyLimit s')) rm said \<and>
     (sorted (map mCreatedAt here) \<longrightarrow> map erase_id ms = last_n (nat (historyLimit s')) here))"
proof (cases "historyLimit s' \<le> 0")
  case True
  then show ?thesis by (simp add: History_def last_n_def)
next
  case False
  then have "0 \<le> historyLimit s'" by simp
  from db_messages.schedule_history [OF assms this, of rm] False show ?thesis
    by (auto simp: History_def Let_def latest_in_order)
qed

theorem history_is_what_was_accepted_witness:
  "\<exists>s' ms. schedule SQLite_SaveMessage [HubTurn hello, PersistTake at_ease] office = Some (Inr s') \<and>
     History (Some (\<lambda>rm lim. SQLite_RecentByRoom at_ease rm lim (db s'))) (historyLimit s') ''r'' = Inr ms \<and>
     map mContent ms = [''hi'']"
proof -
  let ?ts = "[HubTurn hello, PersistTake at_ease]" and ?m = "message_of (say 1 ''r'' ''hi'') 5 office"
  obtain s1 where s1: "schedule SQLite_SaveMessage ?ts office = Some (Inr s1)"
    "chBuf (persist s1) = []" "0 < historyLimit s1"
    by (simp add: turn_eval SQLite_SaveMessage_def sql_insert_message_def stamped_def IsZero_def zero_time_def)
  have ok: "always SQLite_SaveMessage turn_ok ?ts office" "always SQLite_SaveMessage unhurried ?ts office"
    by (simp_all add: turn_eval ev_ok_def)
  have fine: "saves_fine SQLite_SaveMessage (\<lambda>e. envFault e = NoFault) table_full
      (during SQLite_SaveMessage takes ?ts office) (db office)"
    by (simp add: turn_eval table_full_def)
  have o: "sqlite_ok (db office)" "tblRows (db office) = []" "chBuf (persist office) = []" "envFault at_ease = NoFault"
    using office_db by (simp_all add: office_defs)
  have m: "mContent ?m = ''hi''" "mRoom ?m = ''r''" by (simp_all add: message_of_def say_def)
  have acc: "chBuf (persist office) @ during SQLite_SaveMessage accepts ?ts office = [?m]"
    by (simp only: office_accepts o(3) append_Nil)
  have rows: "map sqlite_row (tblRows (db office)) = []" by (simp only: o(2) list.map)
  note h = history_is_what_was_accepted [where c = "SQLiteDB ''''", unfolded sqlite_chosen sqlite_tables, OF office_inv o(1) ok(1) s1(1,2) ok(2) _ fine o(4),
      of "''r''", unfolded acc rows append_Nil list.map]
  have "dated [?m]" using office_dated by (simp only: o(3) append_Nil)
  with h obtain ms where
    ms: "History (Some (\<lambda>rm lim. SQLite_RecentByRoom at_ease rm lim (db s1))) (historyLimit s1) ''r'' = Inr ms"
      "map erase_id ms = latest (nat (historyLimit s1)) ''r'' [kept (\<lambda>t. Unix_nanos (UnixNano t)) ?m]"
    unfolding Let_def by blast
  have "map mContent ms = map mContent (map erase_id ms)" by (simp add: erase_id_def)
  also have "\<dots> = [''hi'']" unfolding ms(2) using s1(3) m by (simp add: latest_def last_n_def kept_def)
  finally show ?thesis
    by (intro exI [of _ s1] exI [of _ ms] conjI s1(1) ms(1))
qed

section \<open>The shutdown race\<close>

text \<open>The run-time's choices are all even: every \<^verbatim>\<open>select\<close> with both cases ready sends to the queue.\<close>

definition even_draws :: "'a mem_scheme \<Rightarrow> bool" where
  "even_draws s \<longleftrightarrow> (\<forall>i. even (rand s i))"

lemma even_drawsD: "even_draws s \<Longrightarrow> draw s = (n, s') \<Longrightarrow> even n \<and> even_draws s'"
  by (auto simp: even_draws_def draw_def)

lemma enqueue_draws: "enqueue c e s = Inr (b, s') \<Longrightarrow> even_draws s' = even_draws s"
  by (auto simp: enqueue_def even_draws_def set_send_def simp: ebind_Inr_iff split: prod.splits)

lemma enqueue_each_draws: "enqueue_each cs e s = Inr s' \<Longrightarrow> even_draws s' = even_draws s"
  by (induction cs arbitrary: s) (auto simp: ebind_Inr_iff dest!: enqueue_draws)

lemma broadcastPresence_draws:
  "broadcastPresence r u j s = Inr s' \<Longrightarrow> even_draws s \<Longrightarrow> even_draws s'"
  by (auto simp: broadcastPresence_def room_names_def draw_def Let_def even_draws_def
      dest!: enqueue_each_draws [unfolded even_draws_def])

lemma leave_rooms_draws: "leave_rooms c ns h = Inr h' \<Longrightarrow> even_draws h \<Longrightarrow> even_draws h'"
proof (induction ns arbitrary: h)
  case (Cons n ns)
  show ?case
  proof (cases "\<exists>r. map_of (rooms h) n = Some r \<and> c \<in> set (members r)")
    case False
    then show ?thesis using Cons by (auto split: option.splits if_splits)
  next
    case True
    then obtain r h1 where r: "broadcastPresence (room_remove c r) (clName (heap h c)) False
        (h\<lparr>rooms := AList.update n (room_remove c r) (rooms h)\<rparr>) = Inr h1"
      "leave_rooms c ns (if room_empty (room_remove c r) then h1\<lparr>rooms := AList.delete n (rooms h1)\<rparr> else h1) = Inr h'"
      using Cons.prems(1) by (auto simp: Let_def simp: ebind_Inr_iff)
    have "even_draws h1"
      using broadcastPresence_draws [OF r(1)] Cons.prems(2) by (simp add: even_draws_def)
    then show ?thesis using Cons.IH [OF r(2)] by (simp add: even_draws_def)
  qed
qed simp

lemma disconnect_draws: "disconnect c h = Inr h' \<Longrightarrow> even_draws h \<Longrightarrow> even_draws h'"
proof -
  assume d: "disconnect c h = Inr h'" and e: "even_draws h"
  show "even_draws h'"
  proof (cases "c \<in> set (clients h)")
    case True
    then obtain n h2 h3 where 1: "draw (h\<lparr>clients := removeAll c (clients h)\<rparr>) = (n, h2)"
      "leave_rooms c (shuffle n (map fst (rooms h2))) h2 = Inr h3" "close_send c h3 = Inr h'"
      using d by (auto simp: disconnect_def Let_def simp: ebind_Inr_iff split: prod.splits)
    have "even_draws h2" using even_drawsD [OF _ 1(1)] e by (simp add: even_draws_def)
    with leave_rooms_draws [OF 1(2)] have "even_draws h3" .
    then show ?thesis using 1(3) by (auto simp: close_send_def set_send_def even_draws_def simp: ebind_Inr_iff)
  qed (use d e in \<open>simp add: disconnect_def\<close>)
qed

lemma disconnect_each_draws: "disconnect_each cs h = Inr h' \<Longrightarrow> even_draws h \<Longrightarrow> even_draws h'"
  by (induction cs arbitrary: h) (auto simp: ebind_Inr_iff dest: disconnect_draws)

lemma deliver_each_draws: "deliver_each cs e x s = Inr (slow, s') \<Longrightarrow> even_draws s' = even_draws s"
proof (induction cs arbitrary: s slow)
  case (Cons c cs)
  show ?case
  proof (cases "c = x")
    case False
    then obtain ok s1 slow1 where "enqueue c e s = Inr (ok, s1)" "deliver_each cs e x s1 = Inr (slow1, s')"
      using Cons.prems by (auto simp: ebind_Inr_iff)
    then show ?thesis using Cons.IH enqueue_draws by blast
  qed (use Cons in simp)
qed simp

lemma deliverMessage_draws:
  assumes "deliverMessage r e x h = Inr h'" and "even_draws h"
  shows "even_draws h'"
proof -
  obtain n h1 slow h2 where 1: "draw h = (n, h1)" "deliver_each (shuffle n (members r)) e x h1 = Inr (slow, h2)"
    "disconnect_each slow h2 = Inr h'"
    using assms(1) by (auto simp: deliverMessage_def ebind_Inr_iff split: prod.splits)
  have "even_draws h1" using even_drawsD [OF assms(2) 1(1)] by blast
  then show ?thesis using deliver_each_draws [OF 1(2)] disconnect_each_draws [OF 1(3)] by blast
qed

text \<open>With these choices the cold path hands over whenever the queue has room, cancelled or not.\<close>

lemma broadcast_queues:
  fixes now :: gotime
  assumes "hub_inv h" and "map_of (rooms h) (cmdRoom cmd) = Some r" and "chan_room (persist h)" and "even_draws h"
    and "broadcast b now cmd h = Inr h'"
  shows "chBuf (persist h') = chBuf (persist h) @ [message_of cmd now h]"
proof -
  let ?h = "h\<lparr>messagesTotal := messagesTotal h + 1\<rparr>"
  obtain h1 where d: "deliverMessage r (message_frame (cmdRoom cmd) (message_of cmd now ?h)) (cmdClient cmd) ?h = Inr h1"
    and o: "handoff b (message_of cmd now ?h) h1 = Inr h'"
    using assms(2,5) by (auto simp: broadcast_def Let_def simp: ebind_Inr_iff)
  have "hub_inv ?h" using assms(1) by (simp add: hub_inv_def)
  from deliverMessage_dropped [OF this, where n = "cmdRoom cmd" and r = r and x = "cmdClient cmd" and
      e = "message_frame (cmdRoom cmd) (message_of cmd now ?h)"] assms(2) d
  have p: "persist h1 = persist h" by (auto simp: dropped_def)
  have "even_draws h1" using deliverMessage_draws [OF d] assms(4) by (simp add: even_draws_def)
  then have "even (rand h1 0)" by (simp add: even_draws_def)
  moreover have "message_of cmd now ?h = message_of cmd now h" by (simp add: message_of_def)
  ultimately show ?thesis
    using o assms(3) p hub_invD(6) [OF assms(1)]
    by (auto simp: handoff_def draw_def Let_def chan_offer_def chan_room_def split: if_splits)
qed

text \<open>
  C12. Shutdown can lose an accepted message although the queue has room and the store is
  healthy. Once the context is cancelled, with both components still running and another member with room, this order is possible: the persister drains the queue and returns; the
  hub's loop takes one more message, delivers it to another member and, when both cases of the
  cold-path \<^verbatim>\<open>select\<close> are ready, the run-time picks the queue; then the hub returns. Both components have
  returned, the member has the message, it is alone in the queue that nobody reads any more, and the store
  has been offered exactly what was queued before.
\<close>

theorem shutdown_can_lose_a_message:
  assumes "hub_inv s" and "ctxCancelled s" and "\<not> hubDone s" and "\<not> persisterDone s"
    and "cmdKind cmd = TypeMessage" and "(cmdRoom cmd, d) \<in> mem_of (rooms s)"
    and "d \<noteq> cmdClient cmd" and "has_room s d" and "0 < chCap (persist s)"
  shows "\<exists>ls choices s'. ls = [PersistStop env, HubTurn (EvInbound cmd now True), HubTurn EvDone] \<and>
    schedule save ls (s\<lparr>rand := choices\<rparr>) = Some (Inr s') \<and>
    always save turn_ok ls (s\<lparr>rand := choices\<rparr>) \<and> hubDone s' \<and> persisterDone s' \<and>
    during save accepts ls (s\<lparr>rand := choices\<rparr>) = [message_of cmd now s] \<and>
    posts (sendq s' d) = posts (sendq s d) @ [message_frame (cmdRoom cmd) (message_of cmd now s)] \<and>
    chBuf (persist s') = [message_of cmd now s] \<and>
    db s' = save_all save (tagged env 0 (chBuf (persist s))) (db s)"
proof -
  let ?ls = "[PersistStop env, HubTurn (EvInbound cmd now True), HubTurn EvDone]"
  let ?ev = "EvInbound cmd now True" and ?s0 = "s\<lparr>rand := \<lambda>_. 0\<rparr>"
  let ?p = "(persist s)\<lparr>chBuf := []\<rparr>" and ?ms = "tagged env 0 (chBuf (persist s))"
  let ?s1 = "?s0\<lparr>persist := ?p, db := save_all save ?ms (db s), persisterDone := True\<rparr>"
  have inv0: "hub_inv ?s0" using assms(1) by (simp add: hub_inv_def)
  have "\<not> chClosed (pIn (worker_of ?s0))" using hub_invD(6) [OF assms(1)] by (simp add: worker_of_def)
  from drain_open [OF this, of save env 0] have 1: "take_turn save (PersistStop env) ?s0 = Some (Inr ?s1)"
    using assms(2,4) by (simp add: worker_of_def put_worker_def)
  have inv1: "hub_inv ?s1"
    using hub_inv_persist [OF inv0, of ?p] hub_invD(6) [OF assms(1)] by (simp add: chan_ok_def)
  have ok: "ev_ok ?ev ?s1" using assms(5) by (simp add: ev_ok_def Type_defs)
  obtain st s2 where 2: "run_step ?ev ?s1 = Inr (st, s2)" "hub_inv s2"
    using run_step_inv [OF inv1 ok] by blast
  have eff: "posts (sendq s2 d) = posts (sendq ?s1 d) @ (if has_room ?s1 d then addressed ?ev ?s1 d else [])"
    using run_step_effect [OF inv1 ok 2(1), of d] by (simp add: step_effect_def)
  obtain r where room: "map_of (rooms s) (cmdRoom cmd) = Some r"
    using assms(6) mem_of_iff [OF hub_invD(2) [OF assms(1)]] by auto
  have msg: "message_of cmd now ?s1 = message_of cmd now s"
    by (simp add: message_of_def)
  have "broadcast True now cmd ?s1 = Inr s2"
    using 2(1) assms(5) by (simp add: handle_def Type_defs ebind_Inr_iff)
  from broadcast_queues [OF inv1 _ _ _ this] room assms(9) msg
  have queue: "chBuf (persist s2) = [message_of cmd now s]"
    by (simp add: chan_room_def even_draws_def)
  have "posts (sendq s2 d) = posts (sendq s d) @ [message_frame (cmdRoom cmd) (message_of cmd now s)]"
    using eff assms(5-8) msg by (simp add: addressed_def)
  moreover have frame: "db s2 = db ?s1" "ctxCancelled s2" "persisterDone s2" "\<not> hubDone s2"
    using run_step_frame [OF inv1 ok 2(1)] assms(2,3) by simp_all
  moreover have "schedule save ?ls ?s0 = Some (Inr (s2\<lparr>hubDone := True\<rparr>))"
    using 1 2(1) frame(2,4) assms(2,3) by (simp add: hub_can_def del: take_turn.simps(3))
  moreover have "during save accepts ?ls ?s0 = [message_of cmd now s]"
    using 1 2(1) frame(2,4) assms(2,3,5) room msg
    by (simp add: hub_can_def accepts_def accepted_def del: take_turn.simps(3))
  moreover have "always save turn_ok ?ls ?s0"
    using 1 2(1) frame(2,4) assms(2,3) ok
    by (simp add: hub_can_def turn_ok_def ev_ok_def del: take_turn.simps(3))
  ultimately show ?thesis
    using queue by (intro exI [of _ ?ls] exI [of _ "\<lambda>_. 0"] exI [of _ "s2\<lparr>hubDone := True\<rparr>"]) simp
qed

theorem shutdown_can_lose_a_message_witness:
  "\<exists>ls choices s'. schedule SQLite_SaveMessage ls (office\<lparr>ctxCancelled := True, rand := choices\<rparr>) = Some (Inr s') \<and>
     hubDone s' \<and> persisterDone s' \<and> db s' = empty_table \<and>
     chBuf (persist s') = [message_of (say 1 ''r'' ''bye'') 5 office] \<and>
     posts (sendq s' 2) = [message_frame ''r'' (message_of (say 1 ''r'' ''bye'') 5 office)]"
proof -
  let ?s = "office\<lparr>ctxCancelled := True\<rparr>" and ?cmd = "say 1 ''r'' ''bye''"
  have s: "hub_inv ?s" using office_inv by simp
  have f: "ctxCancelled ?s" "\<not> hubDone ?s" "\<not> persisterDone ?s"
    by (simp_all add: office_defs)
  have c: "cmdKind ?cmd = TypeMessage" "(cmdRoom ?cmd, 2) \<in> mem_of (rooms ?s)" "2 \<noteq> cmdClient ?cmd"
    "has_room ?s 2" "0 < chCap (persist ?s)"
    by (simp_all add: office_defs mem_of_def chan_room_def)
  have e: "chBuf (persist ?s) = []" "db ?s = empty_table" "posts (sendq ?s 2) = []"
    "message_of ?cmd 5 ?s = message_of ?cmd 5 office" "cmdRoom ?cmd = ''r''"
    by (simp_all add: office_defs message_of_def)
  show ?thesis
    using shutdown_can_lose_a_message [OF s f c, where save = SQLite_SaveMessage and env = "\<lambda>_. at_ease" and now = 5]
    unfolding e by fastforce
qed

end
