(* ===== verification/Pumps.thy ===== *)
theory Pumps
  imports Hub_Trace Config
begin

text \<open>
  The goroutines of the server around the hub: per connection the HTTP handler, which runs the
  read pump inline, and the write pump (\<^verbatim>\<open>internal/hub/client.go\<close>, \<^verbatim>\<open>handleWS\<close> of
  \<^verbatim>\<open>internal/web/server.go\<close>), and the hub's loop. The channels \<^verbatim>\<open>register\<close>, \<^verbatim>\<open>unregister\<close>,
  \<^verbatim>\<open>inbound\<close> and \<^verbatim>\<open>query\<close> are unbuffered, so an exchange over one is a single step of sender and
  hub together. A step of the hub handles one event to its end. That is a
  simplification: in the program a write pump can receive, and a read pump can put a history into its
  client's queue, while the hub is in the middle of an event. While the hub delivers a chat message it
  touches each client's queue once before it turns to dropped members, so for one queue a receive in
  between has the effect of one before the event or after it; but executions in which such steps of several
  connections interleave within one event are not in the model, and which presence notices find room
  may differ in them.
\<close>

section \<open>State\<close>

text \<open>
  Where a connection's handler is: not yet accepted, blocked in \<^verbatim>\<open>Register\<close>, in \<^verbatim>\<open>conn.Read\<close>, in
  \<^verbatim>\<open>History\<close> for a join, blocked in \<^verbatim>\<open>Submit\<close>, blocked in the deferred \<^verbatim>\<open>Unregister\<close>, returned.
  And its write pump: not started, in its \<^verbatim>\<open>select\<close>, in \<^verbatim>\<open>conn.Write\<close>, returned.
\<close>

datatype reader =
    Unborn
  | Registering
  | Reading
  | Loading string
  | Submitting command
  | Unregistering
  | Gone

datatype writer = NotStarted | Selecting | Writing Envelope | Returned

text \<open>
  \<open>wire\<close> is what was written to each connection; \<open>recovered\<close> marks handlers that panicked
  (\<^verbatim>\<open>net/http\<close> recovers a handler's panic); \<open>crashed\<close> is the panic of the hub goroutine, which
  nothing recovers, so it ends the process. \<open>posted\<close> records, for the statements only, the
  messages the hub accepted for each client.
\<close>

record sys = hub +
  reader :: "cid \<Rightarrow> reader"
  writer :: "cid \<Rightarrow> writer"
  wire :: "cid \<Rightarrow> Envelope list"
  connOpen :: "cid \<Rightarrow> bool"
  recovered :: "cid \<Rightarrow> bool"
  ctxDone :: bool
  crashed :: "panic option"
  posted :: "cid \<Rightarrow> Envelope list"

definition boot :: "hub \<Rightarrow> sys" where
  "boot h = hub.extend h \<lparr>reader = \<lambda>_. Unborn, writer = \<lambda>_. NotStarted, wire = \<lambda>_. [],
     connOpen = \<lambda>_. True, recovered = \<lambda>_. False, ctxDone = False, crashed = None,
     posted = \<lambda>_. []\<rparr>"

section \<open>The read pump\<close>

text \<open>\<^verbatim>\<open>handleJoin\<close> begins: a join without a room is ignored, any other loads the history first.\<close>

definition handleJoin :: "string \<Rightarrow> reader" where
  [simp]: "handleJoin rm = (if rm = '''' then Reading else Loading rm)"

text \<open>The \<^verbatim>\<open>switch\<close> of \<^verbatim>\<open>readPump\<close>: what the pump does next with a frame it read.\<close>

definition readPump_switch :: "cid \<Rightarrow> Envelope \<Rightarrow> reader" where
  "readPump_switch c env =
     (if eType env = TypeJoin then handleJoin (eRoom env)
      else if eType env = TypeLeave then
        (if eRoom env = '''' then Reading
         else Submitting \<lparr>cmdKind = TypeLeave, cmdClient = c, cmdRoom = eRoom env, cmdText = ''''\<rparr>)
      else if eType env = TypeMessage then
        (if eRoom env = '''' \<or> eText env = '''' then Reading
         else Submitting \<lparr>cmdKind = TypeMessage, cmdClient = c, cmdRoom = eRoom env,
                cmdText = eText env\<rparr>)
      else Reading)"

text \<open>
  The part of \<^verbatim>\<open>handleJoin\<close> after the history has been loaded and before the join is
  submitted: it enqueues on the client's own queue, and ignores whether there was room.
\<close>

definition history_frame :: "string \<Rightarrow> Message list \<Rightarrow> Envelope" where
  "history_frame rm ms = zero_Envelope\<lparr>eType := TypeHistory, eRoom := rm, eHistory := ms\<rparr>"

definition error_frame :: "string \<Rightarrow> Envelope" where
  "error_frame rm = zero_Envelope\<lparr>eType := TypeError, eRoom := rm,
     eError := ''could not load history''\<rparr>"

definition handleJoin_enqueue ::
    "cid \<Rightarrow> string \<Rightarrow> 'e history_error + Message list \<Rightarrow> 'a mem_scheme \<Rightarrow> panic + 'a mem_scheme" where
  "handleJoin_enqueue c rm res s = (case res of
       Inl e \<Rightarrow> ebind (enqueue c (error_frame rm) s) (\<lambda>(_, s'). Inr s')
     | Inr ms \<Rightarrow> if ms = [] then Inr s
                 else ebind (enqueue c (history_frame rm ms) s) (\<lambda>(_, s'). Inr s'))"

definition join_command :: "cid \<Rightarrow> string \<Rightarrow> command" where
  "join_command c rm = \<lparr>cmdKind = TypeJoin, cmdClient = c, cmdRoom = rm, cmdText = ''''\<rparr>"

section \<open>Steps\<close>

text \<open>
  One step of one goroutine, or of two at a channel. The labels carry what comes from outside:
  the account of a new connection, the frame that was read, what the message store
  answered, the wall clock, whether a write succeeded. A ping that succeeds changes nothing and
  has no label. \<open>PersisterTakes\<close> is a receive from the hand-off queue by its reader.
\<close>

datatype 'e label =
    Connect cid string string
  | TakeRegister cid
  | ReadFrame cid Envelope
  | ReadFails cid
  | LoadHistory cid "'e + Message list"
  | TakeCommand cid gotime
  | TakeUnregister cid
  | Released cid
  | TakeQuery
  | Tick
  | CancelCtx
  | HubReturns
  | WriterTakes cid
  | WriteDone cid
  | WriteFails cid
  | PingFails cid
  | WriterCancelled cid
  | PersisterTakes

text \<open>The hub takes an event; \<open>after\<close> is what the exchange does to the other goroutine.\<close>

definition hub_takes :: "event \<Rightarrow> (sys \<Rightarrow> sys) \<Rightarrow> sys \<Rightarrow> sys option" where
  "hub_takes ev after s =
     (if hubDone s then None
      else (case run_step ev s of
              Inl p \<Rightarrow> Some (s\<lparr>crashed := Some p\<rparr>)
            | Inr (_, s') \<Rightarrow> Some (after (s'\<lparr>posted := \<lambda>d. posted s d @ addressed ev s d\<rparr>))))"

abbreviation goto_reader :: "cid \<Rightarrow> reader \<Rightarrow> sys \<Rightarrow> sys" where
  "goto_reader c pc s \<equiv> s\<lparr>reader := (reader s)(c := pc)\<rparr>"

abbreviation goto_writer :: "cid \<Rightarrow> writer \<Rightarrow> sys \<Rightarrow> sys" where
  "goto_writer c pc s \<equiv> s\<lparr>writer := (writer s)(c := pc)\<rparr>"

text \<open>The write pump returns: its deferred calls close the connection.\<close>

definition writer_exit :: "cid \<Rightarrow> sys \<Rightarrow> sys" where
  "writer_exit c s = s\<lparr>writer := (writer s)(c := Returned), connOpen := (connOpen s)(c := False)\<rparr>"

text \<open>\<^verbatim>\<open>Client.Run\<close>: the write pump is started, the read pump runs.\<close>

text \<open>
  The handler starts the write pump and goes on as the read pump. \<^verbatim>\<open>time.NewTicker\<close> panics on a
  ping interval that is not positive; \<^verbatim>\<open>Config.Validate\<close> refuses one before anything is started, so the
  case is left out here.
\<close>

definition client_Run :: "cid \<Rightarrow> sys \<Rightarrow> sys" where
  "client_Run c s = s\<lparr>reader := (reader s)(c := Reading), writer := (writer s)(c := Selecting)\<rparr>"

fun steps :: "Config \<Rightarrow> 'e label \<Rightarrow> sys \<Rightarrow> sys option" where
  "steps cfg (Connect c ident name) s = (if reader s c \<noteq> Unborn then None
     else (case NewClient ident name (cfgSendBuffer cfg) (cfgPingInterval cfg) of
             Inl p \<Rightarrow> Some (s\<lparr>reader := (reader s)(c := Gone), recovered := (recovered s)(c := True)\<rparr>)
           | Inr cl \<Rightarrow> Some (s\<lparr>heap := (heap s)(c := cl), reader := (reader s)(c := Registering)\<rparr>)))"
| "steps cfg (TakeRegister c) s = (if reader s c \<noteq> Registering then None
     else hub_takes (EvRegister c) (client_Run c) s)"
| "steps cfg (ReadFrame c env) s = (if reader s c \<noteq> Reading \<or> \<not> connOpen s c then None
     else Some (goto_reader c (readPump_switch c env) s))"
| "steps cfg (ReadFails c) s = (if reader s c \<noteq> Reading then None
     else Some (goto_reader c Unregistering s))"
| "steps cfg (LoadHistory c ans) s = (case reader s c of
       Loading rm \<Rightarrow>
         (case handleJoin_enqueue c rm (History (Some (\<lambda>_ _. ans)) (historyLimit s) rm) s of
            Inl p \<Rightarrow> Some (s\<lparr>reader := (reader s)(c := Unregistering), recovered := (recovered s)(c := True)\<rparr>)
          | Inr s' \<Rightarrow> Some (goto_reader c (Submitting (join_command c rm)) s'))
     | _ \<Rightarrow> None)"
| "steps cfg (TakeCommand c now) s = (case reader s c of
       Submitting cmd \<Rightarrow> hub_takes (EvInbound cmd now (ctxDone s)) (goto_reader c Reading) s
     | _ \<Rightarrow> None)"
| "steps cfg (TakeUnregister c) s = (if reader s c \<noteq> Unregistering then None
     else hub_takes (EvUnregister c) (goto_reader c Gone) s)"
| "steps cfg (Released c) s = (if \<not> hubDone s then None else (case reader s c of
       Registering \<Rightarrow> Some (client_Run c s)
     | Submitting cmd \<Rightarrow> Some (goto_reader c Reading s)
     | Unregistering \<Rightarrow> Some (goto_reader c Gone s)
     | _ \<Rightarrow> None))"
| "steps cfg TakeQuery s = hub_takes EvQuery (\<lambda>s. s) s"
| "steps cfg Tick s = hub_takes EvTick (\<lambda>s. s) s"
| "steps cfg CancelCtx s = Some (s\<lparr>ctxDone := True\<rparr>)"
| "steps cfg HubReturns s = (if ctxDone s then hub_takes EvDone (\<lambda>s. s) s else None)"
| "steps cfg (WriterTakes c) s = (if writer s c \<noteq> Selecting then None
     else (case chan_recv (clSend (heap s c)) of
             Received e ch \<Rightarrow> Some (goto_writer c (Writing e) (set_send c ch s))
           | ChanClosed \<Rightarrow> Some (writer_exit c s)
           | NotReady \<Rightarrow> None))"
| "steps cfg (WriteDone c) s = (case writer s c of
       Writing e \<Rightarrow> Some (s\<lparr>wire := (wire s)(c := wire s c @ [e]), writer := (writer s)(c := Selecting)\<rparr>)
     | _ \<Rightarrow> None)"
| "steps cfg (WriteFails c) s = (case writer s c of
       Writing e \<Rightarrow> Some (writer_exit c s) | _ \<Rightarrow> None)"
| "steps cfg (PingFails c) s = (if writer s c = Selecting then Some (writer_exit c s) else None)"
| "steps cfg (WriterCancelled c) s =
     (if writer s c = Selecting \<and> (ctxDone s \<or> reader s c = Gone) then Some (writer_exit c s) else None)"
| "steps cfg PersisterTakes s = (case chan_recv (persist s) of
       Received m ch \<Rightarrow> Some (s\<lparr>persist := ch\<rparr>) | _ \<Rightarrow> None)"

text \<open>A crashed process takes no step; an execution is a sequence of steps from a fresh server.\<close>

definition sys_step :: "Config \<Rightarrow> 'e label \<Rightarrow> sys \<Rightarrow> sys option" where
  "sys_step cfg l s = (if crashed s \<noteq> None then None else steps cfg l s)"

fun sys_run :: "Config \<Rightarrow> 'e label list \<Rightarrow> sys \<Rightarrow> sys option" where
  "sys_run cfg [] s = Some s"
| "sys_run cfg (l # ls) s = (case sys_step cfg l s of None \<Rightarrow> None | Some s' \<Rightarrow> sys_run cfg ls s')"

definition fresh :: "hub \<Rightarrow> bool" where
  "fresh h \<longleftrightarrow> clients h = [] \<and> rooms h = [] \<and> \<not> hubDone h \<and> \<not> chClosed (persist h) \<and> chan_ok (persist h)"

inductive reachable :: "Config \<Rightarrow> sys \<Rightarrow> bool" for cfg where
  booted: "fresh h \<Longrightarrow> reachable cfg (boot h)"
| stepped: "reachable cfg s \<Longrightarrow> sys_step cfg (l :: unit label) s = Some s' \<Longrightarrow> reachable cfg s'"

end
