(* ===== verification/Pumps_Inv.thy ===== *)
theory Pumps_Inv
  imports Pumps
begin

text \<open>
  The invariant of the concurrent server and its preservation by every step: the hub's own
  invariant, how the pumps' program counters relate to the hub's client set, and that what
  has been written to a connection, is being written and is still queued is, as far as chat
  messages go, a prefix of what was posted for the client, all of it while it is connected.
\<close>

section \<open>One connection\<close>

definition inflight :: "writer \<Rightarrow> Envelope list" where
  "inflight w = (case w of Writing e \<Rightarrow> [e] | _ \<Rightarrow> [])"

definition active :: "reader \<Rightarrow> bool" where
  "active pc \<longleftrightarrow> pc \<noteq> Unborn \<and> pc \<noteq> Registering \<and> pc \<noteq> Gone"

lemma pc_simps [simp]:
  "inflight NotStarted = []" "inflight Selecting = []" "inflight (Writing e) = [e]"
  "inflight Returned = []"
  "\<not> active Unborn" "\<not> active Registering" "\<not> active Gone" "active Reading" "active (Loading rm)"
  "active (Submitting cmd)" "active Unregistering"
  by (simp_all add: inflight_def active_def)

text \<open>
  The state of one connection, its control: whether the hub is done and has the client, its
  struct and both program counters.
\<close>

definition ctl_ok :: "Config \<Rightarrow> bool \<Rightarrow> bool \<Rightarrow> cid \<Rightarrow> client \<Rightarrow> reader \<Rightarrow> writer \<Rightarrow> bool" where
  "ctl_ok cfg dn isin c cl r w \<longleftrightarrow>
     (isin \<longrightarrow> (active r \<or> dn \<and> r = Gone) \<and> w \<noteq> NotStarted) \<and>
     (r = Unborn \<or> r = Registering \<longrightarrow> w = NotStarted) \<and>
     (r = Registering \<longrightarrow> \<not> chClosed (clSend cl) \<and> posts (chBuf (clSend cl)) = []) \<and>
     (r = Registering \<or> w \<noteq> NotStarted \<longrightarrow>
        chan_ok (clSend cl) \<and> chCap (clSend cl) = nat (cfgSendBuffer cfg)) \<and>
     (\<forall>cmd. r = Submitting cmd \<longrightarrow> cmdClient cmd = c) \<and>
     (active r \<and> \<not> dn \<longrightarrow> isin \<or> chClosed (clSend cl))"

text \<open>And its data: what went over the wire, what is on the way, what was posted.\<close>

definition flow :: "client \<Rightarrow> writer \<Rightarrow> Envelope list \<Rightarrow> Envelope list" where
  "flow cl w wr = posts (wr @ inflight w @ chBuf (clSend cl))"

definition data_ok :: "bool \<Rightarrow> client \<Rightarrow> writer \<Rightarrow> Envelope list \<Rightarrow> Envelope list \<Rightarrow> bool" where
  "data_ok isin cl w wr p \<longleftrightarrow>
     (w = NotStarted \<longrightarrow> wr = [] \<and> p = []) \<and>
     (w = Returned \<longrightarrow> prefix (posts wr) p) \<and>
     (w \<noteq> NotStarted \<and> w \<noteq> Returned \<longrightarrow> prefix (flow cl w wr) p \<and> (isin \<longrightarrow> flow cl w wr = p))"

lemma data_wire: "data_ok isin cl w wr p \<Longrightarrow> prefix (posts wr) p"
  unfolding data_ok_def flow_def by (cases w) (auto dest: append_prefixD)

text \<open>What a step of the hub does to a connection.\<close>

definition hub_moves :: "bool \<Rightarrow> bool \<Rightarrow> client \<Rightarrow> client \<Rightarrow> Envelope list \<Rightarrow> bool" where
  "hub_moves isin isin' cl cl' ad \<longleftrightarrow>
     ext1 (\<lambda>_. True) (if isin \<and> \<not> isin' then closed_client cl else cl) cl' \<and> (isin' \<longrightarrow> isin) \<and>
     posts (chBuf (clSend cl')) = posts (chBuf (clSend cl)) @ (if chan_room (clSend cl) then ad else []) \<and>
     (ad \<noteq> [] \<longrightarrow> isin \<and> (\<not> chan_room (clSend cl) \<longrightarrow> \<not> isin'))"

lemma hub_moves_chan:
  assumes "hub_moves isin isin' cl cl' ad"
  shows "chClosed (clSend cl') \<longleftrightarrow> (isin \<and> \<not> isin') \<or> chClosed (clSend cl)"
    "chCap (clSend cl') = chCap (clSend cl)" "chan_ok (clSend cl) \<Longrightarrow> chan_ok (clSend cl')"
  using assms by (auto simp: hub_moves_def ext1_def closed_client_def chan_ok_def split: if_splits)

lemma ctl_hub:
  assumes "ctl_ok cfg dn isin c cl r w" and "hub_moves isin isin' cl cl' ad" and "dn \<longrightarrow> dn'"
  shows "ctl_ok cfg dn' isin' c cl' r w"
proof -
  have reg: "r = Registering \<Longrightarrow> \<not> isin" using assms(1) by (auto simp: ctl_ok_def)
  then have "r = Registering \<Longrightarrow> ad = [] \<and> \<not> isin'" using assms(2) by (auto simp: hub_moves_def)
  moreover have "isin' \<longrightarrow> isin"
    "posts (chBuf (clSend cl')) = posts (chBuf (clSend cl)) @ (if chan_room (clSend cl) then ad else [])"
    using assms(2) by (simp_all add: hub_moves_def)
  ultimately show ?thesis
    using assms(1,3) reg hub_moves_chan [OF assms(2)] unfolding ctl_ok_def by auto
qed

lemma data_hub:
  assumes "data_ok isin cl w wr p" and "hub_moves isin isin' cl cl' ad" and "isin \<longrightarrow> w \<noteq> NotStarted"
  shows "data_ok isin' cl' w wr (p @ ad)"
proof -
  have f: "flow cl' w wr = flow cl w wr @ (if chan_room (clSend cl) then ad else [])"
    using assms(2) by (simp add: hub_moves_def flow_def)
  have i: "isin' \<longrightarrow> isin" "ad \<noteq> [] \<longrightarrow> isin \<and> (\<not> chan_room (clSend cl) \<longrightarrow> \<not> isin')"
    using assms(2) by (simp_all add: hub_moves_def)
  show ?thesis
  proof (cases "ad = []")
    case True
    then show ?thesis using assms(1) f i(1) by (simp add: data_ok_def)
  next
    case False
    then show ?thesis using assms(1,3) f i by (simp add: data_ok_def prefix_append)
  qed
qed

text \<open>The steps of the two pumps, each on its own part of the connection's state.\<close>

lemma ctl_reader:
  assumes "ctl_ok cfg dn isin c cl r w" and "active r" and "active r'"
    and "\<And>cmd. r' = Submitting cmd \<Longrightarrow> cmdClient cmd = c"
  shows "ctl_ok cfg dn isin c cl r' w"
  using assms unfolding ctl_ok_def by (auto simp: active_def)

lemma ctl_push:
  "ctl_ok cfg dn isin c cl r w \<Longrightarrow> active r \<Longrightarrow> ctl_ok cfg dn isin c (push e cl) r w"
  unfolding ctl_ok_def by (auto simp: active_def)

lemma data_push:
  assumes "data_ok isin cl w wr p" and "eType e \<noteq> TypeMessage"
  shows "data_ok isin (push e cl) w wr p"
proof -
  have "posts (chBuf (clSend (push e cl))) = posts (chBuf (clSend cl))"
    using assms(2) by (simp add: push_def posts_def)
  then have "flow (push e cl) w wr = flow cl w wr" by (simp add: flow_def)
  then show ?thesis using assms(1) by (simp add: data_ok_def)
qed

lemma recv_chan:
  assumes "chan_recv ch = Received e ch'"
  shows "chBuf ch = e # chBuf ch'" "chClosed ch' = chClosed ch" "chCap ch' = chCap ch"
  using assms by (auto simp: chan_recv_def split: list.splits if_splits)

lemma ctl_take:
  assumes "ctl_ok cfg dn isin c cl r Selecting" and "chan_recv (clSend cl) = Received e ch"
  shows "ctl_ok cfg dn isin c (cl\<lparr>clSend := ch\<rparr>) r (Writing e)"
  using assms(1) chan_recv_ok [OF _ assms(2)] recv_chan [OF assms(2)] unfolding ctl_ok_def by auto

lemma data_take:
  assumes "data_ok isin cl Selecting wr p" and "chan_recv (clSend cl) = Received e ch"
  shows "data_ok isin (cl\<lparr>clSend := ch\<rparr>) (Writing e) wr p"
proof -
  have "flow (cl\<lparr>clSend := ch\<rparr>) (Writing e) wr = flow cl Selecting wr"
    using recv_chan(1) [OF assms(2)] by (simp add: flow_def)
  then show ?thesis using assms(1) by (simp add: data_ok_def)
qed

lemma data_wrote: "data_ok isin cl (Writing e) wr p \<Longrightarrow> data_ok isin cl Selecting (wr @ [e]) p"
proof -
  have "flow cl Selecting (wr @ [e]) = flow cl (Writing e) wr" by (simp add: flow_def posts_def)
  then show "data_ok isin cl (Writing e) wr p \<Longrightarrow> data_ok isin cl Selecting (wr @ [e]) p"
    by (simp add: data_ok_def)
qed

lemma ctl_writer:
  "ctl_ok cfg dn isin c cl r w \<Longrightarrow> w \<noteq> NotStarted \<Longrightarrow> w' \<noteq> NotStarted \<Longrightarrow> ctl_ok cfg dn isin c cl r w'"
  unfolding ctl_ok_def by auto

lemma data_exit: "data_ok isin cl w wr p \<Longrightarrow> data_ok isin cl Returned wr p"
  using data_wire by (simp add: data_ok_def)

section \<open>The whole server\<close>

definition conn_ok :: "Config \<Rightarrow> sys \<Rightarrow> cid \<Rightarrow> bool" where
  "conn_ok cfg s c \<longleftrightarrow>
     ctl_ok cfg (hubDone s) (c \<in> set (clients s)) c (heap s c) (reader s c) (writer s c) \<and>
     data_ok (c \<in> set (clients s)) (heap s c) (writer s c) (wire s c) (posted s c)"

definition sys_inv :: "Config \<Rightarrow> sys \<Rightarrow> bool" where
  "sys_inv cfg s \<longleftrightarrow> hub_inv s \<and> (\<forall>c. conn_ok cfg s c)"

lemma sys_invD:
  assumes "sys_inv cfg s"
  shows "hub_inv s"
    and "ctl_ok cfg (hubDone s) (c \<in> set (clients s)) c (heap s c) (reader s c) (writer s c)"
    and "data_ok (c \<in> set (clients s)) (heap s c) (writer s c) (wire s c) (posted s c)"
  using assms by (auto simp: sys_inv_def conn_ok_def)

lemma hub_inv_sys [simp]:
  fixes s :: sys
  shows "hub_inv (s\<lparr>reader := a\<rparr>) = hub_inv s" "hub_inv (s\<lparr>writer := b\<rparr>) = hub_inv s"
    "hub_inv (s\<lparr>wire := d\<rparr>) = hub_inv s" "hub_inv (s\<lparr>connOpen := e\<rparr>) = hub_inv s"
    "hub_inv (s\<lparr>recovered := f\<rparr>) = hub_inv s" "hub_inv (s\<lparr>ctxDone := g\<rparr>) = hub_inv s"
    "hub_inv (s\<lparr>crashed := k\<rparr>) = hub_inv s" "hub_inv (s\<lparr>posted := l\<rparr>) = hub_inv s"
  by (simp_all add: hub_inv_def)

text \<open>A step confined to one connection is checked on that connection.\<close>

lemma sys_inv_local:
  assumes "sys_inv cfg s" and "hub_inv s'"
    and "hubDone s' = hubDone s" and "clients s' = clients s"
    and "\<And>d. d \<noteq> c \<Longrightarrow> heap s' d = heap s d \<and> reader s' d = reader s d \<and> writer s' d = writer s d \<and>
      wire s' d = wire s d \<and> posted s' d = posted s d"
    and "conn_ok cfg s' c"
  shows "sys_inv cfg s'"
proof -
  have "conn_ok cfg s' d" for d
    using assms(6) sys_invD(2,3) [OF assms(1), of d] assms(3-5) by (cases "d = c") (auto simp: conn_ok_def)
  then show ?thesis using assms(2) by (simp add: sys_inv_def)
qed

lemma hub_inv_client:
  assumes "hub_inv h" and "c \<in> set (clients h) \<longrightarrow> \<not> chClosed (clSend cl) \<and> chan_ok (clSend cl)"
  shows "hub_inv (h\<lparr>heap := (heap h)(c := cl)\<rparr>)"
  using assms unfolding hub_inv_def by auto

section \<open>The steps of the hub\<close>

lemma run_step_pumps:
  fixes s :: sys
  assumes "hub_inv s" and "ev_ok ev s" and "run_step ev s = Inr (st, s')"
  shows "reader s' = reader s" "writer s' = writer s" "wire s' = wire s" "posted s' = posted s"
    "crashed s' = crashed s" "ctxDone s' = ctxDone s" "hubDone s' = (hubDone s \<or> ev = EvDone)"
  using run_step_more [OF assms] by (cases s; cases s'; simp)+

lemma addressed_member: "hub_inv h \<Longrightarrow> addressed ev h d \<noteq> [] \<Longrightarrow> d \<in> set (clients h)"
  using hub_invD(3) by (fastforce simp: addressed_def mem_of_def split: event.splits if_splits)

lemma run_step_moves:
  assumes "hub_inv h" and "ev_ok ev h" and "run_step ev h = Inr (st, h')" and "\<And>c. ev \<noteq> EvRegister c"
  shows "hub_moves (c \<in> set (clients h)) (c \<in> set (clients h')) (heap h c) (heap h' c) (addressed ev h c)"
proof -
  have "connected (chat_of h') = connected (spec_step ev (slow_of ev h) (chat_of h))"
    using step_refines [OF assms(1-3)] by simp
  moreover have "connected (spec_step ev (slow_of ev h) (chat_of h)) \<subseteq> set (clients h)"
    using assms(4) by (cases ev) (auto simp: kick_def)
  ultimately have "c \<in> set (clients h') \<longrightarrow> c \<in> set (clients h)" by auto
  moreover have "ext1 (\<lambda>_. True) (if c \<in> set (clients h) \<and> c \<notin> set (clients h')
      then closed_client (heap h c) else heap h c) (heap h' c)"
    using run_step_client [OF assms(1-3), of c] by (simp add: client_kept_def)
  moreover have "posts (sendq h' c) = posts (sendq h c) @ (if has_room h c then addressed ev h c else [])"
    "addressed ev h c \<noteq> [] \<and> \<not> has_room h c \<longrightarrow> c \<notin> set (clients h')"
    using run_step_effect [OF assms(1-3), of c] by (simp_all add: step_effect_def)
  ultimately show ?thesis
    using addressed_member [OF assms(1), of ev c] by (simp add: hub_moves_def)
qed

lemma sys_inv_hub:
  fixes s :: sys
  assumes "sys_inv cfg s" and "ev_ok ev s" and "run_step ev s = Inr (st, s')"
    and "\<And>c. ev \<noteq> EvRegister c"
  shows "sys_inv cfg (s'\<lparr>posted := \<lambda>d. posted s d @ addressed ev s d\<rparr>)"
proof -
  have inv: "hub_inv s" using sys_invD(1) [OF assms(1)] .
  obtain st1 s1 where "run_step ev s = Inr (st1, s1)" "hub_inv s1"
    using run_step_inv [OF inv assms(2)] by blast
  then have inv': "hub_inv s'" using assms(3) by simp
  note fr = run_step_pumps [OF inv assms(2,3)]
  have "conn_ok cfg (s'\<lparr>posted := \<lambda>d. posted s d @ addressed ev s d\<rparr>) c" for c
  proof -
    have m: "hub_moves (c \<in> set (clients s)) (c \<in> set (clients s')) (heap s c) (heap s' c) (addressed ev s c)"
      by (rule run_step_moves [OF inv assms(2-4)])
    have "c \<in> set (clients s) \<longrightarrow> writer s c \<noteq> NotStarted"
      using sys_invD(2) [OF assms(1), of c] by (simp add: ctl_ok_def)
    from ctl_hub [OF sys_invD(2) [OF assms(1)] m] data_hub [OF sys_invD(3) [OF assms(1)] m this]
    show ?thesis using fr by (simp add: conn_ok_def)
  qed
  then show ?thesis using inv' by (simp add: sys_inv_def)
qed

text \<open>
  A command that reaches the hub's loop is either safe to handle, or it is the join of a client
  that has been dropped in the meantime, and then it panics.
\<close>

lemma command_ok_or_panic:
  assumes "sys_inv cfg s" and "reader s c = Submitting cmd" and "\<not> hubDone s"
  shows "ev_ok (EvInbound cmd now b) s \<or>
    cmdKind cmd = TypeJoin \<and> cmdClient cmd = c \<and> c \<notin> set (clients s) \<and> send_closed s c \<and>
    run_step (EvInbound cmd now b) s = Inl (SendOnClosed (Some c))"
proof -
  have c: "cmdClient cmd = c" "c \<in> set (clients s) \<or> send_closed s c"
    using sys_invD(2) [OF assms(1), of c] assms(2,3) by (auto simp: ctl_ok_def)
  show ?thesis
  proof (cases "ev_ok (EvInbound cmd now b) s")
    case False
    then have j: "cmdKind cmd = TypeJoin" "c \<notin> set (clients s)" by (auto simp: ev_ok_def c(1))
    then have "join cmd s = Inl (SendOnClosed (Some c))"
      using join_closed_panics [OF sys_invD(1) [OF assms(1)], of cmd] c by simp
    then show ?thesis using j c by (simp add: handle_def)
  qed simp
qed

lemma sys_inv_crashed [simp]: "sys_inv cfg (s\<lparr>crashed := p\<rparr>) = sys_inv cfg s"
  by (simp add: sys_inv_def conn_ok_def)

lemma hub_takes_inv:
  assumes "sys_inv cfg s" and "hub_takes ev after s = Some s'" and "\<And>c. ev \<noteq> EvRegister c"
    and "\<not> hubDone s \<Longrightarrow> ev_ok ev s \<or> (\<exists>p. run_step ev s = Inl p)"
    and "\<And>st t. run_step ev s = Inr (st, t) \<Longrightarrow> ev_ok ev s \<Longrightarrow> reader t = reader s \<Longrightarrow>
      sys_inv cfg (t\<lparr>posted := \<lambda>d. posted s d @ addressed ev s d\<rparr>) \<Longrightarrow>
      sys_inv cfg (after (t\<lparr>posted := \<lambda>d. posted s d @ addressed ev s d\<rparr>))"
  shows "sys_inv cfg s'"
proof (cases "run_step ev s")
  case (Inl p)
  then show ?thesis using assms(1,2) by (auto simp: hub_takes_def split: if_splits)
next
  case (Inr x)
  obtain st t where x: "x = (st, t)" by fastforce
  have ok: "ev_ok ev s" and s': "s' = after (t\<lparr>posted := \<lambda>d. posted s d @ addressed ev s d\<rparr>)"
    using assms(2,4) Inr x by (auto simp: hub_takes_def split: if_splits)
  show ?thesis
    using assms(5) [OF Inr [unfolded x] ok] sys_inv_hub [OF assms(1) ok Inr [unfolded x] assms(3)]
      run_step_pumps(1) [OF sys_invD(1) [OF assms(1)] ok Inr [unfolded x]] s' by simp
qed

lemma sys_inv_reader:
  assumes "sys_inv cfg s" and "active (reader s c)" and "active pc"
    and "\<And>cmd. pc = Submitting cmd \<Longrightarrow> cmdClient cmd = c"
  shows "sys_inv cfg (goto_reader c pc s)"
proof (rule sys_inv_local [where c = c, OF assms(1)])
  show "conn_ok cfg (goto_reader c pc s) c"
    using ctl_reader [OF sys_invD(2) [OF assms(1)] assms(2-4)] sys_invD(3) [OF assms(1)]
    by (simp add: conn_ok_def)
qed (use sys_invD(1) [OF assms(1)] in auto)

lemma sys_inv_exit:
  assumes "sys_inv cfg s" and "writer s c \<noteq> NotStarted"
  shows "sys_inv cfg (writer_exit c s)"
proof (rule sys_inv_local [where c = c, OF assms(1)])
  show "conn_ok cfg (writer_exit c s) c"
    using ctl_writer [OF sys_invD(2) [OF assms(1)] assms(2), of Returned] data_exit [OF sys_invD(3) [OF assms(1)]]
    by (simp add: conn_ok_def writer_exit_def)
qed (use sys_invD(1) [OF assms(1)] in \<open>auto simp: writer_exit_def\<close>)

section \<open>Every step keeps the invariant\<close>

lemma inv_Connect:
  assumes "sys_inv cfg s" and "steps cfg (Connect c ident name) s = Some s'"
  shows "sys_inv cfg s'"
proof (cases "NewClient ident name (cfgSendBuffer cfg) (cfgPingInterval cfg)")
  case (Inl p)
  then show ?thesis
    using assms sys_invD(2,3) [OF assms(1), of c]
    by (intro sys_inv_local [where c = c, OF assms(1)])
      (auto simp: conn_ok_def ctl_ok_def data_ok_def sys_invD(1) split: if_splits)
next
  case (Inr cl)
  have cl: "clSend cl = make_chan (nat (cfgSendBuffer cfg))"
    using Inr by (auto simp: NewClient_def split: if_splits)
  have u: "reader s c = Unborn" and s': "s' = s\<lparr>heap := (heap s)(c := cl), reader := (reader s)(c := Registering)\<rparr>"
    using assms(2) Inr by (simp_all split: if_splits)
  have out: "c \<notin> set (clients s)" "writer s c = NotStarted"
    using sys_invD(2) [OF assms(1), of c] u by (auto simp: ctl_ok_def)
  show ?thesis
  proof (rule sys_inv_local [where c = c, OF assms(1)])
    show "hub_inv s'" using hub_inv_client [OF sys_invD(1) [OF assms(1)]] out(1) by (simp add: s')
    show "conn_ok cfg s' c"
      using out sys_invD(3) [OF assms(1), of c] by (simp add: s' conn_ok_def ctl_ok_def data_ok_def cl)
  qed (auto simp: s')
qed

lemma sys_inv_start:
  assumes "sys_inv cfg s" and "reader s c = Registering" and "isin \<or> hubDone s"
  shows "sys_inv cfg (client_Run c (if isin then s\<lparr>clients := List.insert c (clients s)\<rparr> else s))"
    (is "sys_inv cfg ?s'")
proof -
  have c: "c \<notin> set (clients s)" "\<not> send_closed s c" "posts (sendq s c) = []"
    "chan_ok (clSend (heap s c))" "chCap (clSend (heap s c)) = nat (cfgSendBuffer cfg)"
    "wire s c = []" "posted s c = []"
    using sys_invD(2,3) [OF assms(1), of c] assms(2) by (auto simp: ctl_ok_def data_ok_def)
  have "hub_inv ?s'"
    using hub_inv_register [OF sys_invD(1) [OF assms(1)] c(2,4)] sys_invD(1) [OF assms(1)]
    by (simp add: client_Run_def)
  moreover have "conn_ok cfg ?s' d" for d
  proof (cases "d = c")
    case True
    then show ?thesis
      using c assms(3) by (auto simp: conn_ok_def client_Run_def ctl_ok_def data_ok_def flow_def)
  next
    case False
    then show ?thesis
      using sys_invD(2,3) [OF assms(1), of d] by (auto simp: conn_ok_def client_Run_def)
  qed
  ultimately show ?thesis by (simp add: sys_inv_def)
qed

lemma inv_TakeRegister:
  assumes "sys_inv cfg s" and "steps cfg (TakeRegister c) s = Some s'"
  shows "sys_inv cfg s'"
proof -
  have "reader s c = Registering" "s' = client_Run c (s\<lparr>clients := List.insert c (clients s)\<rparr>)"
    using assms(2) by (simp_all add: hub_takes_def addressed_def split: if_splits)
  then show ?thesis using sys_inv_start [OF assms(1), of c True] by simp
qed

lemma inv_Released:
  assumes "sys_inv cfg s" and "steps cfg (Released c) s = Some s'"
  shows "sys_inv cfg s'"
proof -
  have dn: "hubDone s" using assms(2) by (auto split: if_splits)
  consider (r) "reader s c = Registering" "s' = client_Run c s"
    | (q) cmd where "reader s c = Submitting cmd" "s' = goto_reader c Reading s"
    | (u) "reader s c = Unregistering" "s' = goto_reader c Gone s"
    using assms(2) dn by (cases "reader s c") simp_all
  then show ?thesis
  proof cases
    case r
    then show ?thesis using sys_inv_start [OF assms(1), of c False] dn by simp
  next
    case q
    then show ?thesis using sys_inv_reader [OF assms(1), of c Reading] by simp
  next
    case u
    show ?thesis
    proof (rule sys_inv_local [where c = c, OF assms(1)])
      show "conn_ok cfg s' c"
        using sys_invD(2,3) [OF assms(1), of c] by (simp add: u dn conn_ok_def ctl_ok_def)
    qed (use sys_invD(1) [OF assms(1)] in \<open>simp_all add: u\<close>)
  qed
qed

lemma handleJoin_cases:
  obtains "handleJoin_enqueue c rm res s = Inr s"
  | "send_closed s c" "handleJoin_enqueue c rm res s = Inl (SendOnClosed (Some c))"
  | e where "eType e \<noteq> TypeMessage"
    "handleJoin_enqueue c rm res s = Inr (s\<lparr>heap := (heap s)(c := push e (heap s c))\<rparr>)"
proof (cases res)
  case (Inl x)
  then show ?thesis
    using that(2) that(3) [of "error_frame rm"]
    by (cases "send_closed s c")
      (auto simp: handleJoin_enqueue_def enqueue_closed enqueue_open error_frame_def Type_defs)
next
  case (Inr ms)
  then show ?thesis
    using that(1,2) that(3) [of "history_frame rm ms"]
    by (cases "send_closed s c"; cases "ms = []")
      (auto simp: handleJoin_enqueue_def enqueue_closed enqueue_open history_frame_def Type_defs)
qed

lemma sys_inv_push:
  assumes "sys_inv cfg s" and "active (reader s c)" and "eType e \<noteq> TypeMessage"
  shows "sys_inv cfg (s\<lparr>heap := (heap s)(c := push e (heap s c))\<rparr>)"
proof (rule sys_inv_local [where c = c, OF assms(1)])
  show "hub_inv (s\<lparr>heap := (heap s)(c := push e (heap s c))\<rparr>)"
    using hub_inv_client [OF sys_invD(1) [OF assms(1)]] hub_invD(4,5) [OF sys_invD(1) [OF assms(1)]]
    by simp
  show "conn_ok cfg (s\<lparr>heap := (heap s)(c := push e (heap s c))\<rparr>) c"
    using ctl_push [OF sys_invD(2) [OF assms(1)] assms(2)] data_push [OF sys_invD(3) [OF assms(1)] assms(3)]
    by (simp add: conn_ok_def)
qed auto

lemma inv_LoadHistory:
  assumes "sys_inv cfg s" and "steps cfg (LoadHistory c ans) s = Some s'"
  shows "sys_inv cfg s'"
proof -
  obtain rm where r: "reader s c = Loading rm" using assms(2) by (auto split: reader.splits)
  let ?res = "History (Some (\<lambda>_ _. ans)) (historyLimit s) rm"
  have recov: "sys_inv cfg (t\<lparr>recovered := x\<rparr>) = sys_inv cfg t" for t x
    by (simp add: sys_inv_def conn_ok_def)
  show ?thesis
  proof (cases rule: handleJoin_cases [of c rm ?res s])
    case 1
    then show ?thesis
      using assms r sys_inv_reader [OF assms(1), of c "Submitting (join_command c rm)"]
      by (auto simp: join_command_def)
  next
    case 2
    then have "s' = (goto_reader c Unregistering s)\<lparr>recovered := (recovered s)(c := True)\<rparr>"
      using assms(2) r by simp
    then show ?thesis using sys_inv_reader [OF assms(1), of c Unregistering] r recov by simp
  next
    case (3 e)
    then show ?thesis
      using assms(2) r sys_inv_push [OF assms(1), of c e]
        sys_inv_reader [of cfg "s\<lparr>heap := (heap s)(c := push e (heap s c))\<rparr>" c "Submitting (join_command c rm)"]
      by (auto simp: join_command_def)
  qed
qed

lemma inv_TakeCommand:
  assumes "sys_inv cfg s" and "steps cfg (TakeCommand c now) s = Some s'"
  shows "sys_inv cfg s'"
proof -
  obtain cmd where r: "reader s c = Submitting cmd"
    and h: "hub_takes (EvInbound cmd now (ctxDone s)) (goto_reader c Reading) s = Some s'"
    using assms(2) by (auto split: reader.splits)
  show ?thesis
  proof (rule hub_takes_inv [OF assms(1) h])
    show "ev_ok (EvInbound cmd now (ctxDone s)) s \<or> (\<exists>p. run_step (EvInbound cmd now (ctxDone s)) s = Inl p)"
      if "\<not> hubDone s"
      using command_ok_or_panic [OF assms(1) r that] by blast
  next
    fix st and t :: sys
    let ?t = "t\<lparr>posted := \<lambda>d. posted s d @ addressed (EvInbound cmd now (ctxDone s)) s d\<rparr>"
    assume "reader t = reader s" and "sys_inv cfg ?t"
    then show "sys_inv cfg (goto_reader c Reading ?t)"
      using sys_inv_reader [of cfg ?t c Reading] r by simp
  qed simp
qed

lemma inv_TakeUnregister:
  assumes "sys_inv cfg s" and "steps cfg (TakeUnregister c) s = Some s'"
  shows "sys_inv cfg s'"
proof -
  have r: "reader s c = Unregistering" and h: "hub_takes (EvUnregister c) (goto_reader c Gone) s = Some s'"
    using assms(2) by (auto split: if_splits)
  show ?thesis
  proof (rule hub_takes_inv [OF assms(1) h])
    fix st and t :: sys
    let ?t = "t\<lparr>posted := \<lambda>d. posted s d @ addressed (EvUnregister c) s d\<rparr>"
    assume t: "run_step (EvUnregister c) s = Inr (st, t)" "reader t = reader s" and inv: "sys_inv cfg ?t"
    have "connected (chat_of t) = set (clients s) - {c}"
      using step_refines [OF sys_invD(1) [OF assms(1)] _ t(1)] by (simp add: ev_ok_def kick_def)
    then have out: "c \<notin> set (clients t)" by simp
    show "sys_inv cfg (goto_reader c Gone ?t)"
    proof (rule sys_inv_local [where c = c, OF inv])
      show "conn_ok cfg (goto_reader c Gone ?t) c"
        using sys_invD(2,3) [OF inv, of c] out r t(2) by (auto simp: conn_ok_def ctl_ok_def)
    qed (use sys_invD(1) [OF inv] in auto)
  qed (simp_all add: ev_ok_def)
qed

lemma inv_hub_only:
  assumes "sys_inv cfg s" and "hub_takes ev (\<lambda>s. s) s = Some s'" and "ev = EvQuery \<or> ev = EvTick \<or> ev = EvDone"
  shows "sys_inv cfg s'"
  by (rule hub_takes_inv [OF assms(1,2)]) (use assms(3) in \<open>auto simp: ev_ok_def\<close>)

lemma inv_PersisterTakes:
  assumes "sys_inv cfg s" and "chan_recv (persist s) = Received m ch"
  shows "sys_inv cfg (s\<lparr>persist := ch\<rparr>)"
proof -
  have "\<not> chClosed ch \<and> chan_ok ch"
    using hub_invD(6,7) [OF sys_invD(1) [OF assms(1)]] assms(2)
    by (auto simp: chan_recv_def chan_ok_def split: list.splits if_splits)
  then show ?thesis
    using assms(1) hub_inv_persist [OF sys_invD(1) [OF assms(1)]] by (simp add: sys_inv_def conn_ok_def)
qed

lemma inv_WriterTakes:
  assumes "sys_inv cfg s" and "steps cfg (WriterTakes c) s = Some s'"
  shows "sys_inv cfg s'"
proof -
  have w: "writer s c = Selecting" using assms(2) by (auto split: if_splits)
  show ?thesis
  proof (cases "chan_recv (clSend (heap s c))")
    case (Received e ch)
    let ?cl = "(heap s c)\<lparr>clSend := ch\<rparr>"
    have s': "s' = s\<lparr>heap := (heap s)(c := ?cl), writer := (writer s)(c := Writing e)\<rparr>"
      using assms(2) w Received by (simp add: set_send_def)
    have "c \<in> set (clients s) \<longrightarrow> \<not> chClosed ch \<and> chan_ok ch"
      using hub_invD(4,5) [OF sys_invD(1) [OF assms(1)]] recv_chan(2) [OF Received] chan_recv_ok [OF _ Received]
      by simp
    show ?thesis
    proof (rule sys_inv_local [where c = c, OF assms(1)])
      show "hub_inv s'"
        using hub_inv_client [OF sys_invD(1) [OF assms(1)], of c ?cl] \<open>c \<in> set (clients s) \<longrightarrow> _\<close>
        by (simp add: s')
      show "conn_ok cfg s' c"
        using ctl_take [OF _ Received] data_take [OF _ Received] sys_invD(2,3) [OF assms(1), of c] w
        by (simp add: s' conn_ok_def)
    qed (auto simp: s')
  next
    case ChanClosed
    then show ?thesis using assms(2) w sys_inv_exit [OF assms(1), of c] by simp
  next
    case NotReady
    then show ?thesis using assms(2) w by simp
  qed
qed

lemma inv_WriteDone:
  assumes "sys_inv cfg s" and "steps cfg (WriteDone c) s = Some s'"
  shows "sys_inv cfg s'"
proof -
  obtain e where w: "writer s c = Writing e"
    and s': "s' = s\<lparr>wire := (wire s)(c := wire s c @ [e]), writer := (writer s)(c := Selecting)\<rparr>"
    using assms(2) by (auto split: writer.splits)
  show ?thesis
  proof (rule sys_inv_local [where c = c, OF assms(1)])
    show "conn_ok cfg s' c"
      using sys_invD(2,3) [OF assms(1), of c] w ctl_writer [of cfg _ _ c _ _ "Writing e" Selecting] data_wrote
      by (simp add: s' conn_ok_def)
  qed (use sys_invD(1) [OF assms(1)] in \<open>auto simp: s'\<close>)
qed

lemma sys_step_inv:
  assumes "sys_inv cfg s" and "sys_step cfg l s = Some s'"
  shows "sys_inv cfg s'"
proof -
  have st: "steps cfg l s = Some s'" using assms(2) by (auto simp: sys_step_def split: if_splits)
  note i = assms(1)
  show ?thesis
  proof (cases l)
    case (ReadFrame c env)
    then have s': "s' = goto_reader c (readPump_switch c env) s" "reader s c = Reading"
      using st by (auto split: if_splits)
    show ?thesis unfolding s'(1)
      by (rule sys_inv_reader [OF i]) (auto simp: s'(2) readPump_switch_def split: if_splits)
  next
    case (ReadFails c)
    then show ?thesis using st sys_inv_reader [OF i, of c Unregistering] by (auto split: if_splits)
  next
    case CancelCtx
    then show ?thesis using st i by (auto simp: sys_inv_def conn_ok_def)
  next
    case (WriteFails c)
    then show ?thesis using st sys_inv_exit [OF i, of c] by (auto split: writer.splits)
  next
    case (PingFails c)
    then show ?thesis using st sys_inv_exit [OF i, of c] by (auto split: if_splits)
  next
    case (WriterCancelled c)
    then show ?thesis using st sys_inv_exit [OF i, of c] by (auto split: if_splits)
  next
    case TakeQuery
    then show ?thesis using st inv_hub_only [OF i, of EvQuery] by simp
  next
    case Tick
    then show ?thesis using st inv_hub_only [OF i, of EvTick] by simp
  next
    case HubReturns
    then show ?thesis using st inv_hub_only [OF i, of EvDone] by (simp split: if_splits)
  next
    case (Connect c ident name)
    then show ?thesis using inv_Connect [OF i] st by (simp del: steps.simps)
  next
    case (TakeRegister c)
    then show ?thesis using inv_TakeRegister [OF i] st by (simp del: steps.simps)
  next
    case (LoadHistory c ans)
    then show ?thesis using inv_LoadHistory [OF i] st by (simp del: steps.simps)
  next
    case (TakeCommand c now)
    then show ?thesis using inv_TakeCommand [OF i] st by (simp del: steps.simps)
  next
    case (TakeUnregister c)
    then show ?thesis using inv_TakeUnregister [OF i] st by (simp del: steps.simps)
  next
    case (Released c)
    then show ?thesis using inv_Released [OF i] st by (simp del: steps.simps)
  next
    case (WriterTakes c)
    then show ?thesis using inv_WriterTakes [OF i] st by (simp del: steps.simps)
  next
    case (WriteDone c)
    then show ?thesis using inv_WriteDone [OF i] st by (simp del: steps.simps)
  next
    case PersisterTakes
    then show ?thesis using inv_PersisterTakes [OF i] st by (auto split: recv.splits)
  qed
qed

lemma boot_inv: "fresh h \<Longrightarrow> sys_inv cfg (boot h)"
  by (simp add: sys_inv_def conn_ok_def ctl_ok_def data_ok_def hub_inv_def fresh_def boot_def hub.extend_def)

lemma reachable_inv: "reachable cfg s \<Longrightarrow> sys_inv cfg s"
  by (induction rule: reachable.induct) (auto intro: boot_inv sys_step_inv)

end
