(* ===== verification/Pumps_Props.thy ===== *)
theory Pumps_Props
  imports Pumps_Inv Hub_Props
begin

text \<open>
  What the concurrent server guarantees in every reachable state, the one way it can crash
  and an execution that does, delivery end to end, and that goroutines can always end.
\<close>

section \<open>An example execution\<close>

text \<open>Two users with a queue of one frame; the second one does not read from its connection.\<close>

definition small :: Config where
  "small = Default\<lparr>cfgSendBuffer := 1\<rparr>"

definition idle_hub :: hub where
  "idle_hub = New demo_client (\<lambda>_. 0) (make_chan 4) 50"

definition frame_of :: "Type \<Rightarrow> string \<Rightarrow> string \<Rightarrow> Envelope" where
  "frame_of ty rm txt = zero_Envelope\<lparr>eType := ty, eRoom := rm, eText := txt\<rparr>"

definition arrive :: "cid \<Rightarrow> string \<Rightarrow> unit label list" where
  "arrive c name = [Connect c ''7'' name, TakeRegister c]"

definition do_join :: "cid \<Rightarrow> unit label list" where
  "do_join c = [ReadFrame c (frame_of TypeJoin ''r'' ''''), LoadHistory c (Inr []), TakeCommand c 0]"

definition do_say :: "cid \<Rightarrow> unit label list" where
  "do_say c = [ReadFrame c (frame_of TypeMessage ''r'' ''hi''), TakeCommand c 0]"

definition late_join :: "unit label list" where
  "late_join = arrive 1 ''alice'' @ arrive 2 ''bob'' @ do_join 1 @ do_join 2 @
     [ReadFrame 2 (frame_of TypeJoin ''s'' ''''), LoadHistory 2 (Inr [])] @ do_say 1"

lemmas run_eval = small_def Default_def idle_hub_def New_def frame_of_def arrive_def do_join_def
  do_say_def late_join_def boot_def hub.extend_def sys_step_def hub_takes_def NewClient_def
  client_Run_def readPump_switch_def handleJoin_enqueue_def join_command_def History_def make_chan_def
  addressed_def mem_of_def

lemma idle_fresh: "fresh idle_hub"
  by (simp add: fresh_def idle_hub_def New_def)

lemma sys_run_append: "sys_run cfg (xs @ ys) s = (case sys_run cfg xs s of
    None \<Rightarrow> None | Some t \<Rightarrow> sys_run cfg ys t)"
  by (induction xs arbitrary: s) (auto split: option.splits)

lemma reachable_run: "reachable cfg s \<Longrightarrow> sys_run cfg (ls :: unit label list) s = Some s' \<Longrightarrow> reachable cfg s'"
  by (induction ls arbitrary: s) (auto split: option.splits intro: stepped)

lemma late_join_state:
  "\<exists>s. sys_run small late_join (boot idle_hub) = Some s \<and> crashed s = None \<and> 2 \<notin> set (clients s) \<and>
     reader s 2 = Submitting (join_command 2 ''s'') \<and> send_closed s 2 \<and> \<not> hubDone s"
  by (simp add: run_eval go_simps)

lemma late_reachable:
  obtains s where "reachable small s" "sys_run small late_join (boot idle_hub) = Some s"
    "crashed s = None" "2 \<notin> set (clients s)" "reader s 2 = Submitting (join_command 2 ''s'')"
    "send_closed s 2" "\<not> hubDone s"
  using late_join_state reachable_run [OF booted [OF idle_fresh]] by metis

lemma hub_takes_crash:
  assumes "sys_inv cfg s" and "crashed s = None" and "hub_takes ev after s = Some s'" and "crashed s' = Some p"
    and "\<And>t. crashed (after t) = crashed t"
    and "\<not> hubDone s \<Longrightarrow> ev_ok ev s \<or> (\<exists>p. run_step ev s = Inl p)"
  shows "\<not> hubDone s \<and> run_step ev s = Inl p"
proof (cases "run_step ev s")
  case (Inl q)
  then show ?thesis using assms(3,4) by (auto simp: hub_takes_def split: if_splits)
next
  case (Inr x)
  obtain st t where x: "x = (st, t)" by fastforce
  have "ev_ok ev s" using assms(3,6) Inr by (auto simp: hub_takes_def split: if_splits)
  then have "crashed t = None"
    using run_step_pumps(5) [OF sys_invD(1) [OF assms(1)] _ Inr [unfolded x]] assms(2) by simp
  then show ?thesis using assms(3-5) Inr x by (auto simp: hub_takes_def split: if_splits)
qed

lemma hub_takes_calm:
  assumes "sys_inv cfg s" and "crashed s = None" and "hub_takes ev after s = Some s'"
    and "\<And>t. crashed (after t) = crashed t" and "ev_ok ev s"
  shows "crashed s' = None"
proof (rule ccontr)
  assume "crashed s' \<noteq> None"
  then obtain p where "crashed s' = Some p" by blast
  from hub_takes_crash [OF assms(1-3) this assms(4)] assms(5) have "run_step ev s = Inl p" by blast
  then show False using run_step_inv [OF sys_invD(1) [OF assms(1)] assms(5)] by auto
qed

lemma hub_turn_calm:
  assumes "sys_inv cfg s" and "crashed s = None" and "sys_step cfg l s = Some s'"
    and "\<And>c now. l \<noteq> TakeCommand c now"
  shows "crashed s' = None"
proof -
  have st: "steps cfg l s = Some s'" using assms(2,3) by (simp add: sys_step_def)
  note h = hub_takes_calm [OF assms(1,2)]
  show ?thesis
  proof (cases l)
    case (Connect c ident name)
    then show ?thesis using st assms(2) by (auto split: if_splits sum.splits)
  next
    case (TakeRegister c)
    then have t: "hub_takes (EvRegister c) (client_Run c) s = Some s'" "reader s c = Registering"
      using st by (simp_all split: if_splits)
    have "ev_ok (EvRegister c) s"
      using sys_invD(2) [OF assms(1), of c] t(2) by (simp add: ctl_ok_def ev_ok_def)
    then show ?thesis by (rule h [OF t(1), rotated]) (simp add: client_Run_def)
  next
    case (LoadHistory c ans)
    then obtain rm where r: "reader s c = Loading rm" using st by (auto split: reader.splits)
    show ?thesis
      using st LoadHistory r assms(2)
      by (cases rule: handleJoin_cases [of c rm "History (Some (\<lambda>_ _. ans)) (historyLimit s) rm" s]) auto
  next
    case (TakeCommand c now)
    then show ?thesis using assms(4) by blast
  next
    case (TakeUnregister c)
    then have "hub_takes (EvUnregister c) (goto_reader c Gone) s = Some s'" using st by (simp split: if_splits)
    from h [OF this] show ?thesis by (simp add: ev_ok_def)
  next
    case (Released c)
    then show ?thesis using st assms(2) by (auto simp: client_Run_def split: if_splits reader.splits)
  next
    case TakeQuery
    then have "hub_takes EvQuery (\<lambda>s. s) s = Some s'" using st by simp
    from h [OF this] show ?thesis by (simp add: ev_ok_def)
  next
    case Tick
    then have "hub_takes EvTick (\<lambda>s. s) s = Some s'" using st by simp
    from h [OF this] show ?thesis by (simp add: ev_ok_def)
  next
    case HubReturns
    then have "hub_takes EvDone (\<lambda>s. s) s = Some s'" using st by (simp split: if_splits)
    from h [OF this] show ?thesis by (simp add: ev_ok_def)
  next
    case (WriterTakes c)
    then show ?thesis
      using st assms(2) by (auto simp: set_send_def writer_exit_def split: if_splits recv.splits)
  qed (use st assms(2) in \<open>auto simp: writer_exit_def split: if_splits writer.splits recv.splits\<close>)
qed

lemma crash_cases:
  assumes "sys_inv cfg s" and "sys_step cfg l s = Some s'" and "crashed s' = Some p"
  shows "\<exists>c now cmd. l = TakeCommand c now \<and> reader s c = Submitting cmd \<and> cmdKind cmd = TypeJoin \<and>
    c \<notin> set (clients s) \<and> send_closed s c \<and> p = SendOnClosed (Some c)"
proof -
  have n: "crashed s = None" and st: "steps cfg l s = Some s'"
    using assms(2) by (auto simp: sys_step_def split: if_splits)
  obtain c now where l: "l = TakeCommand c now"
    using hub_turn_calm [OF assms(1) n assms(2)] assms(3) by auto
  then obtain cmd where r: "reader s c = Submitting cmd"
    and t: "hub_takes (EvInbound cmd now (ctxDone s)) (goto_reader c Reading) s = Some s'"
    using st by (auto split: reader.splits)
  have "\<not> hubDone s \<and> run_step (EvInbound cmd now (ctxDone s)) s = Inl p"
    by (rule hub_takes_crash [OF assms(1) n t assms(3)])
      (use command_ok_or_panic [OF assms(1) r] in \<open>simp, blast\<close>)
  moreover have "\<not> ev_ok (EvInbound cmd now (ctxDone s)) s"
    using calculation run_step_inv [OF sys_invD(1) [OF assms(1)]] by fastforce
  ultimately show ?thesis
    using command_ok_or_panic [OF assms(1) r, where now = now and b = "ctxDone s"] l r by auto
qed

section \<open>Every reachable state\<close>

text \<open>
  C1. In every state the server can reach, whatever the interleaving of the hub with all the read
  and write pumps: the hub's invariant holds; every started connection's queue is within the
  configured bound; a registered client's handler has not returned unless the hub has; and a
  client whose handler is running while the hub runs is either registered or has been
  dropped, with its queue closed.
\<close>

theorem server_state_invariant:
  assumes "reachable cfg s"
  shows "hub_inv s \<and>
    (writer s c \<noteq> NotStarted \<longrightarrow> length (sendq s c) \<le> nat (cfgSendBuffer cfg)) \<and>
    (c \<in> set (clients s) \<and> \<not> hubDone s \<longrightarrow> active (reader s c)) \<and>
    (active (reader s c) \<and> \<not> hubDone s \<longrightarrow> c \<in> set (clients s) \<or> send_closed s c)"
proof -
  have i: "hub_inv s" by (rule sys_invD(1) [OF reachable_inv [OF assms]])
  have "ctl_ok cfg (hubDone s) (c \<in> set (clients s)) c (heap s c) (reader s c) (writer s c)"
    by (rule sys_invD(2) [OF reachable_inv [OF assms]])
  with i show ?thesis by (auto simp: ctl_ok_def chan_ok_def)
qed

theorem server_state_invariant_witness:
  "\<exists>s. sys_run small late_join (boot idle_hub) = Some s \<and> hub_inv s \<and>
     (2 \<in> set (clients s) \<or> send_closed s 2)"
proof -
  obtain s where "reachable small s" "sys_run small late_join (boot idle_hub) = Some s"
    "reader s 2 = Submitting (join_command 2 ''s'')" "\<not> hubDone s"
    by (rule late_reachable)
  then show ?thesis using server_state_invariant [of small s 2] by auto
qed

text \<open>
  C2. The only way the process can crash: the hub takes a join whose client has been dropped
  while the read pump was on its way to submit it. No other step of any goroutine ends in a
  panic of the hub.
\<close>

theorem only_a_late_join_crashes:
  assumes "reachable cfg s" and "sys_step cfg l s = Some s'" and "crashed s' = Some p"
  shows "\<exists>c now cmd. l = TakeCommand c now \<and> reader s c = Submitting cmd \<and> cmdKind cmd = TypeJoin \<and>
    c \<notin> set (clients s) \<and> send_closed s c \<and> p = SendOnClosed (Some c)"
  using crash_cases [OF reachable_inv [OF assms(1)] assms(2,3)] .

theorem only_a_late_join_crashes_witness:
  "\<exists>s s' now. sys_run small late_join (boot idle_hub) = Some s \<and>
     sys_step small (TakeCommand 2 now :: unit label) s = Some s' \<and> send_closed s 2"
proof -
  obtain s where s: "reachable small s" "sys_run small late_join (boot idle_hub) = Some s"
    "crashed s = None" "2 \<notin> set (clients s)" "reader s 2 = Submitting (join_command 2 ''s'')"
    "send_closed s 2" "\<not> hubDone s"
    by (rule late_reachable)
  have "\<not> ev_ok (EvInbound (join_command 2 ''s'') 0 (ctxDone s)) s"
    using s(4) by (simp add: ev_ok_def join_command_def)
  then have "run_step (EvInbound (join_command 2 ''s'') 0 (ctxDone s)) s = Inl (SendOnClosed (Some 2))"
    using command_ok_or_panic [OF reachable_inv [OF s(1)] s(5,7)] by blast
  then have st: "sys_step small (TakeCommand 2 0 :: unit label) s =
      Some (s\<lparr>crashed := Some (SendOnClosed (Some 2))\<rparr>)"
    using s(3,5,7) by (simp add: sys_step_def hub_takes_def)
  from only_a_late_join_crashes [OF s(1) st] have "send_closed s 2" by auto
  then show ?thesis using s(2) st by blast
qed

text \<open>
  C3. And it does happen: with a valid configuration, two connections and no fault of network or
  database there is an execution in which one user's message finds the other's queue full
  while that one is about to submit a join, and the process dies.
\<close>

theorem a_slow_joiner_can_crash_the_server:
  "Validate small = None \<and>
   (\<exists>(ls :: unit label list) s. sys_run small ls (boot idle_hub) = Some s \<and>
      crashed s = Some (SendOnClosed (Some 2)))"
proof -
  obtain s where s: "reachable small s" "sys_run small late_join (boot idle_hub) = Some s"
    "crashed s = None" "2 \<notin> set (clients s)" "reader s 2 = Submitting (join_command 2 ''s'')"
    "send_closed s 2" "\<not> hubDone s"
    by (rule late_reachable)
  have "\<not> ev_ok (EvInbound (join_command 2 ''s'') 0 (ctxDone s)) s"
    using s(4) by (simp add: ev_ok_def join_command_def)
  then have "run_step (EvInbound (join_command 2 ''s'') 0 (ctxDone s)) s = Inl (SendOnClosed (Some 2))"
    using command_ok_or_panic [OF reachable_inv [OF s(1)] s(5,7)] by blast
  then have "sys_run small (late_join @ [TakeCommand 2 0]) (boot idle_hub) =
      Some (s\<lparr>crashed := Some (SendOnClosed (Some 2))\<rparr>)"
    using s(2,3,5,7) by (simp add: sys_run_append sys_step_def hub_takes_def)
  moreover have "Validate small = None"
    by (simp add: Validate_None_iff small_def Default_def Second_def Hour_def)
  ultimately show ?thesis
    by (intro conjI exI [of _ "late_join @ [TakeCommand 2 0]"]
        exI [of _ "s\<lparr>crashed := Some (SendOnClosed (Some 2))\<rparr>"]) simp_all
qed

text \<open>
  C7. End to end: what has been written to a connection is, of the chat messages, always a
  prefix of those accepted for that client, in order and without a gap or a repeat; and for a
  registered client with a running write pump, what is on the wire, in the pump's hand and in the
  queue is exactly everything accepted for it.
\<close>

theorem messages_reach_the_wire_in_order:
  assumes "reachable cfg s"
  shows "prefix (posts (wire s c)) (posted s c) \<and>
    (c \<in> set (clients s) \<and> writer s c \<noteq> Returned \<longrightarrow>
       posts (wire s c @ inflight (writer s c) @ sendq s c) = posted s c)"
proof -
  have d: "data_ok (c \<in> set (clients s)) (heap s c) (writer s c) (wire s c) (posted s c)"
    and "c \<in> set (clients s) \<longrightarrow> writer s c \<noteq> NotStarted"
    using sys_invD(2,3) [OF reachable_inv [OF assms], of c] by (simp_all add: ctl_ok_def)
  then have "c \<in> set (clients s) \<and> writer s c \<noteq> Returned \<longrightarrow>
      flow (heap s c) (writer s c) (wire s c) = posted s c"
    by (simp add: data_ok_def)
  with data_wire [OF d] show ?thesis by (simp add: flow_def)
qed

theorem messages_reach_the_wire_in_order_witness:
  "\<exists>s. sys_run small late_join (boot idle_hub) = Some s \<and> prefix (posts (wire s 2)) (posted s 2)"
proof -
  obtain s where "reachable small s" "sys_run small late_join (boot idle_hub) = Some s"
    by (rule late_reachable)
  then show ?thesis using messages_reach_the_wire_in_order [of small s 2] by auto
qed

section \<open>Goroutines end\<close>

definition drain_steps :: "cid \<Rightarrow> nat \<Rightarrow> unit label list" where
  "drain_steps c n = concat (replicate n [WriterTakes c, WriteDone c]) @ [WriterTakes c]"

lemma drain_steps_run:
  "crashed s = None \<Longrightarrow> writer s c = Selecting \<Longrightarrow> send_closed s c \<Longrightarrow> sendq s c = q \<Longrightarrow>
    \<exists>s'. sys_run cfg (drain_steps c (length q)) s = Some s' \<and> writer s' c = Returned \<and>
      \<not> connOpen s' c \<and> wire s' c = wire s c @ q"
proof (induction q arbitrary: s)
  case Nil
  then show ?case by (simp add: drain_steps_def sys_step_def chan_recv_def writer_exit_def)
next
  case (Cons e q)
  let ?ch = "(clSend (heap s c))\<lparr>chBuf := q\<rparr>"
  let ?t = "(set_send c ?ch s)\<lparr>wire := (wire s)(c := wire s c @ [e]), writer := (writer s)(c := Selecting)\<rparr>"
  have "sys_run cfg [WriterTakes c, WriteDone c :: unit label] s = Some ?t"
    using Cons.prems by (simp add: sys_step_def chan_recv_def set_send_def)
  moreover have "drain_steps c (length (e # q)) = [WriterTakes c, WriteDone c] @ drain_steps c (length q)"
    by (simp add: drain_steps_def)
  ultimately have "sys_run cfg (drain_steps c (length (e # q))) s = sys_run cfg (drain_steps c (length q)) ?t"
    by (simp only: sys_run_append option.case)
  moreover have "\<exists>s'. sys_run cfg (drain_steps c (length q)) ?t = Some s' \<and> writer s' c = Returned \<and>
      \<not> connOpen s' c \<and> wire s' c = wire ?t c @ q"
    using Cons.prems by (intro Cons.IH) (simp_all add: set_send_def)
  ultimately show ?case by simp
qed

text \<open>
  C26. A dropped client is not cut short: its write pump can go on alone, as long as writes
  succeed, writes everything that was queued before the drop, in order, and then closes the
  connection and returns, after two steps per frame and one more.
\<close>

theorem dropped_client_gets_its_queue_then_closes:
  assumes "crashed s = None" and "writer s c = Selecting" and "send_closed s c"
  shows "\<exists>s'. sys_run cfg (drain_steps c (length (sendq s c))) s = Some s' \<and>
    writer s' c = Returned \<and> \<not> connOpen s' c \<and> wire s' c = wire s c @ sendq s c"
  using drain_steps_run [OF assms refl] .

theorem dropped_client_gets_its_queue_then_closes_witness:
  "\<exists>s s'. sys_run small late_join (boot idle_hub) = Some s \<and>
     sys_run small (drain_steps 2 (length (sendq s 2))) s = Some s' \<and> \<not> connOpen s' 2"
proof -
  have "\<exists>s. sys_run small late_join (boot idle_hub) = Some s \<and> writer s 2 = Selecting"
    by (simp add: run_eval go_simps)
  then obtain s where s: "sys_run small late_join (boot idle_hub) = Some s" "writer s 2 = Selecting"
    by blast
  obtain t where "sys_run small late_join (boot idle_hub) = Some t" "crashed t = None" "send_closed t 2"
    by (rule late_reachable)
  then show ?thesis
    using dropped_client_gets_its_queue_then_closes [of s 2 small] s by auto
qed

text \<open>The labels with which a handler and its write pump end once the hub has returned.\<close>

definition handler_ends :: "cid \<Rightarrow> reader \<Rightarrow> unit label list" where
  "handler_ends c pc = (case pc of
       Registering \<Rightarrow> [Released c, ReadFails c, Released c]
     | Reading \<Rightarrow> [ReadFails c, Released c]
     | Submitting cmd \<Rightarrow> [Released c, ReadFails c, Released c]
     | Unregistering \<Rightarrow> [Released c]
     | Loading rm \<Rightarrow> [LoadHistory c (Inr []), Released c, ReadFails c, Released c]
     | _ \<Rightarrow> [])"

definition pump_ends :: "cid \<Rightarrow> writer \<Rightarrow> unit label list" where
  "pump_ends c w = (case w of
       Selecting \<Rightarrow> [WriterCancelled c] | Writing e \<Rightarrow> [WriteFails c] | _ \<Rightarrow> [])"

lemma handler_ends_run:
  assumes "crashed s = None" and "hubDone s" and "reader s c \<noteq> Unborn"
  shows "\<exists>s'. sys_run cfg (handler_ends c (reader s c)) s = Some s' \<and> reader s' c = Gone \<and>
    crashed s' = None \<and> hubDone s' \<and> (reader s c \<noteq> Registering \<longrightarrow> writer s' c = writer s c)"
  using assms by (cases "reader s c")
    (simp_all add: handler_ends_def sys_step_def client_Run_def History_def handleJoin_enqueue_def)

lemma pump_ends_run:
  assumes "crashed s = None" and "reader s c = Gone"
  shows "\<exists>s'. sys_run cfg (pump_ends c (writer s c)) s = Some s' \<and> reader s' c = Gone \<and>
    (writer s' c = Returned \<or> writer s' c = NotStarted)"
  using assms by (cases "writer s c") (simp_all add: pump_ends_def sys_step_def writer_exit_def)

text \<open>
  C25. Shutdown leaves no goroutine behind: once the hub has returned, every handler that was
  started, wherever it is blocked (\<^verbatim>\<open>Register\<close>, \<^verbatim>\<open>Submit\<close>, \<^verbatim>\<open>Unregister\<close>, a read, loading history),
  and its write pump can both return within five steps of their own.
\<close>

theorem goroutines_end_after_shutdown:
  assumes "crashed s = None" and "hubDone s" and "reader s c \<noteq> Unborn"
  shows "\<exists>(ls :: unit label list) s'. sys_run cfg ls s = Some s' \<and> length ls \<le> 5 \<and> reader s' c = Gone \<and>
    (writer s' c = Returned \<or> writer s' c = NotStarted)"
proof -
  obtain t where t: "sys_run cfg (handler_ends c (reader s c)) s = Some t" "reader t c = Gone" "crashed t = None"
    using handler_ends_run [OF assms] by blast
  obtain s' where s': "sys_run cfg (pump_ends c (writer t c)) t = Some s'" "reader s' c = Gone"
    "writer s' c = Returned \<or> writer s' c = NotStarted"
    using pump_ends_run [OF t(3,2)] by blast
  have "length (handler_ends c (reader s c)) \<le> 4" "length (pump_ends c (writer t c)) \<le> 1"
    by (auto simp: handler_ends_def pump_ends_def split: reader.split writer.split)
  then show ?thesis
    using t(1) s' by (intro exI [of _ "handler_ends c (reader s c) @ pump_ends c (writer t c)"] exI [of _ s'])
      (simp add: sys_run_append)
qed

theorem goroutines_end_after_shutdown_witness:
  "\<exists>s (ls :: unit label list) s'. sys_run small (arrive 1 ''alice'' @ [CancelCtx, HubReturns]) (boot idle_hub) = Some s \<and>
     reader s 1 = Reading \<and> sys_run small ls s = Some s' \<and> reader s' 1 = Gone"
proof -
  obtain s where s: "sys_run small (arrive 1 ''alice'' @ [CancelCtx, HubReturns]) (boot idle_hub) = Some s"
    "crashed s = None" "hubDone s" "reader s 1 = Reading"
    by (simp add: run_eval go_simps)
  then show ?thesis using goroutines_end_after_shutdown [of s 1 small] by auto
qed

end
