(* ===== verification/Auth_Props.thy ===== *)
theory Auth_Props
  imports Backend
begin

text \<open>
  What registration, login, logout and session validation promise to the web layer, on either of the two
  databases the program ships with, and where they fall short of what their comments say.
\<close>

section \<open>An example\<close>

definition toy :: crypto where
  "toy = \<lparr>GenerateFromPassword = \<lambda>salt pw. if 72 < length pw then None else Some (CHR ''h'' # pw),
     CompareHashAndPassword = \<lambda>h pw. h = CHR ''h'' # pw, Sum256 = \<lambda>t. t\<rparr>"

definition env_at :: "gotime \<Rightarrow> auth_env" where
  "env_at t = \<lparr>aNow = t, aDbNow = t, aFault = NoFault\<rparr>"

definition call_at :: "gotime \<Rightarrow> char \<Rightarrow> auth_env call" where
  "call_at t b = \<lparr>firstEnv = env_at t, secondEnv = env_at t, callNow = t,
     callRand = Some (replicate 32 b), callSalt = 0\<rparr>"

definition no_users :: auth_db where
  "no_users = \<lparr>userRows = [], sessionRows = [], nextUser = 1\<rparr>"

definition one_user :: auth_db where
  "one_user = \<lparr>userRows = [\<lparr>urID = 1, urName = ''alice'', urHash = ''hpassword1'', urDisplay = ''Alice''\<rparr>],
     sessionRows = [], nextUser = 2\<rparr>"

lemmas example_defs = toy_def env_at_def call_at_def no_users_def one_user_def NewService_def
  sqlite_store_def postgres_store_def

lemma users_ok: "auth_ok no_users" "auth_ok one_user"
  by (simp_all add: auth_ok_def no_users_def one_user_def)

lemma call_rand: "rand_ok (call_at t b)"
  by (simp add: rand_ok_def call_at_def)

lemma trims: "TrimSpace ''alice'' = ''alice''" "TrimSpace ''bob'' = ''bob''" "TrimSpace ''Bob'' = ''Bob''"
  by (rule TrimSpace_ascii; simp)+

lemma alice: "db_account one_user ''alice'' = Some (\<lparr>uID = 1, uUsername = ''alice'', uDisplayName = ''Alice''\<rparr>, ''hpassword1'')"
  by (simp add: db_account_def sql_select_user_def one_user_def user_of_def)

abbreviation svc :: "int \<Rightarrow> (auth_env, auth_db) Service" where
  "svc ttl \<equiv> NewService sqlite_store ttl"

lemma bob_registers:
  "\<exists>s'. Register toy (svc ttl) (call_at 1000 b) ''bob'' ''password2'' ''Bob'' one_user =
     (Inr (\<lparr>uID = 2, uUsername = ''bob'', uDisplayName = ''Bob''\<rparr>, RawURLEncoding (replicate 32 b)), s')"
  by (simp add: Register_def Let_def trims validateCredentials_def limit_defs example_defs
      SQLite_CreateUser_def sql_insert_user_def openSession_def newToken_def SQLite_CreateSession_def
      sql_insert_session_def)

section \<open>Accounts\<close>

text \<open>
  C34. A successful registration yields a well-formed account: the trimmed username, of 3 to 32
  bytes, beginning and ending with no white space, a display name of 1 to 32 bytes, and a token
  of 43 URL-safe characters. The account was not there before, and is stored with the hash.
\<close>

theorem registered_account_is_well_formed:
  assumes "auth_ok s" and "rand_ok env"
    and "Register K (NewService (auth_store_of ts c) ttl) env n0 pw d0 s = (Inr (u, token), s')"
  shows "uUsername u = TrimSpace n0 \<and> 3 \<le> length (uUsername u) \<and> length (uUsername u) \<le> 32 \<and>
    (\<forall>w \<in> set spaces. \<not> suffix w (uUsername u)) \<and>
    1 \<le> length (uDisplayName u) \<and> length (uDisplayName u) \<le> 32 \<and>
    length token = 43 \<and> set token \<subseteq> set url_alphabet \<and>
    db_account s (uUsername u) = None \<and> (\<exists>h. db_account s' = (db_account s)(uUsername u \<mapsto> (u, h)))"
  using assms(3)
proof (cases rule: Register_cases)
  case (opened h u' s1 token')
  have u: "u' = u" "token' = token" using opened(5) by simp_all
  have "CreateUser (auth_store_of ts c) (firstEnv env) (TrimSpace n0) h
      (if TrimSpace d0 = '''' then TrimSpace n0 else TrimSpace d0) s = (Inr u, s1)"
    using opened(3) u by (simp add: NewService_def)
  note c = db_auth.create_ok [OF assms(1) this]
  have n: "uUsername u = TrimSpace n0"
    using db_auth.account_name [of s1 "TrimSpace n0" u h] c by simp
  have "newToken (callRand env) = Inr token"
    using opened(4) u by (auto elim: openSession_cases)
  from newToken_token [OF assms(2) this]
  have t: "length token = 43" "set token \<subseteq> set url_alphabet" by blast+
  have "\<not> suffix w (TrimSpace n0)" if "w \<in> set spaces" for w
    using TrimSpace_clean [OF that] .
  moreover have "\<exists>h. db_account s' = (db_account s)(TrimSpace n0 \<mapsto> (u, h))"
    using db_auth.Register_opens [unfolded db_ops, OF assms] by blast
  ultimately show ?thesis
    using opened(1) c n t by (auto simp: validateCredentials_def limit_defs Suc_le_eq split: if_splits)
qed simp_all

theorem registered_account_is_well_formed_witness:
  "\<exists>u token s'. Register toy (svc 100) (call_at 1000 CHR ''x'') ''bob'' ''password2'' ''Bob'' one_user = (Inr (u, token), s') \<and>
     uUsername u = ''bob'' \<and> length token = 43"
proof -
  obtain u token s' where r: "Register toy (svc 100) (call_at 1000 CHR ''x'') ''bob'' ''password2'' ''Bob'' one_user = (Inr (u, token), s')"
    using bob_registers by blast
  from registered_account_is_well_formed [OF users_ok(2) call_rand r [folded sqlite_chosen(1) [of id "''''"]]] r show ?thesis by (auto simp: trims)
qed

text \<open>
  A taken username is refused with \<^verbatim>\<open>ErrUsernameTaken\<close>, and no account and no session
  changes: neither the existing password nor the display name can be overwritten.
\<close>

theorem taken_username_is_refused:
  assumes "auth_ok s" and "aFault (firstEnv env) = NoFault" and "\<not> users_full s"
    and "db_account s (TrimSpace n0) \<noteq> None"
    and "validateCredentials (TrimSpace n0) pw (if TrimSpace d0 = '''' then TrimSpace n0 else TrimSpace d0) = None"
    and "GenerateFromPassword K (callSalt env) pw \<noteq> None"
  shows "\<exists>s'. Register K (NewService (auth_store_of ts c) ttl) env n0 pw d0 s = (Inl ErrUsernameTaken, s') \<and>
    db_account s' = db_account s \<and> db_session s' = db_session s"
  using db_auth.Register_taken [OF assms, unfolded db_ops] by blast

theorem taken_username_is_refused_witness:
  "\<exists>s'. Register toy (svc 100) (call_at 1000 CHR ''x'') ''alice'' ''password9'' ''Bob'' one_user = (Inl ErrUsernameTaken, s') \<and>
     db_account s' = db_account one_user"
proof -
  have "aFault (firstEnv (call_at 1000 CHR ''x'')) = NoFault" "\<not> users_full one_user"
    "db_account one_user (TrimSpace ''alice'') \<noteq> None"
    by (simp_all add: call_at_def env_at_def users_full_def one_user_def trims alice [unfolded one_user_def])
  moreover have "validateCredentials (TrimSpace ''alice'') ''password9''
      (if TrimSpace ''Bob'' = '''' then TrimSpace ''alice'' else TrimSpace ''Bob'') = None"
    by (simp add: trims validateCredentials_def limit_defs)
  moreover have "GenerateFromPassword toy (callSalt (call_at 1000 CHR ''x'')) ''password9'' \<noteq> None"
    by (simp add: toy_def)
  ultimately show ?thesis
    using taken_username_is_refused [OF users_ok(2), where c = "SQLiteDB ''''", unfolded sqlite_chosen] by blast
qed

section \<open>Sessions\<close>

text \<open>What a registration or a login has in common: it opened a session.\<close>

definition signed_in :: "crypto \<Rightarrow> (auth_env, auth_db) Service \<Rightarrow> auth_env call \<Rightarrow> User \<Rightarrow> string \<Rightarrow>
    auth_db \<Rightarrow> auth_db \<Rightarrow> bool" where
  "signed_in K sv env u token s s' \<longleftrightarrow>
     (\<exists>n pw d. Register K sv env n pw d s = (Inr (u, token), s')) \<or>
     (\<exists>n pw. Login K sv env n pw s = (Inr (u, token), s'))"

lemma db_signed_in:
  assumes "auth_ok s" and "rand_ok env" and "signed_in K (NewService (auth_store_of ts c) ttl) env u token s s'"
  shows "\<exists>n. db_auth.opened K token u (auth_expiry ts c (callNow env + ttl)) n s'"
  using assms(3) db_auth.Register_opens [unfolded db_ops, OF assms(1,2)]
    db_auth.Login_opens [unfolded db_ops, OF assms(1,2)]
  unfolding signed_in_def by blast

lemma sqlite_times: "auth_clock (SQLiteDB p) env = sint (UnixNano (aNow env))"
  "auth_expiry ts (SQLiteDB p) t = sint (UnixNano t)"
  by (simp_all add: auth_clock_def auth_expiry_def)

lemma postgres_times: "auth_clock (PostgresDB u) env = aDbNow env" "auth_expiry ts (PostgresDB u) t = ts t"
  by (simp_all add: auth_clock_def auth_expiry_def)

lemma bob_signed_in:
  obtains s' where "signed_in toy (svc 100) (call_at 1000 b) \<lparr>uID = 2, uUsername = ''bob'', uDisplayName = ''Bob''\<rparr>
    (RawURLEncoding (replicate 32 b)) one_user s'"
  using bob_registers [of 100 b] unfolding signed_in_def by blast

text \<open>
  C36. Round trip over either database: after a registration or a login, the token authenticates as
  exactly that account until the session's expiry, and from then on as nobody. With SQLite instants are
  compared as the signed 64-bit nanosecond counts the table holds, with Postgres by the clock of the
  database and at the precision of its timestamps.
\<close>

theorem session_lives_until_expiry:
  assumes "auth_ok s" and "rand_ok env" and "signed_in K (NewService (auth_store_of ts c) ttl) env u token s s'"
    and "aFault env' = NoFault"
  shows "Authenticate K (NewService (auth_store_of ts c) ttl) env' token s' =
    (if (case c of SQLiteDB _ \<Rightarrow> sint (UnixNano (aNow env')) < sint (UnixNano (callNow env + ttl))
          | PostgresDB _ \<Rightarrow> aDbNow env' < ts (callNow env + ttl)) then Inr u else Inl ErrNoSession)"
proof -
  obtain n where "db_auth.opened K token u (auth_expiry ts c (callNow env + ttl)) n s'"
    using db_signed_in [OF assms(1-3)] by blast
  from db_auth.opened_Authenticate [unfolded db_ops, OF this assms(4)] show ?thesis
    by (cases c) (simp_all add: sqlite_times postgres_times)
qed

theorem session_lives_until_expiry_witness:
  "(\<exists>s'. Authenticate toy (svc 100) (env_at 1099) (RawURLEncoding (replicate 32 CHR ''x'')) s' =
       Inr \<lparr>uID = 2, uUsername = ''bob'', uDisplayName = ''Bob''\<rparr> \<and>
     Authenticate toy (svc 100) (env_at 1100) (RawURLEncoding (replicate 32 CHR ''x'')) s' = Inl ErrNoSession) \<and>
   (\<exists>u token s'. Login toy (NewService (postgres_store (\<lambda>t. t div 1000 * 1000)) 5000) (call_at 1000 CHR ''x'')
       ''alice'' ''password1'' one_user = (Inr (u, token), s') \<and>
     Authenticate toy (NewService (postgres_store (\<lambda>t. t div 1000 * 1000)) 5000) (env_at 5999) token s' = Inr u)"
proof
  note sq = session_lives_until_expiry [OF users_ok(2) call_rand, where c = "SQLiteDB ''''", unfolded sqlite_chosen]
  obtain s' where s': "signed_in toy (svc 100) (call_at 1000 CHR ''x'') \<lparr>uID = 2, uUsername = ''bob'', uDisplayName = ''Bob''\<rparr>
      (RawURLEncoding (replicate 32 CHR ''x'')) one_user s'"
    by (rule bob_signed_in)
  have "aFault (env_at t) = NoFault" "aNow (env_at t) = t" "callNow (call_at t b) = t" for t b
    by (simp_all add: env_at_def call_at_def)
  moreover have "sint (UnixNano 1099) = 1099" "sint (UnixNano 1100) = 1100"
    by (simp_all add: UnixNano_def)
  ultimately show "\<exists>s'. Authenticate toy (svc 100) (env_at 1099) (RawURLEncoding (replicate 32 CHR ''x'')) s' =
       Inr \<lparr>uID = 2, uUsername = ''bob'', uDisplayName = ''Bob''\<rparr> \<and>
     Authenticate toy (svc 100) (env_at 1100) (RawURLEncoding (replicate 32 CHR ''x'')) s' = Inl ErrNoSession"
    using sq [OF s', of "env_at 1099"] sq [OF s', of "env_at 1100"] by (intro exI [of _ s']) simp
next
  let ?ts = "\<lambda>t. t div 1000 * 1000 :: int"
  let ?sv = "NewService (postgres_store ?ts) 5000"
  obtain u token s' where l: "Login toy ?sv (call_at 1000 CHR ''x'') ''alice'' ''password1'' one_user = (Inr (u, token), s')"
    by (simp add: Login_def trims example_defs Postgres_CredentialsByUsername_def sql_select_user_def
        openSession_def newToken_def Postgres_CreateSession_def sql_insert_session_def user_of_def)
  then have "signed_in toy ?sv (call_at 1000 CHR ''x'') u token one_user s'"
    unfolding signed_in_def by blast
  from session_lives_until_expiry [OF users_ok(2) call_rand, where c = "PostgresDB ''''" and ts = ?ts,
      unfolded postgres_chosen, OF this, of "env_at 5999"] l
  show "\<exists>u token s'. Login toy ?sv (call_at 1000 CHR ''x'') ''alice'' ''password1'' one_user = (Inr (u, token), s') \<and>
     Authenticate toy ?sv (env_at 5999) token s' = Inr u"
    by (simp add: env_at_def call_at_def)
qed

text \<open>
  C40. SQLite stores the expiry in 64 bits: with a session lifetime that passes validation but
  reaches beyond the range of nanosecond counts (the year 2262), the expiry wraps to a
  negative number and the new session is expired from the start.
\<close>

theorem sqlite_far_expiry_wraps:
  assumes "Validate cfg = None" and "auth_ok s" and "rand_ok env"
    and "signed_in K (NewService sqlite_store (cfgSessionTTL cfg)) env u token s s'"
    and "2 ^ 63 \<le> callNow env + cfgSessionTTL cfg" and "callNow env + cfgSessionTTL cfg < 2 ^ 64"
    and "aFault env' = NoFault" and "0 \<le> aNow env'" and "aNow env' < 2 ^ 63"
  shows "Authenticate K (NewService sqlite_store (cfgSessionTTL cfg)) env' token s' = Inl ErrNoSession"
proof -
  let ?e = "callNow env + cfgSessionTTL cfg"
  have "sint (UnixNano (aNow env')) = aNow env'"
    using Unix_UnixNano [of "aNow env'"] assms(8,9) by (simp add: nano_range_def Unix_nanos_def)
  moreover have "sint (UnixNano ?e) = ?e - 2 ^ 64"
  proof -
    have "UnixNano ?e = UnixNano (?e - 2 ^ 64)"
      by (simp add: UnixNano_def word_of_int_eq_iff take_bit_eq_mod)
    then show ?thesis
      using Unix_UnixNano [of "?e - 2 ^ 64"] assms(5,6) by (simp add: nano_range_def Unix_nanos_def)
  qed
  moreover obtain n where "sqlite_auth.opened K token u (sint (UnixNano ?e)) n s'"
    using db_signed_in [OF assms(2,3), where c = "SQLiteDB ''''", unfolded sqlite_chosen, OF assms(4)]
    by (auto simp: sqlite_times)
  from sqlite_auth.opened_Authenticate [unfolded store_ops, OF this assms(7)]
  have "Authenticate K (NewService sqlite_store (cfgSessionTTL cfg)) env' token s' =
      (if sint (UnixNano (aNow env')) < sint (UnixNano ?e) then Inr u else Inl ErrNoSession)" .
  ultimately show ?thesis using assms(6,8) by simp
qed

theorem sqlite_far_expiry_wraps_witness:
  "\<exists>u token s'. Login toy (NewService sqlite_store (2 ^ 63 - 1)) (call_at (10 ^ 18) CHR ''x'')
       ''alice'' ''password1'' one_user = (Inr (u, token), s') \<and>
     Authenticate toy (NewService sqlite_store (2 ^ 63 - 1)) (env_at (10 ^ 18)) token s' = Inl ErrNoSession"
proof -
  let ?cfg = "Default\<lparr>cfgSessionTTL := 2 ^ 63 - 1\<rparr>"
  let ?sv = "NewService sqlite_store (cfgSessionTTL ?cfg)"
  obtain u token s' where l: "Login toy ?sv (call_at (10 ^ 18) CHR ''x'') ''alice'' ''password1'' one_user = (Inr (u, token), s')"
    by (simp add: Login_def trims example_defs SQLite_CredentialsByUsername_def sql_select_user_def
        openSession_def newToken_def SQLite_CreateSession_def sql_insert_session_def user_of_def)
  have "Validate ?cfg = None"
    by (simp add: Validate_None_iff Default_def Second_def)
  moreover have "signed_in toy ?sv (call_at (10 ^ 18) CHR ''x'') u token one_user s'"
    using l unfolding signed_in_def by blast
  moreover have c: "2 ^ 63 \<le> callNow (call_at (10 ^ 18) CHR ''x'') + cfgSessionTTL ?cfg"
    "callNow (call_at (10 ^ 18) CHR ''x'') + cfgSessionTTL ?cfg < 2 ^ 64"
    by (simp_all add: call_at_def)
  ultimately have "Authenticate toy ?sv (env_at (10 ^ 18)) token s' = Inl ErrNoSession"
    using sqlite_far_expiry_wraps [OF _ users_ok(2) call_rand, of ?cfg toy "10 ^ 18" "CHR ''x''" u token s' "env_at (10 ^ 18)"]
    by (simp add: env_at_def)
  then show ?thesis using l by auto
qed

text \<open>
  C37. Logging out ends that session at once, before its expiry, and no other: every token with a
  different hash authenticates as before, and the account stays.
\<close>

theorem logout_ends_exactly_that_session:
  assumes "auth_ok s" and "rand_ok env" and "signed_in K (NewService (auth_store_of ts c) ttl) env u token s s'"
    and "Logout K (NewService (auth_store_of ts c) ttl) env1 token s' = (Inr (), s'')" and "aFault env' = NoFault"
  shows "Authenticate K (NewService (auth_store_of ts c) ttl) env' token s'' = Inl ErrNoSession \<and>
    (\<forall>other. hashToken K other \<noteq> hashToken K token \<longrightarrow>
       Authenticate K (NewService (auth_store_of ts c) ttl) env' other s'' =
       Authenticate K (NewService (auth_store_of ts c) ttl) env' other s') \<and>
    db_account s'' = db_account s'"
proof -
  obtain n where o: "db_auth.opened K token u (auth_expiry ts c (callNow env + ttl)) n s'"
    using db_signed_in [OF assms(1-3)] by blast
  note c = db_auth.Logout_closes [unfolded db_ops, OF o assms(4)]
  have "Authenticate K (NewService (auth_store_of ts c) ttl) env' token s'' = Inl ErrNoSession"
    by (rule db_auth.Authenticate_none [unfolded db_ops]) (use c assms(5) in auto)
  then show ?thesis using c db_other_sessions [OF assms(4)] by blast
qed

theorem logout_ends_exactly_that_session_witness:
  "\<exists>s' s''. Logout toy (svc 100) (env_at 1010) (RawURLEncoding (replicate 32 CHR ''x'')) s' = (Inr (), s'') \<and>
     Authenticate toy (svc 100) (env_at 1020) (RawURLEncoding (replicate 32 CHR ''x'')) s'' = Inl ErrNoSession"
proof -
  let ?token = "RawURLEncoding (replicate 32 CHR ''x'')"
  obtain s' where s': "signed_in toy (svc 100) (call_at 1000 CHR ''x'') \<lparr>uID = 2, uUsername = ''bob'', uDisplayName = ''Bob''\<rparr>
      ?token one_user s'"
    by (rule bob_signed_in)
  have "\<exists>s''. Logout toy (svc 100) (env_at 1010) ?token s' = (Inr (), s'')"
    using sqlite_auth.Logout_healthy [unfolded store_ops] by (simp add: env_at_def)
  then obtain s'' where l: "Logout toy (svc 100) (env_at 1010) ?token s' = (Inr (), s'')" ..
  have "aFault (env_at 1020) = NoFault" by (simp add: env_at_def)
  from logout_ends_exactly_that_session [OF users_ok(2) call_rand, where c = "SQLiteDB ''''", unfolded sqlite_chosen, OF s' l this] l show ?thesis by blast
qed

section \<open>Logging in\<close>

text \<open>Opening a session for an account: every outcome.\<close>

lemma db_openSession:
  assumes "auth_ok s" and "db_account s n = Some (u, h)"
  shows "case newToken (callRand env) of
      Inl _ \<Rightarrow> openSession K (NewService (auth_store_of ts c) ttl) env (uID u) s = (Inl GeneratingToken, s)
    | Inr token \<Rightarrow>
        if aFault (secondEnv env) = NoFault \<and> db_session s (hashToken K token) = None
        then \<exists>s'. openSession K (NewService (auth_store_of ts c) ttl) env (uID u) s = (Inr token, s') \<and> db_account s' = db_account s \<and>
          db_session s' = (db_session s)(hashToken K token \<mapsto> (uID u, auth_expiry ts c (callNow env + ttl)))
        else openSession K (NewService (auth_store_of ts c) ttl) env (uID u) s = (Inl (CreatingSession StoringSession), s)"
proof (cases "newToken (callRand env)")
  case (Inl e)
  then show ?thesis by (auto simp: openSession_def newToken_def split: option.splits)
next
  case (Inr token)
  let ?sv = "NewService (auth_store_of ts c) ttl"
  note open_ok = db_auth.openSession_ok [unfolded db_ops, OF assms(1)]
  obtain r s' where o: "openSession K ?sv env (uID u) s = (r, s')" by fastforce
  show ?thesis
  proof (cases "aFault (secondEnv env) = NoFault \<and> db_session s (hashToken K token) = None")
    case True
    then obtain s'' where s'': "openSession K ?sv env (uID u) s = (Inr token, s'')"
      using db_auth.openSession_healthy [unfolded db_ops, OF assms(1) _ assms(2) Inr] by blast
    then show ?thesis using True Inr open_ok(3,5) [OF s''] by simp
  next
    case False
    have "\<exists>e. r = Inl e"
    proof (cases r)
      case (Inr token')
      have t: "token' = token" "db_session s (hashToken K token) = None"
        using open_ok(1,4) [OF o [unfolded Inr]] \<open>newToken (callRand env) = Inr token\<close> by simp_all
      with False have "aFault (secondEnv env) \<noteq> NoFault" by simp
      from db_session_fault [OF this, of ts c "hashToken K token" "uID u" "callNow env + ttl" s] show ?thesis
        using o \<open>newToken (callRand env) = Inr token\<close> by (auto simp: openSession_def NewService_def)
    qed simp
    then obtain e where e: "r = Inl e" ..
    have "s' = s" "e = GeneratingToken \<or> e = CreatingSession StoringSession"
      using db_auth.openSession_error [unfolded db_ops, OF assms(1), OF o [unfolded e]] by simp_all
    moreover have "e \<noteq> GeneratingToken"
      using o Inr e by (auto simp: openSession_def split: sum.splits prod.splits)
    ultimately show ?thesis using False Inr o e by simp
  qed
qed

text \<open>
  C38. Login answers by the password alone. An unknown name, a failing lookup and a wrong password all give
  \<^verbatim>\<open>ErrInvalidCredentials\<close> and change nothing, so that the answer does not tell them apart. With the
  right password for the account, login succeeds exactly when the random source gives a token, the
  token is unused and the second database call is healthy, and then it adds the session of the account and nothing else;
  otherwise the error says that the token could not be made or the session not be stored, and nothing is changed.
\<close>

theorem login_decides_by_password:
  assumes "auth_ok s"
  shows "\<exists>r s'. Login K (NewService (auth_store_of ts c) ttl) env n0 pw s = (r, s') \<and>
   (case (if aFault (firstEnv env) = NoFault then db_account s (TrimSpace n0) else None) of
      None \<Rightarrow> r = Inl ErrInvalidCredentials \<and> s' = s
    | Some (u, h) \<Rightarrow>
        if \<not> CompareHashAndPassword K h pw then r = Inl ErrInvalidCredentials \<and> s' = s
        else (case newToken (callRand env) of
            Inl _ \<Rightarrow> r = Inl GeneratingToken \<and> s' = s
          | Inr token \<Rightarrow>
              if aFault (secondEnv env) = NoFault \<and> db_session s (hashToken K token) = None
              then r = Inr (u, token) \<and> db_account s' = db_account s \<and>
                db_session s' = (db_session s)(hashToken K token \<mapsto> (uID u, auth_expiry ts c (callNow env + ttl)))
              else r = Inl (CreatingSession StoringSession) \<and> s' = s))"
proof (cases "if aFault (firstEnv env) = NoFault then db_account s (TrimSpace n0) else None")
  case None
  then have "\<exists>e. CredentialsByUsername (auth_store_of ts c) (firstEnv env) (TrimSpace n0) s = Inl e"
    using db_credentials_fault [of "firstEnv env" ts c "TrimSpace n0" s]
      db_auth.credentials_healthy [of "firstEnv env" ts c "TrimSpace n0" s] by (auto split: if_splits)
  then show ?thesis using None by (auto simp: Login_def NewService_def)
next
  case (Some x)
  obtain u h where x: "x = (u, h)" by fastforce
  have a: "aFault (firstEnv env) = NoFault" "db_account s (TrimSpace n0) = Some (u, h)"
    using Some x by (auto split: if_splits)
  have cr: "CredentialsByUsername (auth_store_of ts c) (firstEnv env) (TrimSpace n0) s = Inr (u, h)"
    using db_auth.credentials_healthy [OF a(1), of ts c "TrimSpace n0" s] a(2) by simp
  show ?thesis
  proof (cases "CompareHashAndPassword K h pw")
    case False
    then show ?thesis using Some x cr by (simp add: Login_def NewService_def)
  next
    case True
    have L: "Login K (NewService (auth_store_of ts c) ttl) env n0 pw s =
        (case openSession K (NewService (auth_store_of ts c) ttl) env (uID u) s of
           (Inl e, s') \<Rightarrow> (Inl e, s') | (Inr token, s') \<Rightarrow> (Inr (u, token), s'))"
      using cr True by (simp add: Login_def NewService_def)
    show ?thesis
      unfolding L Some x using True db_openSession [OF assms a(2), where K = K and c = c and ts = ts and ttl = ttl and env = env]
      by (auto split: sum.splits if_splits)
  qed
qed

theorem login_decides_by_password_witness:
  "Login toy (svc 100) (call_at 1000 CHR ''x'') ''alice'' ''password2'' one_user = (Inl ErrInvalidCredentials, one_user) \<and>
   Login toy (svc 100) (call_at 1000 CHR ''x'') ''bob'' ''password1'' one_user = (Inl ErrInvalidCredentials, one_user) \<and>
   (\<exists>u token s'. Login toy (svc 100) (call_at 1000 CHR ''x'') ''alice'' ''password1'' one_user = (Inr (u, token), s'))"
proof -
  have e: "aFault (firstEnv (call_at 1000 CHR ''x'')) = NoFault" "aFault (secondEnv (call_at 1000 CHR ''x'')) = NoFault"
    "newToken (callRand (call_at 1000 CHR ''x'')) = Inr (RawURLEncoding (replicate 32 CHR ''x''))"
    "db_session one_user t = None" for t
    by (simp_all add: call_at_def env_at_def newToken_def db_session_def one_user_def)
  have "db_account one_user ''bob'' = None"
    by (simp add: db_account_None one_user_def)
  note l = login_decides_by_password [OF users_ok(2), where c = "SQLiteDB ''''" and ttl = 100 and ts = id and K = toy and
      env = "call_at 1000 CHR ''x''", unfolded sqlite_chosen]
  show ?thesis
    using \<open>db_account one_user ''bob'' = None\<close> l [where ?n0.0 = "''alice''" and pw = "''password1''"]
      l [where ?n0.0 = "''alice''" and pw = "''password2''"] l [where ?n0.0 = "''bob''" and pw = "''password1''"]
      e alice by (auto simp: trims toy_def)
qed

section \<open>Failures of registration\<close>

text \<open>
  C39. Registration is not atomic: when the account was created and its session cannot be
  stored, the caller gets an error, but the account is there, and registering again with the
  same name is refused as taken.
\<close>

theorem failed_registration_keeps_the_name:
  assumes "auth_ok s" and "aFault (firstEnv env) = NoFault" and "\<not> users_full s"
    and "db_account s (TrimSpace n0) = None"
    and "validateCredentials (TrimSpace n0) pw (if TrimSpace d0 = '''' then TrimSpace n0 else TrimSpace d0) = None"
    and "GenerateFromPassword K (callSalt env) pw \<noteq> None"
    and "aFault (secondEnv env) \<noteq> NoFault"
    and "aFault (firstEnv env') = NoFault" and "GenerateFromPassword K (callSalt env') pw \<noteq> None"
  shows "\<exists>e s'. Register K (NewService (auth_store_of ts c) ttl) env n0 pw d0 s = (Inl e, s') \<and>
    \<not> Is_username_taken e \<and> \<not> Is_invalid_input e \<and> db_account s' (TrimSpace n0) \<noteq> None \<and>
    (\<not> users_full s' \<longrightarrow>
       fst (Register K (NewService (auth_store_of ts c) ttl) env' n0 pw d0 s') = Inl ErrUsernameTaken)"
proof -
  obtain e s' where r: "Register K (NewService (auth_store_of ts c) ttl) env n0 pw d0 s = (Inl e, s')"
    "e = GeneratingToken \<or> e = CreatingSession StoringSession" "auth_ok s'"
    "db_account s' (TrimSpace n0) \<noteq> None"
    using db_auth.Register_orphan [unfolded db_ops, OF assms(1-6) db_session_fault [OF assms(7)], where ts = ts and c = c and ttl = ttl]
    by blast
  have "\<exists>t. Register K (NewService (auth_store_of ts c) ttl) env' n0 pw d0 s' = (Inl ErrUsernameTaken, t)"
    if "\<not> users_full s'"
    using db_auth.Register_taken [unfolded db_ops, OF r(3) assms(8) that r(4) assms(5,9), where ts = ts and c = c and ttl = ttl] by blast
  then show ?thesis
    using r by (intro exI [of _ e] exI [of _ s']) (auto simp: Is_username_taken_def Is_invalid_input_def)
qed

theorem failed_registration_keeps_the_name_witness:
  "\<exists>e s'. Register toy (svc 100) ((call_at 1000 CHR ''x'')\<lparr>secondEnv := (env_at 1000)\<lparr>aFault := ExecFault\<rparr>\<rparr>)
       ''bob'' ''password2'' ''Bob'' one_user = (Inl e, s') \<and> db_account s' ''bob'' \<noteq> None"
proof -
  let ?env = "(call_at 1000 CHR ''x'')\<lparr>secondEnv := (env_at 1000)\<lparr>aFault := ExecFault\<rparr>\<rparr>"
  have a: "aFault (firstEnv ?env) = NoFault" "\<not> users_full one_user" "db_account one_user (TrimSpace ''bob'') = None"
    by (simp_all add: call_at_def env_at_def users_full_def one_user_def trims db_account_None)
  have b: "validateCredentials (TrimSpace ''bob'') ''password2''
      (if TrimSpace ''Bob'' = '''' then TrimSpace ''bob'' else TrimSpace ''Bob'') = None"
    by (simp add: trims validateCredentials_def limit_defs)
  have c: "GenerateFromPassword toy (callSalt ?env) ''password2'' \<noteq> None" "aFault (secondEnv ?env) \<noteq> NoFault"
    by (simp_all add: toy_def)
  from failed_registration_keeps_the_name [OF users_ok(2) a b c a(1) c(1), where c = "SQLiteDB ''''" and ttl = 100,
      unfolded sqlite_chosen] show ?thesis by (auto simp: trims)
qed

text \<open>
  What the package documents of bcrypt: a password of more than 72 bytes is not accepted.
\<close>

definition bcrypt_limit :: "crypto \<Rightarrow> bool" where
  "bcrypt_limit K \<longleftrightarrow> (\<forall>salt pw. 72 < length pw \<longrightarrow> GenerateFromPassword K salt pw = None)"

text \<open>
  The stated password limit of 128 bytes cannot be used: a password of 73 to 128 bytes
  passes validation and is then refused by bcrypt, and the caller sees an internal error, not
  an invalid input.
\<close>

theorem long_passwords_pass_validation_and_fail:
  assumes "bcrypt_limit K" and "72 < length pw" and "length pw \<le> 128"
    and "3 \<le> length (TrimSpace n0)" and "length (TrimSpace n0) \<le> 32" and "length (TrimSpace d0) \<le> 32"
  shows "Register K sv env n0 pw d0 s = (Inl HashingPassword, s) \<and>
    \<not> Is_invalid_input HashingPassword \<and> \<not> Is_username_taken HashingPassword"
proof -
  have "validateCredentials (TrimSpace n0) pw (if TrimSpace d0 = '''' then TrimSpace n0 else TrimSpace d0) = None"
    using assms(2-6) by (auto simp: validateCredentials_def limit_defs)
  moreover have "GenerateFromPassword K (callSalt env) pw = None"
    using assms(1,2) by (simp add: bcrypt_limit_def)
  ultimately show ?thesis
    by (simp add: Register_def Let_def Is_invalid_input_def Is_username_taken_def)
qed

theorem long_passwords_pass_validation_and_fail_witness:
  "Register toy (svc 100) (call_at 1000 CHR ''x'') ''bob'' (replicate 100 CHR ''p'') ''Bob'' one_user =
     (Inl HashingPassword, one_user)"
proof -
  have b: "bcrypt_limit toy" by (simp add: bcrypt_limit_def toy_def)
  have l: "72 < length (replicate 100 CHR ''p'')" "length (replicate 100 CHR ''p'') \<le> 128"
    "3 \<le> length (TrimSpace ''bob'')" "length (TrimSpace ''bob'') \<le> 32" "length (TrimSpace ''Bob'') \<le> 32"
    by (simp_all add: trims)
  show ?thesis by (rule long_passwords_pass_validation_and_fail [OF b l, THEN conjunct1])
qed

end
