(* ===== verification/Utf8.thy ===== *)
theory Utf8
  imports Go_Strings
begin

text \<open>
  UTF-8 as \<^verbatim>\<open>unicode/utf8\<close> and \<^verbatim>\<open>encoding/json\<close> read it: a byte string falls into encodings of
  characters and stray bytes, and whatever goes through JSON has its stray bytes replaced.
\<close>

section \<open>Encodings\<close>

text \<open>
  The length of the encoding at the head of a byte string, 0 when there is none: no
  overlong forms, no surrogates, nothing above U+10FFFF.
\<close>

definition cont_byte :: "nat \<Rightarrow> bool" where
  "cont_byte b \<longleftrightarrow> 128 \<le> b \<and> b < 192"

definition rune_size :: "string \<Rightarrow> nat" where
  "rune_size s = (case map of_char (take 4 s) :: nat list of
       [] \<Rightarrow> 0
     | b0 # bs \<Rightarrow>
         if b0 < 128 then 1
         else if 194 \<le> b0 \<and> b0 < 224 then
           (case bs of b1 # _ \<Rightarrow> if cont_byte b1 then 2 else 0 | _ \<Rightarrow> 0)
         else if 224 \<le> b0 \<and> b0 < 240 then
           (case bs of b1 # b2 # _ \<Rightarrow>
              if cont_byte b1 \<and> cont_byte b2 \<and> (b0 = 224 \<longrightarrow> 160 \<le> b1) \<and> (b0 = 237 \<longrightarrow> b1 < 160) then 3 else 0
            | _ \<Rightarrow> 0)
         else if 240 \<le> b0 \<and> b0 < 245 then
           (case bs of b1 # b2 # b3 # _ \<Rightarrow>
              if cont_byte b1 \<and> cont_byte b2 \<and> cont_byte b3 \<and> (b0 = 240 \<longrightarrow> 144 \<le> b1) \<and>
                 (b0 = 244 \<longrightarrow> b1 < 144) then 4 else 0
            | _ \<Rightarrow> 0)
         else 0)"

text \<open>The encodings of a byte string one after the other; \<open>[]\<close> stands for a stray byte.\<close>

function runes :: "string \<Rightarrow> string list" where
  "runes s =
     (case s of
        [] \<Rightarrow> []
      | c # cs \<Rightarrow> if rune_size s = 0 then [] # runes cs
                   else take (rune_size s) s # runes (drop (rune_size s) s))"
  by auto
termination
  by (relation "measure length") auto

declare runes.simps [simp del]

definition replacement :: string where
  "replacement = map char_of [239, 191, 189 :: nat]"

definition repaired :: "string \<Rightarrow> string" where
  "repaired r = (if r = [] then replacement else r)"

text \<open>Every stray byte becomes U+FFFD.\<close>

definition to_valid :: "string \<Rightarrow> string" where
  "to_valid s = concat (map repaired (runes s))"

definition valid_utf8 :: "string \<Rightarrow> bool" where
  "valid_utf8 s \<longleftrightarrow> to_valid s = s"

text \<open>\<^verbatim>\<open>utf8.AppendRune\<close>: a surrogate, or a number that is no character, gives U+FFFD.\<close>

definition utf8 :: "nat \<Rightarrow> string" where
  "utf8 n =
     (if n < 128 then [char_of n]
      else if n < 2048 then map char_of [192 + n div 64, 128 + n mod 64]
      else if 55296 \<le> n \<and> n < 57344 \<or> 1114112 \<le> n then replacement
      else if n < 65536 then map char_of [224 + n div 4096, 128 + n div 64 mod 64, 128 + n mod 64]
      else map char_of [240 + n div 262144, 128 + n div 4096 mod 64, 128 + n div 64 mod 64, 128 + n mod 64])"

section \<open>Cutting a string into encodings\<close>

definition is_rune :: "string \<Rightarrow> bool" where
  "is_rune r \<longleftrightarrow> r \<noteq> [] \<and> rune_size r = length r"

text \<open>The four forms of an encoding.\<close>

lemma rune_size_forms:
  "byte a < 128 \<Longrightarrow> rune_size (a # t) = 1"
  "194 \<le> byte a \<Longrightarrow> byte a < 224 \<Longrightarrow> cont_byte (byte b) \<Longrightarrow> rune_size (a # b # t) = 2"
  "224 \<le> byte a \<Longrightarrow> byte a < 240 \<Longrightarrow> cont_byte (byte b) \<Longrightarrow> cont_byte (byte c) \<Longrightarrow>
     (byte a = 224 \<longrightarrow> 160 \<le> byte b) \<Longrightarrow> (byte a = 237 \<longrightarrow> byte b < 160) \<Longrightarrow> rune_size (a # b # c # t) = 3"
  "240 \<le> byte a \<Longrightarrow> byte a < 245 \<Longrightarrow> cont_byte (byte b) \<Longrightarrow> cont_byte (byte c) \<Longrightarrow> cont_byte (byte d) \<Longrightarrow>
     (byte a = 240 \<longrightarrow> 144 \<le> byte b) \<Longrightarrow> (byte a = 244 \<longrightarrow> byte b < 144) \<Longrightarrow> rune_size (a # b # c # d # t) = 4"
  by (simp_all add: rune_size_def)

lemma rune_size_cases:
  assumes "0 < rune_size s"
  obtains (one) a t where "s = a # t" "byte a < 128"
  | (two) a b t where "s = a # b # t" "194 \<le> byte a" "byte a < 224" "cont_byte (byte b)"
  | (three) a b c t where "s = a # b # c # t" "224 \<le> byte a" "byte a < 240" "cont_byte (byte b)"
      "cont_byte (byte c)" "byte a = 224 \<longrightarrow> 160 \<le> byte b" "byte a = 237 \<longrightarrow> byte b < 160"
  | (four) a b c d t where "s = a # b # c # d # t" "240 \<le> byte a" "byte a < 245" "cont_byte (byte b)"
      "cont_byte (byte c)" "cont_byte (byte d)" "byte a = 240 \<longrightarrow> 144 \<le> byte b" "byte a = 244 \<longrightarrow> byte b < 144"
proof -
  obtain a s1 where s: "s = a # s1" using assms by (cases s) (simp_all add: rune_size_def)
  consider "byte a < 128" | "194 \<le> byte a" "byte a < 224" | "224 \<le> byte a" "byte a < 240"
    | "240 \<le> byte a" "byte a < 245" | "128 \<le> byte a" "byte a < 194" | "245 \<le> byte a" by linarith
  then show thesis
  proof cases
    case 1
    then show ?thesis using one s by blast
  next
    case 2
    obtain b t where "s1 = b # t" using assms 2 s by (cases s1) (simp_all add: rune_size_def)
    then show ?thesis using assms two 2 s by (simp add: rune_size_def split: if_splits)
  next
    case 3
    obtain b c t where "s1 = b # c # t" using assms 3 s
      by (cases s1 rule: remdups_adj.cases) (simp_all add: rune_size_def)
    then show ?thesis using assms three 3 s by (simp add: rune_size_def split: if_splits)
  next
    case 4
    obtain b c d t where "s1 = b # c # d # t" using assms 4 s
      by (cases s1 rule: remdups_adj.cases; cases "tl (tl s1)") (simp_all add: rune_size_def)
    then show ?thesis using assms four 4 s by (simp add: rune_size_def split: if_splits)
  qed (use assms s in \<open>simp_all add: rune_size_def\<close>)
qed

lemma rune_size_le: "rune_size s \<le> length s"
proof (cases "rune_size s = 0")
  case False
  then have "0 < rune_size s" by simp
  then show ?thesis by (cases rule: rune_size_cases) (simp_all add: rune_size_forms)
qed simp

lemma rune_size_append:
  assumes "0 < rune_size s"
  shows "rune_size (s @ t) = rune_size s"
  using assms by (cases rule: rune_size_cases) (simp_all add: rune_size_forms)

lemma rune_size_take:
  assumes "0 < rune_size s"
  shows "rune_size (take (rune_size s) s) = rune_size s"
  using assms by (cases rule: rune_size_cases) (simp_all add: rune_size_forms)

lemma is_rune_take: "rune_size s > 0 \<Longrightarrow> is_rune (take (rune_size s) s)"
  using rune_size_take [of s] rune_size_le [of s] by (auto simp: is_rune_def)

lemma runes_Nil [simp]: "runes [] = []"
  by (simp add: runes.simps)

lemma runes_stray: "rune_size (c # cs) = 0 \<Longrightarrow> runes (c # cs) = [] # runes cs"
  by (simp add: runes.simps [of "c # cs"])

lemma runes_rune:
  assumes "0 < rune_size s"
  shows "runes s = take (rune_size s) s # runes (drop (rune_size s) s)"
proof (cases s)
  case Nil
  then show ?thesis using assms by (simp add: rune_size_def)
next
  case (Cons c cs)
  then show ?thesis using assms by (subst runes.simps) simp
qed

lemma runes_append: "is_rune r \<Longrightarrow> runes (r @ s) = r # runes s"
  using rune_size_append [of r s] runes_rune [of "r @ s"] by (simp add: is_rune_def)

lemma runes_concat: "list_all is_rune rs \<Longrightarrow> runes (concat rs) = rs"
  by (induction rs) (simp_all add: runes_append)

lemma set_runes: "r \<in> set (runes s) \<Longrightarrow> r \<noteq> [] \<Longrightarrow> is_rune r"
proof (induction s rule: runes.induct)
  case (1 s)
  show ?case
  proof (cases s)
    case (Cons c cs)
    show ?thesis
    proof (cases "rune_size s = 0")
      case True
      then have "runes s = [] # runes cs" using Cons runes_stray by simp
      then show ?thesis using 1(1) [OF Cons True] 1(3,4) by simp
    next
      case False
      then have "runes s = take (rune_size s) s # runes (drop (rune_size s) s)"
        using runes_rune by simp
      then show ?thesis using 1(2) [OF Cons False] 1(3,4) is_rune_take [of s] False by auto
    qed
  qed (use 1 in simp)
qed

lemma is_rune_ascii: "byte c < 128 \<Longrightarrow> is_rune [c]"
  by (simp add: is_rune_def rune_size_def)

lemma is_rune_replacement: "is_rune replacement"
  by (simp add: is_rune_def rune_size_def replacement_def cont_byte_def)

lemma is_rune_repaired: "r \<in> set (runes s) \<Longrightarrow> is_rune (repaired r)"
  using set_runes is_rune_replacement by (auto simp: repaired_def)

lemma runes_to_valid: "runes (to_valid s) = map repaired (runes s)"
  unfolding to_valid_def by (rule runes_concat) (auto simp: list_all_iff is_rune_repaired)

lemma to_valid_idem [simp]: "to_valid (to_valid s) = to_valid s"
proof -
  have "repaired \<circ> repaired = repaired" by (auto simp: repaired_def replacement_def fun_eq_iff)
  then show ?thesis unfolding to_valid_def [of "to_valid s"] runes_to_valid by (simp add: to_valid_def)
qed

text \<open>Longer encodings have no byte below 128.\<close>

lemma is_rune_bytes:
  assumes "is_rune r"
  shows "(\<exists>c. r = [c] \<and> byte c < 128) \<or> (1 < length r \<and> (\<forall>c \<in> set r. 128 \<le> byte c))"
proof -
  have "0 < rune_size r" "rune_size r = length r" using assms by (auto simp: is_rune_def)
  from this show ?thesis by (cases rule: rune_size_cases) (auto simp: rune_size_forms cont_byte_def)
qed

lemma runes_ascii: "(\<forall>c \<in> set s. byte c < 128) \<Longrightarrow> runes s = map (\<lambda>c. [c]) s"
proof (induction s)
  case (Cons c cs)
  then show ?case using runes_append [of "[c]" cs] is_rune_ascii by simp
qed simp

lemma to_valid_Nil [simp]: "to_valid [] = []"
  by (simp add: to_valid_def)

lemma to_valid_ascii: "(\<forall>c \<in> set s. of_char c < (128 :: nat)) \<Longrightarrow> to_valid s = s"
  by (simp add: to_valid_def runes_ascii repaired_def comp_def)

lemma valid_utf8_ascii: "(\<forall>c \<in> set s. of_char c < (128 :: nat)) \<Longrightarrow> valid_utf8 s"
  by (simp add: valid_utf8_def to_valid_ascii)

lemma to_valid_empty [simp]: "to_valid s = [] \<longleftrightarrow> s = []"
  by (cases s) (simp_all add: to_valid_def runes.simps [of s] runes.simps [of "_ # _"] repaired_def replacement_def)

end
