(* ===== verification/Json.thy ===== *)
theory Json
  imports Utf8
begin

text \<open>
  The rules of \<^verbatim>\<open>encoding/json\<close> that the server's structs go through, on JSON values: which
  members a struct is written as, which object members set which struct field, and when
  decoding fails. The text of a value is in \<^verbatim>\<open>Json_Text\<close>.
\<close>

section \<open>Values\<close>

text \<open>
  A number is an integer, or some other literal that no field of the program accepts. The
  members of an object come in the order of the text and may repeat a name.
\<close>

datatype json =
    JNull
  | JBool bool
  | JInt int
  | JReal string
  | JStr string
  | JArr "json list"
  | JObj "(string \<times> json) list"

section \<open>Strings\<close>

text \<open>
  A JSON string holds the bytes of the Go string; its stray bytes are replaced when it is written
  or read as text (\<^verbatim>\<open>Json_Text\<close>).
\<close>

definition enc_string :: "string \<Rightarrow> json" where
  "enc_string s = JStr s"

text \<open>A string member with \<^verbatim>\<open>omitempty\<close>.\<close>

definition omitempty :: "string \<Rightarrow> string \<Rightarrow> (string \<times> json) list" where
  "omitempty name s = (if s = '''' then [] else [(name, enc_string s)])"

text \<open>What text keeps of a value.\<close>

fun scrub_json :: "json \<Rightarrow> json" where
  "scrub_json (JStr s) = JStr (to_valid s)"
| "scrub_json (JArr js) = JArr (map scrub_json js)"
| "scrub_json (JObj kvs) = JObj (map (\<lambda>(k, v). (to_valid k, scrub_json v)) kvs)"
| "scrub_json j = j"

section \<open>Structs\<close>

text \<open>
  A member sets the field whose name it equals, or else the first field it equals up to case.
  Case folding maps two characters outside ASCII to ASCII letters: the Kelvin sign to K and the
  long s to S.
\<close>

fun fold_name :: "string \<Rightarrow> string" where
  "fold_name (a # b # c # s) =
     (if map of_char [a, b, c] = [226, 132, 170 :: nat] then CHR ''K'' # fold_name s
      else if map of_char [a, b] = [197, 191 :: nat] then CHR ''S'' # fold_name (c # s)
      else (if 97 \<le> (of_char a :: nat) \<and> (of_char a :: nat) \<le> 122 then char_of ((of_char a :: nat) - 32) else a)
           # fold_name (b # c # s))"
| "fold_name [a, b] =
     (if map of_char [a, b] = [197, 191 :: nat] then ''S''
      else (if 97 \<le> (of_char a :: nat) \<and> (of_char a :: nat) \<le> 122 then char_of ((of_char a :: nat) - 32) else a)
           # fold_name [b])"
| "fold_name [a] = [if 97 \<le> (of_char a :: nat) \<and> (of_char a :: nat) \<le> 122 then char_of ((of_char a :: nat) - 32) else a]"
| "fold_name [] = []"

type_synonym 'r fields = "(string \<times> (json \<Rightarrow> 'r \<Rightarrow> 'r option)) list"

definition lookup_field :: "'r fields \<Rightarrow> string \<Rightarrow> (json \<Rightarrow> 'r \<Rightarrow> 'r option) option" where
  "lookup_field fs k = (case map_of fs k of
       Some upd \<Rightarrow> Some upd
     | None \<Rightarrow> map_option snd (find (\<lambda>(n, _). fold_name n = fold_name k) fs))"

text \<open>
  \<open>None\<close> is a value of the wrong type somewhere: the package goes on decoding and then returns the
  error, and every caller discards what was decoded.
\<close>

fun decode_members :: "'r fields \<Rightarrow> (string \<times> json) list \<Rightarrow> 'r \<Rightarrow> 'r option" where
  "decode_members fs [] r = Some r"
| "decode_members fs ((k, v) # kvs) r =
     (case lookup_field fs k of
        None \<Rightarrow> decode_members fs kvs r
      | Some upd \<Rightarrow> (case upd v r of None \<Rightarrow> None | Some r' \<Rightarrow> decode_members fs kvs r'))"

definition decode_struct :: "'r fields \<Rightarrow> json \<Rightarrow> 'r \<Rightarrow> 'r option" where
  "decode_struct fs j r = (case j of
       JNull \<Rightarrow> Some r
     | JObj kvs \<Rightarrow> decode_members fs kvs r
     | _ \<Rightarrow> None)"

text \<open>Fields of the basic types; \<^verbatim>\<open>null\<close> leaves a field as it is.\<close>

definition decode_string :: "json \<Rightarrow> string \<Rightarrow> string option" where
  "decode_string j old = (case j of JNull \<Rightarrow> Some old | JStr s \<Rightarrow> Some s | _ \<Rightarrow> None)"

definition decode_bool :: "json \<Rightarrow> bool \<Rightarrow> bool option" where
  "decode_bool j old = (case j of JNull \<Rightarrow> Some old | JBool b \<Rightarrow> Some b | _ \<Rightarrow> None)"

definition decode_int64 :: "json \<Rightarrow> int64 \<Rightarrow> int64 option" where
  "decode_int64 j old = (case j of
       JNull \<Rightarrow> Some old
     | JInt i \<Rightarrow> if - (2 ^ 63) \<le> i \<and> i < 2 ^ 63 then Some (word_of_int i) else None
     | _ \<Rightarrow> None)"

text \<open>A slice is replaced element by element, each from the zero value; \<^verbatim>\<open>null\<close> makes it nil.\<close>

fun decode_elements :: "(json \<Rightarrow> 'a \<Rightarrow> 'a option) \<Rightarrow> 'a \<Rightarrow> json list \<Rightarrow> 'a list option" where
  "decode_elements f z [] = Some []"
| "decode_elements f z (j # js) = (case f j z of
       None \<Rightarrow> None | Some a \<Rightarrow> map_option ((#) a) (decode_elements f z js))"

definition decode_slice :: "(json \<Rightarrow> 'a \<Rightarrow> 'a option) \<Rightarrow> 'a \<Rightarrow> json \<Rightarrow> 'a list option" where
  "decode_slice f z j = (case j of
       JNull \<Rightarrow> Some [] | JArr js \<Rightarrow> decode_elements f z js | _ \<Rightarrow> None)"

text \<open>A pointer is set to nil by \<^verbatim>\<open>null\<close>; otherwise it is allocated if nil and its target decoded.\<close>

definition decode_pointer :: "(json \<Rightarrow> 'a \<Rightarrow> 'a option) \<Rightarrow> 'a \<Rightarrow> json \<Rightarrow> 'a option \<Rightarrow> 'a option option" where
  "decode_pointer f z j old = (case j of
       JNull \<Rightarrow> Some None
     | _ \<Rightarrow> map_option Some (f j (case old of None \<Rightarrow> z | Some a \<Rightarrow> a)))"

subsection \<open>Decoding what was encoded\<close>

lemma lookup_field_exact: "map_of fs k = Some upd \<Longrightarrow> lookup_field fs k = Some upd"
  by (simp add: lookup_field_def)

lemma decode_enc_string [simp]:
  "decode_string (enc_string s) old = Some s"
  "decode_string (scrub_json (enc_string s)) old = Some (to_valid s)"
  by (simp_all add: decode_string_def enc_string_def)

lemma decode_JInt [simp]: "decode_int64 (JInt (sint w)) old = Some w"
  using sint_ge [of w] sint_lt [of w] by (simp add: decode_int64_def)

lemma decode_JBool [simp]: "decode_bool (JBool b) old = Some b"
  by (simp add: decode_bool_def)

lemma decode_members_append:
  "decode_members fs (xs @ ys) r = Option.bind (decode_members fs xs r) (decode_members fs ys)"
  by (induction fs xs r rule: decode_members.induct) (simp_all split: option.splits)

lemma decode_elements_map:
  "(\<And>a. a \<in> set as \<Longrightarrow> f (g a) z = Some a) \<Longrightarrow> decode_elements f z (map g as) = Some as"
  by (induction as) simp_all

end
