(* ===== verification/Json_Text.thy ===== *)
theory Json_Text
  imports Json
begin

text \<open>
  The text of JSON values as \<^verbatim>\<open>encoding/json\<close> writes and reads it: \<^verbatim>\<open>Marshal\<close> writes compactly and
  escapes what is unsafe in HTML, \<^verbatim>\<open>Unmarshal\<close> reads one value that fills the text, and a
  \<^verbatim>\<open>Decoder\<close> reads the first value of a stream and leaves the rest. The main lemma is that what was
  written is read back.
\<close>

section \<open>Writing\<close>

abbreviation quote :: char where
  "quote \<equiv> CHR 0x22"

abbreviation backslash :: char where
  "backslash \<equiv> CHR 0x5C"

definition u_escape :: "nat \<Rightarrow> string" where
  "u_escape n = backslash # CHR ''u'' # map (\<lambda>k. hex_alphabet ! (n div 16 ^ k mod 16)) [3, 2, 1, 0]"

text \<open>The characters with an escape of their own, and those that need one.\<close>

definition short_escapes :: "(char \<times> char) list" where
  "short_escapes = [(quote, quote), (backslash, backslash), (CHR 0x08, CHR ''b''), (CHR 0x0C, CHR ''f''),
     (CHR 0x0A, CHR ''n''), (CHR 0x0D, CHR ''r''), (CHR 0x09, CHR ''t'')]"

definition html_unsafe :: "char \<Rightarrow> bool" where
  "html_unsafe c \<longleftrightarrow> byte c < 32 \<or> c \<in> set ''<>&''"

text \<open>
  One character of a string. Besides the unsafe ones a stray byte is escaped as U+FFFD, and so are the
  line separators U+2028 and U+2029, which JavaScript does not allow in strings.
\<close>

definition escape_rune :: "string \<Rightarrow> string" where
  "escape_rune r =
     (if r = [] then u_escape 65533
      else if r = utf8 8232 then u_escape 8232
      else if r = utf8 8233 then u_escape 8233
      else case r of
        [c] \<Rightarrow> (case map_of short_escapes c of
            Some e \<Rightarrow> [backslash, e]
          | None \<Rightarrow> if html_unsafe c then u_escape (byte c) else [c])
      | _ \<Rightarrow> r)"

definition marshal_string :: "string \<Rightarrow> string" where
  "marshal_string s = quote # concat (map escape_rune (runes s)) @ [quote]"

definition marshal_int :: "int \<Rightarrow> string" where
  "marshal_int i = (if i < 0 then CHR ''-'' # digits (nat (- i)) else digits (nat i))"

fun commas :: "string list \<Rightarrow> string" where
  "commas [] = ''''"
| "commas [s] = s"
| "commas (s # ss) = s @ CHR '','' # commas ss"

fun Marshal :: "json \<Rightarrow> string" where
  "Marshal JNull = ''null''"
| "Marshal (JBool b) = (if b then ''true'' else ''false'')"
| "Marshal (JInt i) = marshal_int i"
| "Marshal (JReal l) = l"
| "Marshal (JStr s) = marshal_string s"
| "Marshal (JArr js) = CHR ''['' # commas (map Marshal js) @ '']''"
| "Marshal (JObj kvs) = CHR ''{'' # commas (map (\<lambda>(k, v). marshal_string k @ CHR '':'' # Marshal v) kvs) @ ''}''"

section \<open>Reading\<close>

definition skip_space :: "string \<Rightarrow> string" where
  "skip_space = dropWhile (\<lambda>c. c \<in> set [CHR '' '', CHR 0x09, CHR 0x0A, CHR 0x0D])"

subsection \<open>Strings\<close>

text \<open>A string literal is read as bytes and the 16-bit units of its \<^verbatim>\<open>u\<close> escapes.\<close>

datatype piece = Raw char | Unit nat

definition unhex :: "char \<Rightarrow> nat option" where
  "unhex c = (if 48 \<le> byte c \<and> byte c \<le> 57 then Some (byte c - 48)
     else if 97 \<le> byte c \<and> byte c \<le> 102 then Some (byte c - 87)
     else if 65 \<le> byte c \<and> byte c \<le> 70 then Some (byte c - 55) else None)"

definition unescape :: "char \<Rightarrow> char option" where
  "unescape e = (if e = CHR ''/'' then Some e else map_of (map (\<lambda>(c, e). (e, c)) short_escapes) e)"

fun scan_string :: "string \<Rightarrow> (piece list \<times> string) option" where
  "scan_string [] = None"
| "scan_string (c # s) =
     (if c = quote then Some ([], s)
      else if c = backslash then (case s of
          [] \<Rightarrow> None
        | e # s' \<Rightarrow>
            if e = CHR ''u'' then (case s' of
                w # x # y # z # s'' \<Rightarrow> (case those (map unhex [w, x, y, z]) of
                    Some ns \<Rightarrow> map_option (\<lambda>(ps, r). (Unit (foldl (\<lambda>n d. 16 * n + d) 0 ns) # ps, r)) (scan_string s'')
                  | None \<Rightarrow> None)
              | _ \<Rightarrow> None)
            else (case unescape e of
                Some b \<Rightarrow> map_option (\<lambda>(ps, r). (Raw b # ps, r)) (scan_string s')
              | None \<Rightarrow> None))
      else if byte c < 32 then None
      else map_option (\<lambda>(ps, r). (Raw c # ps, r)) (scan_string s))"

text \<open>A high unit followed by a low one is one character; any other surrogate is U+FFFD.\<close>

fun pieces_text :: "piece list \<Rightarrow> string" where
  "pieces_text [] = []"
| "pieces_text (Raw c # ps) = c # pieces_text ps"
| "pieces_text (Unit h # Unit l # ps) =
     (if 55296 \<le> h \<and> h < 56320 \<and> 56320 \<le> l \<and> l < 57344
      then utf8 (65536 + (h - 55296) * 1024 + (l - 56320)) @ pieces_text ps
      else utf8 h @ pieces_text (Unit l # ps))"
| "pieces_text (Unit h # ps) = utf8 h @ pieces_text ps"

definition parse_string :: "string \<Rightarrow> (string \<times> string) option" where
  "parse_string s = map_option (\<lambda>(ps, r). (to_valid (pieces_text ps), r)) (scan_string s)"

subsection \<open>Numbers\<close>

text \<open>
  A literal with a fraction or an exponent is kept as it is. After a leading zero the
  integer part has ended.
\<close>

definition digits_of :: "string \<Rightarrow> (string \<times> string) option" where
  "digits_of s = (let ds = takeWhile is_digit s
     in if ds = [] then None
        else if hd ds = CHR ''0'' then Some (''0'', tl s) else Some (ds, dropWhile is_digit s))"

definition fraction_of :: "string \<Rightarrow> (string \<times> string) option" where
  "fraction_of s = (case s of
       [] \<Rightarrow> Some ([], s)
     | c # s' \<Rightarrow> if c \<noteq> CHR ''.'' then Some ([], s)
         else if takeWhile is_digit s' = [] then None
         else Some (c # takeWhile is_digit s', dropWhile is_digit s'))"

definition exponent_of :: "string \<Rightarrow> (string \<times> string) option" where
  "exponent_of s = (case s of
       [] \<Rightarrow> Some ([], s)
     | c # s' \<Rightarrow> if c \<notin> set ''eE'' then Some ([], s)
         else (let sign = takeWhile (\<lambda>x. x \<in> set ''+-'') (take 1 s'); s'' = drop (length sign) s'
           in if takeWhile is_digit s'' = [] then None
              else Some (c # sign @ takeWhile is_digit s'', dropWhile is_digit s'')))"

definition parse_number :: "string \<Rightarrow> (json \<times> string) option" where
  "parse_number s = (let neg = (take 1 s = ''-'') in
     case digits_of (if neg then tl s else s) of None \<Rightarrow> None | Some (ds, s1) \<Rightarrow>
     (case fraction_of s1 of None \<Rightarrow> None | Some (fs, s2) \<Rightarrow>
     (case exponent_of s2 of None \<Rightarrow> None | Some (es, s3) \<Rightarrow>
       Some (if fs @ es = [] then JInt (if neg then - int (undigits ds) else int (undigits ds))
             else JReal ((if neg then ''-'' else []) @ ds @ fs @ es), s3))))"

definition parse_word :: "string \<Rightarrow> (json \<times> string) option" where
  "parse_word s = map_option (\<lambda>(w, j). (j, drop (length w) s))
     (find (\<lambda>(w, _). HasPrefix s w) [(''true'', JBool True), (''false'', JBool False), (''null'', JNull)])"

subsection \<open>Values\<close>

text \<open>
  \<open>d\<close> is how many more arrays and objects may be open at once. The tests on lengths hold
  always; they only let the recursion be seen to end.
\<close>

function
  parse_value :: "nat \<Rightarrow> string \<Rightarrow> (json \<times> string) option" and
  parse_elements :: "nat \<Rightarrow> string \<Rightarrow> (json list \<times> string) option" and
  parse_members :: "nat \<Rightarrow> string \<Rightarrow> ((string \<times> json) list \<times> string) option"
where
  "parse_value d s = (case skip_space s of
       [] \<Rightarrow> None
     | c # r \<Rightarrow>
         if c = CHR ''['' then
           (if d = 0 then None
            else if take 1 (skip_space r) = '']'' then Some (JArr [], tl (skip_space r))
            else map_option (\<lambda>(js, r'). (JArr js, r')) (parse_elements (d - 1) r))
         else if c = CHR ''{'' then
           (if d = 0 then None
            else if take 1 (skip_space r) = ''}'' then Some (JObj [], tl (skip_space r))
            else map_option (\<lambda>(kvs, r'). (JObj kvs, r')) (parse_members (d - 1) r))
         else if c = quote then map_option (\<lambda>(t, r'). (JStr t, r')) (parse_string r)
         else if c = CHR ''-'' \<or> is_digit c then parse_number (c # r)
         else parse_word (c # r))"
| "parse_elements d s = (case parse_value d s of
       None \<Rightarrow> None
     | Some (j, r) \<Rightarrow> (case skip_space r of
           [] \<Rightarrow> None
         | c # r' \<Rightarrow>
             if c = CHR '']'' then Some ([j], r')
             else if c = CHR '','' \<and> length r' < length s then
               map_option (\<lambda>(js, t). (j # js, t)) (parse_elements d r')
             else None))"
| "parse_members d s = (case skip_space s of
       [] \<Rightarrow> None
     | q # r0 \<Rightarrow> if q \<noteq> quote then None else (case parse_string r0 of
           None \<Rightarrow> None
         | Some (k, r1) \<Rightarrow> (case skip_space r1 of
               [] \<Rightarrow> None
             | c # r2 \<Rightarrow> if c \<noteq> CHR '':'' then None else (case parse_value d r2 of
                   None \<Rightarrow> None
                 | Some (j, r3) \<Rightarrow> (case skip_space r3 of
                       [] \<Rightarrow> None
                     | e # r4 \<Rightarrow>
                         if e = CHR ''}'' then Some ([(k, j)], r4)
                         else if e = CHR '','' \<and> length r4 < length s then
                           map_option (\<lambda>(kvs, t). ((k, j) # kvs, t)) (parse_members d r4)
                         else None)))))"
  by pat_completeness auto
termination
  by (relation "measures [
      \<lambda>x. case x of Inl (d, _) \<Rightarrow> 2 * d | Inr (Inl (d, _)) \<Rightarrow> 2 * d + 1 | Inr (Inr (d, _)) \<Rightarrow> 2 * d + 1,
      \<lambda>x. case x of Inl (_, s) \<Rightarrow> length s | Inr (Inl (_, s)) \<Rightarrow> length s | Inr (Inr (_, s)) \<Rightarrow> length s]") auto

declare parse_value.simps [simp del] parse_elements.simps [simp del] parse_members.simps [simp del]

definition maxNestingDepth :: nat where
  "maxNestingDepth = 10000"

text \<open>The value of a text, and the first value of a stream.\<close>

definition Unmarshal :: "string \<Rightarrow> json option" where
  "Unmarshal s = (case parse_value maxNestingDepth s of
       None \<Rightarrow> None | Some (j, r) \<Rightarrow> if skip_space r = [] then Some j else None)"

definition Decode :: "string \<Rightarrow> json option" where
  "Decode s = map_option fst (parse_value maxNestingDepth s)"

section \<open>Reading what was written\<close>

subsection \<open>Strings\<close>

lemma unhex_hex:
  assumes "k < 16"
  shows "unhex (hex_alphabet ! k) = Some k"
proof -
  have "list_all (\<lambda>k. unhex (hex_alphabet ! k) = Some k) [0..<16]"
    by (simp add: hex_alphabet_def unhex_def upt_rec)
  then show ?thesis using assms by (simp add: list_all_iff)
qed

lemma scan_u_escape:
  assumes "n < 65536"
  shows "scan_string (u_escape n @ s) = map_option (\<lambda>(ps, r). (Unit n # ps, r)) (scan_string s)"
proof -
  let ?m = "n div 16" and ?k = "n div 256" and ?j = "n div 4096"
  have "?k = ?m div 16" "?j = ?k div 16" by (simp_all flip: div_mult2_eq)
  then have "16 * ?m + n mod 16 = n" "16 * ?k + ?m mod 16 = ?m" "16 * ?j + ?k mod 16 = ?k" by simp_all
  moreover have j: "?j < 16" using assms by (simp add: div_less_iff_less_mult)
  ultimately have "16 * (16 * (16 * (?j mod 16) + ?k mod 16) + ?m mod 16) + n mod 16 = n" by simp
  then show ?thesis using unhex_hex [OF j] j by (simp add: u_escape_def unhex_hex)
qed

lemma scan_raw:
  "(\<forall>c \<in> set cs. 32 \<le> byte c \<and> c \<noteq> quote \<and> c \<noteq> backslash) \<Longrightarrow>
     scan_string (cs @ s) = map_option (\<lambda>(ps, r). (map Raw cs @ ps, r)) (scan_string s)"
  by (induction cs) (auto simp: option.map_comp comp_def split_def option.map_ident)

lemma pieces_unit: "\<not> (55296 \<le> h \<and> h < 56320) \<Longrightarrow> pieces_text (Unit h # ps) = utf8 h @ pieces_text ps"
  by (cases "Unit h # ps" rule: pieces_text.cases) auto

lemma pieces_raw: "pieces_text (map Raw cs @ ps) = cs @ pieces_text ps"
  by (induction cs) simp_all

text \<open>What a character of a string is written as reads back as that character.\<close>

definition reads_as :: "string \<Rightarrow> string \<Rightarrow> bool" where
  "reads_as t r \<longleftrightarrow> (\<exists>ps. (\<forall>s. scan_string (t @ s) = map_option (\<lambda>(qs, u). (ps @ qs, u)) (scan_string s)) \<and>
     (\<forall>qs. pieces_text (ps @ qs) = r @ pieces_text qs))"

lemma reads_as_u_escape: "n < 65536 \<Longrightarrow> \<not> (55296 \<le> n \<and> n < 56320) \<Longrightarrow> reads_as (u_escape n) (utf8 n)"
  unfolding reads_as_def by (rule exI [of _ "[Unit n]"]) (simp add: scan_u_escape pieces_unit)

lemma reads_as_raw:
  "(\<forall>c \<in> set cs. 32 \<le> byte c \<and> c \<noteq> quote \<and> c \<noteq> backslash) \<Longrightarrow> reads_as cs cs"
  unfolding reads_as_def by (rule exI [of _ "map Raw cs"]) (simp add: scan_raw pieces_raw)

lemma short_escape_read: "map_of short_escapes c = Some e \<Longrightarrow> unescape e = Some c \<and> e \<noteq> CHR ''u''"
  by (auto simp: short_escapes_def unescape_def split: if_splits)

lemma reads_as_short: "map_of short_escapes c = Some e \<Longrightarrow> reads_as [backslash, e] [c]"
  using short_escape_read [of c e] unfolding reads_as_def by (intro exI [of _ "[Raw c]"]) simp

lemma utf8_distinct: "utf8 8233 \<noteq> utf8 8232"
proof -
  have "map byte (utf8 8233) \<noteq> map byte (utf8 8232)" by (simp add: utf8_def)
  then show ?thesis by auto
qed

lemma reads_as_escape_rune:
  assumes "r = [] \<or> is_rune r"
  shows "reads_as (escape_rune r) (repaired r)"
proof -
  have u: "utf8 65533 = replacement" "length (utf8 8232) = 3" "length (utf8 8233) = 3"
    by (simp_all add: utf8_def replacement_def)
  consider "r = []" | "r = utf8 8232" | "r = utf8 8233" | c where "r = [c]" "byte c < 128"
    | "r \<noteq> utf8 8232" "r \<noteq> utf8 8233" "1 < length r" "\<forall>c \<in> set r. 128 \<le> byte c"
    using assms is_rune_bytes [of r] by blast
  then show ?thesis
  proof cases
    case 1
    then show ?thesis using reads_as_u_escape [of 65533] u by (simp add: escape_rune_def repaired_def)
  next
    case 2
    then show ?thesis using reads_as_u_escape [of 8232] u by (auto simp: escape_rune_def repaired_def utf8_distinct)
  next
    case 3
    then show ?thesis using reads_as_u_escape [of 8233] u by (auto simp: escape_rune_def repaired_def utf8_distinct)
  next
    case (4 c)
    have "length r = 1" using 4 by simp
    then have r: "r \<noteq> utf8 8232" "r \<noteq> utf8 8233" using u by fastforce+
    show ?thesis
    proof (cases "map_of short_escapes c")
      case None
      then have "c \<noteq> quote" "c \<noteq> backslash" by (auto simp: short_escapes_def split: if_splits)
      then show ?thesis
        using None 4 r reads_as_u_escape [of "byte c"] reads_as_raw [of "[c]"]
        by (auto simp: escape_rune_def repaired_def utf8_def html_unsafe_def)
    next
      case (Some e)
      then show ?thesis using 4 r reads_as_short [OF Some] by (simp add: escape_rune_def repaired_def)
    qed
  next
    case 5
    then have "reads_as r r" by (intro reads_as_raw) auto
    moreover have "escape_rune r = r" using 5 by (cases r rule: remdups_adj.cases) (auto simp: escape_rune_def)
    ultimately show ?thesis using 5 by (auto simp: repaired_def)
  qed
qed

text \<open>Most characters are written as they are.\<close>

lemma marshal_string_plain:
  assumes "\<forall>c \<in> set s. byte c < 128 \<and> \<not> html_unsafe c \<and> c \<noteq> quote \<and> c \<noteq> backslash"
  shows "marshal_string s = quote # s @ [quote]"
proof -
  have "escape_rune [c] = [c]" if c: "c \<in> set s" for c
  proof -
    have "tl (utf8 8232) \<noteq> []" "tl (utf8 8233) \<noteq> []" by (simp_all add: utf8_def)
    then have u: "[c] \<noteq> utf8 8232" "[c] \<noteq> utf8 8233" by (metis list.sel(3))+
    have plain: "\<not> html_unsafe c" "c \<noteq> quote" "c \<noteq> backslash" using assms c by blast+
    have "html_unsafe e \<or> e = quote \<or> e = backslash" if "e \<in> fst ` set short_escapes" for e
      using that unfolding short_escapes_def by (simp, elim disjE; simp add: html_unsafe_def)
    then have "c \<notin> fst ` set short_escapes" using plain by blast
    then have "map_of short_escapes c = None" by (simp add: map_of_eq_None_iff)
    then show ?thesis using plain u by (simp add: escape_rune_def)
  qed
  then have "concat (map escape_rune (map (\<lambda>c. [c]) s)) = s" by (induction s) simp_all
  moreover have "runes s = map (\<lambda>c. [c]) s" using assms by (intro runes_ascii) blast
  ultimately show ?thesis unfolding marshal_string_def by simp
qed

lemma reads_as_concat:
  "(\<forall>r \<in> set rs. reads_as (f r) (g r)) \<Longrightarrow> reads_as (concat (map f rs)) (concat (map g rs))"
proof (induction rs)
  case Nil
  show ?case unfolding reads_as_def by (rule exI [of _ "[]"]) (simp add: option.map_id flip: id_def)
next
  case (Cons r rs)
  obtain ps where ps: "\<And>s. scan_string (f r @ s) = map_option (\<lambda>(qs, u). (ps @ qs, u)) (scan_string s)"
    "\<And>qs. pieces_text (ps @ qs) = g r @ pieces_text qs"
    using Cons.prems by (auto simp: reads_as_def)
  obtain ps' where ps': "\<And>s. scan_string (concat (map f rs) @ s) = map_option (\<lambda>(qs, u). (ps' @ qs, u)) (scan_string s)"
    "\<And>qs. pieces_text (ps' @ qs) = concat (map g rs) @ pieces_text qs"
    using Cons by (auto simp: reads_as_def)
  show ?case unfolding reads_as_def
    by (rule exI [of _ "ps @ ps'"]) (simp add: ps ps' option.map_comp comp_def split_def)
qed

lemma parse_marshal_string:
  "\<exists>t. marshal_string s @ rest = quote # t \<and> parse_string t = Some (to_valid s, rest)"
proof -
  have "reads_as (concat (map escape_rune (runes s))) (to_valid s)"
    unfolding to_valid_def by (rule reads_as_concat) (auto intro: reads_as_escape_rune set_runes)
  then obtain ps where ps: "\<And>u. scan_string (concat (map escape_rune (runes s)) @ u) =
      map_option (\<lambda>(qs, u). (ps @ qs, u)) (scan_string u)"
    "\<And>qs. pieces_text (ps @ qs) = to_valid s @ pieces_text qs" by (auto simp: reads_as_def)
  have "parse_string (concat (map escape_rune (runes s)) @ quote # rest) = Some (to_valid s, rest)"
    using ps(2) [of "[]"] by (simp add: parse_string_def ps(1))
  then show ?thesis by (simp add: marshal_string_def)
qed

subsection \<open>Numbers\<close>

text \<open>What may follow a number without being read as part of it.\<close>

definition delimited :: "string \<Rightarrow> bool" where
  "delimited s \<longleftrightarrow> s = [] \<or> (\<not> is_digit (hd s) \<and> hd s \<notin> set ''.eE'')"

lemma digits_shape:
  "digits n \<noteq> []" "\<forall>c \<in> set (digits n). is_digit c" "hd (digits n) = CHR ''0'' \<longleftrightarrow> n = 0"
proof -
  have "digits n \<noteq> [] \<and> (\<forall>c \<in> set (digits n). is_digit c) \<and> (hd (digits n) = CHR ''0'' \<longleftrightarrow> n = 0)"
  proof (induction n rule: digits.induct)
    case (1 n)
    have d: "is_digit (char_of (48 + k))" "char_of (48 + k) = CHR ''0'' \<longleftrightarrow> k = 0" if "k < 10" for k :: nat
    proof -
      have b: "byte (char_of (48 + k)) = 48 + k" using that by simp
      then show "is_digit (char_of (48 + k))" using that by (simp add: is_digit_def)
      have "char_of (48 + k) = CHR ''0'' \<longleftrightarrow> byte (char_of (48 + k)) = byte (CHR ''0'')"
        by (simp only: of_char_eq_iff)
      then show "char_of (48 + k) = CHR ''0'' \<longleftrightarrow> k = 0" unfolding b by simp
    qed
    show ?case
    proof (cases "n < 10")
      case True
      then show ?thesis using d [of n] by (simp add: digits.simps [of n])
    next
      case False
      then show ?thesis using 1 d(1) [of "n mod 10"] by (auto simp: digits.simps [of n] div_eq_0_iff)
    qed
  qed
  then show "digits n \<noteq> []" "\<forall>c \<in> set (digits n). is_digit c" "hd (digits n) = CHR ''0'' \<longleftrightarrow> n = 0" by auto
qed

lemma delimited_digits:
  assumes "delimited s"
  shows "takeWhile is_digit (digits n @ s) = digits n" "dropWhile is_digit (digits n @ s) = s"
  using assms digits_shape(2) [of n]
  by (cases s; simp add: delimited_def takeWhile_append2 dropWhile_append2)+

lemma digits_0: "digits 0 = ''0''"
  using digits_shape(3) [of 0] by (simp add: digits.simps [of 0])

lemma parse_marshal_int:
  assumes "delimited s"
  shows "parse_number (marshal_int i @ s) = Some (JInt i, s)"
proof -
  have ds: "digits_of (digits n @ s) = Some (digits n, s)" for n
    using delimited_digits [OF assms, of n] digits_shape(1,3) [of n]
    by (cases "n = 0") (simp_all add: digits_of_def digits_0)
  have "take 1 (digits n @ s) \<noteq> ''-''" for n
    using digits_shape(1,2) [of n] by (cases "digits n") (auto simp: is_digit_def)
  moreover have "fraction_of s = Some ([], s)" "exponent_of s = Some ([], s)"
    using assms by (auto simp: delimited_def fraction_of_def exponent_of_def split: list.split)
  ultimately show ?thesis by (simp add: parse_number_def marshal_int_def ds undigits_digits)
qed

subsection \<open>Values\<close>

text \<open>Values that text can carry at a nesting of at most \<open>d\<close>; literals that are no integers are left out.\<close>

fun fits :: "nat \<Rightarrow> json \<Rightarrow> bool" where
  "fits d (JReal l) \<longleftrightarrow> False"
| "fits d (JArr js) \<longleftrightarrow> 0 < d \<and> list_all (fits (d - 1)) js"
| "fits d (JObj kvs) \<longleftrightarrow> 0 < d \<and> list_all (\<lambda>(k, v). fits (d - 1) v) kvs"
| "fits d j \<longleftrightarrow> True"

lemma skip_space_Cons:
  "c \<notin> set [CHR '' '', CHR 0x09, CHR 0x0A, CHR 0x0D] \<Longrightarrow> skip_space (c # s) = c # s"
  by (simp add: skip_space_def)

lemma marshal_int_head: "\<exists>c t. marshal_int i = c # t \<and> (c = CHR ''-'' \<or> is_digit c)"
  using digits_shape(1,2) [of "nat i"] by (cases "digits (nat i)") (auto simp: marshal_int_def)

lemma marshal_head:
  assumes "fits d j"
  shows "\<exists>c t. Marshal j = c # t \<and> c \<notin> set ['' '' ! 0, CHR 0x09, CHR 0x0A, CHR 0x0D] \<and> c \<noteq> CHR '']''"
proof (cases j)
  case (JInt i)
  then show ?thesis using marshal_int_head [of i] by (auto simp: is_digit_def)
qed (use assms in \<open>auto simp: marshal_string_def\<close>)

lemma parse_commas:
  assumes "js \<noteq> []"
    and "\<forall>j \<in> set js. \<forall>s. delimited s \<longrightarrow> parse_value d (Marshal j @ s) = Some (scrub_json j, s)"
  shows "parse_elements d (commas (map Marshal js) @ CHR '']'' # rest) = Some (map scrub_json js, rest)"
  using assms
proof (induction js rule: induct_list012)
  case (2 j)
  have "delimited (CHR '']'' # rest)" by (simp add: delimited_def is_digit_def)
  then show ?case using 2 by (simp add: parse_elements.simps [of d] skip_space_Cons)
next
  case (3 j j' js)
  let ?r = "commas (map Marshal (j' # js)) @ CHR '']'' # rest"
  have "delimited (CHR '','' # ?r)" by (simp add: delimited_def is_digit_def)
  then have "parse_value d (Marshal j @ CHR '','' # ?r) = Some (scrub_json j, CHR '','' # ?r)" using 3(4) by simp
  moreover have "parse_elements d ?r = Some (map scrub_json (j' # js), rest)" using 3 by simp
  ultimately show ?case by (simp add: parse_elements.simps [of d "Marshal j @ _"] skip_space_Cons)
qed simp

lemma parse_pairs:
  assumes "kvs \<noteq> []"
    and "\<forall>(k, j) \<in> set kvs. \<forall>s. delimited s \<longrightarrow> parse_value d (Marshal j @ s) = Some (scrub_json j, s)"
  shows "parse_members d (commas (map (\<lambda>(k, v). marshal_string k @ CHR '':'' # Marshal v) kvs) @ CHR ''}'' # rest) =
    Some (map (\<lambda>(k, v). (to_valid k, scrub_json v)) kvs, rest)"
  using assms
proof (induction kvs rule: induct_list012)
  case (2 kv)
  obtain k j where kv: "kv = (k, j)" by fastforce
  obtain t where t: "marshal_string k @ CHR '':'' # Marshal j @ CHR ''}'' # rest = quote # t"
    "parse_string t = Some (to_valid k, CHR '':'' # Marshal j @ CHR ''}'' # rest)"
    using parse_marshal_string by blast
  have "delimited (CHR ''}'' # rest)" by (simp add: delimited_def is_digit_def)
  then show ?case using 2 t(2) by (simp add: kv t(1) parse_members.simps [of d] skip_space_Cons)
next
  case (3 kv kv' kvs)
  let ?r = "commas (map (\<lambda>(k, v). marshal_string k @ CHR '':'' # Marshal v) (kv' # kvs)) @ CHR ''}'' # rest"
  obtain k j where kv: "kv = (k, j)" by fastforce
  obtain t where t: "marshal_string k @ CHR '':'' # Marshal j @ CHR '','' # ?r = quote # t"
    "parse_string t = Some (to_valid k, CHR '':'' # Marshal j @ CHR '','' # ?r)"
    using parse_marshal_string by blast
  have l: "length ?r < Suc (length t)" using arg_cong [OF t(1), of length] by simp
  have "delimited (CHR '','' # ?r)" by (simp add: delimited_def is_digit_def)
  then have v: "parse_value d (Marshal j @ CHR '','' # ?r) = Some (scrub_json j, CHR '','' # ?r)"
    using 3(4) kv by simp
  have m: "parse_members d ?r = Some (map (\<lambda>(k, v). (to_valid k, scrub_json v)) (kv' # kvs), rest)" using 3 by simp
  have "parse_members d (quote # t) =
      Some ((to_valid k, scrub_json j) # map (\<lambda>(k, v). (to_valid k, scrub_json v)) (kv' # kvs), rest)"
    using l by (subst parse_members.simps) (simp add: skip_space_Cons t(2) v m del: commas.simps list.map)
  then show ?case using t(1) by (simp add: kv)
qed simp

lemma parse_marshal:
  "fits d j \<Longrightarrow> delimited s \<Longrightarrow> parse_value d (Marshal j @ s) = Some (scrub_json j, s)"
proof (induction j arbitrary: d s)
  case (JInt i)
  obtain c t where c: "marshal_int i = c # t" "c = CHR ''-'' \<or> is_digit c" using marshal_int_head by blast
  then have "skip_space (c # t @ s) = c # t @ s" "c \<noteq> CHR ''[''" "c \<noteq> CHR ''{''" "c \<noteq> quote"
    by (auto simp: is_digit_def skip_space_def)
  then show ?case using c parse_marshal_int [OF JInt(2), of i] by (simp add: parse_value.simps [of d])
next
  case (JStr x)
  obtain t where "marshal_string x @ s = quote # t" "parse_string t = Some (to_valid x, s)"
    using parse_marshal_string by blast
  then show ?case by (simp add: parse_value.simps [of d] skip_space_Cons)
next
  case (JArr js)
  show ?case
  proof (cases js)
    case Nil
    then show ?thesis using JArr by (simp add: parse_value.simps [of d] skip_space_Cons)
  next
    case (Cons j js')
    have f: "0 < d" "\<forall>j \<in> set js. fits (d - 1) j" using JArr(2) by (simp_all add: list_all_iff)
    have "parse_elements (d - 1) (commas (map Marshal js) @ CHR '']'' # s) = Some (map scrub_json js, s)"
      using Cons JArr(1) f(2) by (intro parse_commas) blast+
    moreover obtain c t where "Marshal j = c # t" "skip_space (c # u) = c # u" "c \<noteq> CHR '']''" for u
      using marshal_head [of "d - 1" j] f(2) Cons by (auto simp: skip_space_Cons)
    ultimately show ?thesis using f(1) Cons by (cases js') (simp_all add: parse_value.simps [of d] skip_space_Cons)
  qed
next
  case (JObj kvs)
  show ?case
  proof (cases kvs)
    case Nil
    then show ?thesis using JObj by (simp add: parse_value.simps [of d] skip_space_Cons)
  next
    case (Cons kv kvs')
    have f: "0 < d" "\<forall>(k, j) \<in> set kvs. fits (d - 1) j" using JObj(2) by (simp_all add: list_all_iff)
    have p: "\<forall>(k, j) \<in> set kvs. \<forall>u. delimited u \<longrightarrow>
        parse_value (d - 1) (Marshal j @ u) = Some (scrub_json j, u)"
    proof clarify
      fix k j u
      assume "(k, j) \<in> set kvs" "delimited u"
      then show "parse_value (d - 1) (Marshal j @ u) = Some (scrub_json j, u)"
        using f(2) by (intro JObj(1) [of "(k, j)"]) auto
    qed
    have "parse_members (d - 1) (commas (map (\<lambda>(k, v). marshal_string k @ CHR '':'' # Marshal v) kvs) @ CHR ''}'' # s) =
        Some (map (\<lambda>(k, v). (to_valid k, scrub_json v)) kvs, s)"
      using Cons by (intro parse_pairs p) simp
    moreover obtain t where "commas (map (\<lambda>(k, v). marshal_string k @ CHR '':'' # Marshal v) kvs) = quote # t"
      using Cons by (cases kv; cases kvs') (simp_all add: marshal_string_def)
    ultimately show ?thesis using f(1) by (simp add: parse_value.simps [of d] skip_space_Cons)
  qed
qed (simp_all add: parse_value.simps skip_space_Cons parse_word_def HasPrefix_def is_digit_def)

lemma Unmarshal_Marshal: "fits maxNestingDepth j \<Longrightarrow> Unmarshal (Marshal j) = Some (scrub_json j)"
  using parse_marshal [of maxNestingDepth j "[]"] by (simp add: Unmarshal_def delimited_def skip_space_def)

lemma Decode_Marshal:
  "fits maxNestingDepth j \<Longrightarrow> delimited s \<Longrightarrow> Decode (Marshal j @ s) = Some (scrub_json j)"
  using parse_marshal [of maxNestingDepth j s] by (simp add: Decode_def)

end
