(* ===== verification/Web.thy ===== *)
theory Web
  imports Pumps Auth_Laws Json_Text
begin

text \<open>
  The HTTP edge of \<^verbatim>\<open>internal/web/server.go\<close> and \<^verbatim>\<open>auth.go\<close>: the session cookie, the middleware, one
  definition per handler, and the routes. A handler takes the request, the user the middleware
  found and the state of the whole server, and returns the response and the new state.
  Logging is left out. What is not under \<^verbatim>\<open>src/\<close> is a parameter: the WebSocket handshake
  (\<^verbatim>\<open>websocket.Accept\<close>) and the embedded files.
\<close>

section \<open>Requests and responses\<close>

text \<open>Paths are clean: the router redirects others.\<close>

record request =
  rqMethod :: string
  rqPath :: string
  rqCookies :: "(string \<times> string) list"
  rqBody :: string

text \<open>A cookie as the code fills it in, the fields of \<^verbatim>\<open>http.Cookie\<close>; what becomes of its lifetime in the header is \<open>max_age_attr\<close>.\<close>

record cookie =
  ckName :: string
  ckValue :: string
  ckPath :: string
  ckHttpOnly :: bool
  ckSameSiteLax :: bool
  ckSecure :: bool
  ckMaxAge :: int

text \<open>
  \<open>rsHeaders\<close> are the headers besides the cookies, \<open>rsContent\<close> the bytes of the body; \<open>rsUpgrade\<close> is
  the connection a handshake produced, with its read limit.
\<close>

record response =
  rsStatus :: nat
  rsHeaders :: "(string \<times> string) list"
  rsCookies :: "cookie list"
  rsContent :: string
  rsUpgrade :: "(cid \<times> int) option"

definition respond :: "nat \<Rightarrow> (string \<times> string) list \<Rightarrow> string \<Rightarrow> response" where
  "respond status hs c = \<lparr>rsStatus = status, rsHeaders = hs, rsCookies = [], rsContent = c, rsUpgrade = None\<rparr>"

definition newline :: string where
  "newline = [CHR 0x0A]"

definition http_Error :: "string \<Rightarrow> nat \<Rightarrow> response" where
  "http_Error msg status = respond status
     [(''Content-Type'', ''text/plain; charset=utf-8''), (''X-Content-Type-Options'', ''nosniff'')] (msg @ newline)"

definition writeJSON :: "nat \<Rightarrow> json \<Rightarrow> response" where
  "writeJSON status v = respond status [(''Content-Type'', ''application/json'')] (Marshal v @ newline)"

definition SetCookie :: "cookie \<Rightarrow> response \<Rightarrow> response" where
  "SetCookie c r = r\<lparr>rsCookies := rsCookies r @ [c]\<rparr>"

text \<open>\<^verbatim>\<open>r.Cookie\<close>: the first cookie of that name.\<close>

definition sessionCookie :: string where
  "sessionCookie = ''chat_session''"

definition session_token :: "request \<Rightarrow> string option" where
  "session_token rq = (case map_of (rqCookies rq) sessionCookie of
       None \<Rightarrow> None | Some v \<Rightarrow> if v = '''' then None else Some v)"

section \<open>JSON bodies\<close>

definition maxBodyBytes :: nat where
  "maxBodyBytes = 4 * 2 ^ 10"

text \<open>
  The decoder sees at most \<^verbatim>\<open>maxBodyBytes\<close> bytes, and reads the first value they hold; what follows
  it is not looked at.
\<close>

definition decodeJSON :: "'r fields \<Rightarrow> 'r \<Rightarrow> request \<Rightarrow> response + 'r" where
  "decodeJSON fs zero rq =
     (case Decode (take maxBodyBytes (rqBody rq)) of
        None \<Rightarrow> Inl (http_Error ''invalid request body'' 400)
      | Some j \<Rightarrow> (case decode_struct fs j zero of
            None \<Rightarrow> Inl (http_Error ''invalid request body'' 400)
          | Some r \<Rightarrow> Inr r))"

record credentials =
  crUsername :: string
  crPassword :: string
  crDisplayName :: string

definition no_credentials :: credentials where
  "no_credentials = \<lparr>crUsername = '''', crPassword = '''', crDisplayName = ''''\<rparr>"

definition credentials_fields :: "credentials fields" where
  "credentials_fields =
     [(''username'', \<lambda>j c. map_option (\<lambda>s. c\<lparr>crUsername := s\<rparr>) (decode_string j (crUsername c))),
      (''password'', \<lambda>j c. map_option (\<lambda>s. c\<lparr>crPassword := s\<rparr>) (decode_string j (crPassword c))),
      (''display_name'', \<lambda>j c. map_option (\<lambda>s. c\<lparr>crDisplayName := s\<rparr>) (decode_string j (crDisplayName c)))]"

definition userResponse :: "User \<Rightarrow> json" where
  "userResponse u = JObj [(''username'', enc_string (uUsername u)),
     (''display_name'', enc_string (uDisplayName u))]"

definition meResponse :: "User option \<Rightarrow> json" where
  "meResponse uo = (case uo of
       None \<Rightarrow> JObj [(''authenticated'', JBool False)]
     | Some u \<Rightarrow> JObj ((''authenticated'', JBool True) # omitempty ''username'' (uUsername u) @
         omitempty ''display_name'' (uDisplayName u)))"

text \<open>The zero \<^verbatim>\<open>Stats\<close> has a nil slice of rooms, which is \<^verbatim>\<open>null\<close>.\<close>

definition stats_json :: "Stats option \<Rightarrow> json" where
  "stats_json so = (let st = (case so of None \<Rightarrow> zero_Stats | Some st \<Rightarrow> st) in
     JObj [(''connections'', JInt (int (stConnections st))),
       (''rooms'', if so = None then JNull
         else JArr (map (\<lambda>ri. JObj [(''name'', enc_string (riName ri)),
                                    (''members'', JInt (int (riMembers ri)))]) (stRooms st))),
       (''messages_total'', JInt (sint (stMessagesTotal st))),
       (''message_rate'', JInt (sint (stMessageRate st)))])"

section \<open>The server\<close>

text \<open>The underlying \<^verbatim>\<open>http.Server\<close> with its timeouts in nanoseconds; zero is none.\<close>

record http_server =
  hsAddr :: string
  hsReadHeaderTimeout :: int
  hsReadTimeout :: int
  hsWriteTimeout :: int
  hsIdleTimeout :: int

record ('env, 's) Server =
  svCfg :: Config
  svAuth :: "('env, 's) Service"
  svHttp :: http_server

definition new_http :: "Config \<Rightarrow> http_server" where
  "new_http cfg = \<lparr>hsAddr = cfgAddr cfg, hsReadHeaderTimeout = 10 * Second, hsReadTimeout = 0,
     hsWriteTimeout = 0, hsIdleTimeout = 120 * Second\<rparr>"

text \<open>
  \<^verbatim>\<open>New\<close> fails when the embedded assets are not found (\<open>noAssets\<close>). The routes it registers and
  the handler it installs are \<open>ServeHTTP\<close> below.
\<close>

datatype web_error = LocatingAssets

definition web_New :: "bool \<Rightarrow> Config \<Rightarrow> ('env, 's) Service \<Rightarrow> web_error + ('env, 's) Server" where
  "web_New noAssets cfg a = (if noAssets then Inl LocatingAssets
     else Inr \<lparr>svCfg = cfg, svAuth = a, svHttp = new_http cfg\<rparr>)"

text \<open>What all handlers share: the account database, and the hub with its connections.\<close>

record 's world =
  wAuth :: 's
  wSys :: sys

text \<open>
  The circumstances of one request: those of the database calls of the middleware, of
  registration or login, and of logout; how its query of the hub goes; the address of a
  new client.
\<close>

record 'env web_call =
  wcLookup :: 'env
  wcCall :: "'env call"
  wcLogout :: 'env
  wcTaken :: bool
  wcGaveUp :: bool
  wcConn :: cid

text \<open>
  The library the handlers rest on: the handshake answers \<open>None\<close> for an upgraded connection or
  else the error response it has written; \<open>Files\<close> serves the embedded UI.
\<close>

record web_lib =
  Accept :: "string list \<Rightarrow> request \<Rightarrow> response option"
  Files :: "request \<Rightarrow> response"

section \<open>Cookies\<close>

text \<open>
  \<^verbatim>\<open>Duration.Seconds\<close> adds the whole seconds and the fraction as \<^verbatim>\<open>float64\<close>, so the sum is rounded
  to 53 bits, to even. A positive number below \<open>2 ^ 52\<close> and not below \<open>2 ^ - 30\<close> is kept as
  a numerator over a power of two.
\<close>

definition round_even :: "nat \<Rightarrow> nat \<Rightarrow> nat" where
  "round_even p q = (let d = p div q; r = p mod q
     in if 2 * r < q \<or> (2 * r = q \<and> even d) then d else d + 1)"

definition float64 :: "nat \<Rightarrow> nat \<Rightarrow> nat \<times> nat" where
  "float64 p q = (case find (\<lambda>k. 2 ^ 52 * q \<le> p * 2 ^ k) [0..<83] of
       None \<Rightarrow> (0, 1)
     | Some k \<Rightarrow> (round_even (p * 2 ^ k) q, 2 ^ k))"

definition whole_seconds :: "nat \<Rightarrow> nat" where
  "whole_seconds d =
     (let (m, q) = float64 (d mod 10 ^ 9) (10 ^ 9);
          (m', q') = float64 (d div 10 ^ 9 * q + m) q
      in m' div q')"

definition int_Seconds :: "int \<Rightarrow> int" where
  "int_Seconds d = (if d < 0 then - int (whole_seconds (nat (- d))) else int (whole_seconds (nat d)))"

definition SessionTTL :: "('env, 's) Service \<Rightarrow> int" where
  "SessionTTL svc = sessionTTL svc"

definition setSessionCookie :: "('env, 's) Server \<Rightarrow> string \<Rightarrow> response \<Rightarrow> response" where
  "setSessionCookie sv token = SetCookie \<lparr>ckName = sessionCookie, ckValue = token, ckPath = ''/'',
     ckHttpOnly = True, ckSameSiteLax = True, ckSecure = cfgSecureCookies (svCfg sv),
     ckMaxAge = int_Seconds (SessionTTL (svAuth sv))\<rparr>"

text \<open>
  What \<^verbatim>\<open>net/http\<close> makes of the field \<^verbatim>\<open>MaxAge\<close> in the \<^verbatim>\<open>Set-Cookie\<close> header: zero leaves the attribute out
  (the browser keeps such a cookie until it is closed), a negative value is written as 0.
\<close>

definition max_age_attr :: "cookie \<Rightarrow> int option" where
  "max_age_attr ck = (if ckMaxAge ck = 0 then None else Some (max 0 (ckMaxAge ck)))"

definition clearSessionCookie :: "('env, 's) Server \<Rightarrow> response \<Rightarrow> response" where
  "clearSessionCookie sv = SetCookie \<lparr>ckName = sessionCookie, ckValue = '''', ckPath = ''/'',
     ckHttpOnly = True, ckSameSiteLax = True, ckSecure = cfgSecureCookies (svCfg sv), ckMaxAge = -1\<rparr>"

section \<open>Handlers\<close>

definition authMiddleware ::
    "crypto \<Rightarrow> ('env, 's) Server \<Rightarrow> 'env web_call \<Rightarrow> request \<Rightarrow> 's world \<Rightarrow> User option" where
  "authMiddleware K sv wc rq w = (case session_token rq of
       None \<Rightarrow> None
     | Some v \<Rightarrow> (case Authenticate K (svAuth sv) (wcLookup wc) v (wAuth w) of
           Inl _ \<Rightarrow> None | Inr user \<Rightarrow> Some user))"

definition input_text :: "input_reason \<Rightarrow> string" where
  "input_text r = ''auth: invalid input: '' @ (case r of
       BadUsername \<Rightarrow> ''username must be 3-32 characters''
     | BadPassword \<Rightarrow> ''password must be 8-128 characters''
     | BadDisplayName \<Rightarrow> ''display name must be 1-32 characters'')"

definition handleRegister ::
    "crypto \<Rightarrow> ('env, 's) Server \<Rightarrow> 'env web_call \<Rightarrow> request \<Rightarrow> 's world \<Rightarrow> response \<times> 's world" where
  "handleRegister K sv wc rq w = (case decodeJSON credentials_fields no_credentials rq of
       Inl r \<Rightarrow> (r, w)
     | Inr c \<Rightarrow>
         (let (res, a) = Register K (svAuth sv) (wcCall wc) (crUsername c) (crPassword c) (crDisplayName c) (wAuth w)
          in (case res of
                Inl e \<Rightarrow>
                  (if Is_username_taken e then http_Error ''username already taken'' 409
                   else case cause e of
                     ErrInvalidInput reason \<Rightarrow> http_Error (input_text reason) 400
                   | _ \<Rightarrow> http_Error ''could not register'' 500)
              | Inr (user, token) \<Rightarrow> setSessionCookie sv token (writeJSON 201 (userResponse user)),
              w\<lparr>wAuth := a\<rparr>)))"

definition handleLogin ::
    "crypto \<Rightarrow> ('env, 's) Server \<Rightarrow> 'env web_call \<Rightarrow> request \<Rightarrow> 's world \<Rightarrow> response \<times> 's world" where
  "handleLogin K sv wc rq w = (case decodeJSON credentials_fields no_credentials rq of
       Inl r \<Rightarrow> (r, w)
     | Inr c \<Rightarrow>
         (let (res, a) = Login K (svAuth sv) (wcCall wc) (crUsername c) (crPassword c) (wAuth w)
          in (case res of
                Inl e \<Rightarrow>
                  (if Is_invalid_credentials e then http_Error ''invalid username or password'' 401
                   else http_Error ''could not log in'' 500)
              | Inr (user, token) \<Rightarrow> setSessionCookie sv token (writeJSON 200 (userResponse user)),
              w\<lparr>wAuth := a\<rparr>)))"

definition handleLogout ::
    "crypto \<Rightarrow> ('env, 's) Server \<Rightarrow> 'env web_call \<Rightarrow> request \<Rightarrow> 's world \<Rightarrow> response \<times> 's world" where
  "handleLogout K sv wc rq w =
     (clearSessionCookie sv (respond 204 [] []),
      case session_token rq of
        None \<Rightarrow> w
      | Some v \<Rightarrow> w\<lparr>wAuth := snd (Logout K (svAuth sv) (wcLogout wc) v (wAuth w))\<rparr>)"

definition handleMe :: "User option \<Rightarrow> response" where
  "handleMe user = writeJSON 200 (meResponse user)"

text \<open>
  \<^verbatim>\<open>Hub.Snapshot\<close>: the query is taken by the hub or the request's context ends first, and
  the context may also end before the reply is read; once the hub is done there is nobody to
  take it. \<open>None\<close> is the zero \<^verbatim>\<open>Stats\<close>.
\<close>

definition Snapshot :: "bool \<Rightarrow> bool \<Rightarrow> 'a hub_scheme \<Rightarrow> Stats option \<times> 'a hub_scheme" where
  "Snapshot taken gaveUp h =
     (if hubDone h \<or> \<not> taken then (None, h)
      else let (st, h') = snapshot h in (if gaveUp then None else Some st, h'))"

definition handleRooms ::
    "'env web_call \<Rightarrow> User option \<Rightarrow> 's world \<Rightarrow> response \<times> 's world" where
  "handleRooms wc user w = (case user of
       None \<Rightarrow> (http_Error ''authentication required'' 401, w)
     | Some _ \<Rightarrow>
         (let (st, s') = Snapshot (wcTaken wc) (wcGaveUp wc) (wSys w)
          in (writeJSON 200 (stats_json st), w\<lparr>wSys := s'\<rparr>)))"

text \<open>
  \<^verbatim>\<open>handleWS\<close> up to the point where the new client's handler blocks in \<^verbatim>\<open>Register\<close>; the rest of the
  connection's life are the steps of \<^verbatim>\<open>Pumps\<close>. The client's address is one not in use.
\<close>

definition handleWS ::
    "web_lib \<Rightarrow> ('env, 's) Server \<Rightarrow> 'env web_call \<Rightarrow> request \<Rightarrow> User option \<Rightarrow> 's world \<Rightarrow>
     response \<times> 's world" where
  "handleWS lib sv wc rq user w = (case user of
       None \<Rightarrow> (http_Error ''authentication required'' 401, w)
     | Some u \<Rightarrow>
         (case Accept lib (cfgAllowedOrigins (svCfg sv)) rq of
            Some refused \<Rightarrow> (refused, w)
          | None \<Rightarrow>
              (respond 101 [] []\<lparr>rsUpgrade := Some (wcConn wc, cfgMaxMessageSize (svCfg sv))\<rparr>,
               case steps (svCfg sv) (Connect (wcConn wc) (FormatInt (uID u)) (uDisplayName u) :: unit label) (wSys w) of
                 None \<Rightarrow> w
               | Some s' \<Rightarrow> w\<lparr>wSys := s'\<rparr>)))"

section \<open>Routes\<close>

datatype route =
    Static | ApiRegister | ApiLogin | ApiLogout | ApiMe | ApiRooms | Ws | MethodNotAllowed

text \<open>
  The patterns given to the router: one with a path is preferred to \<^verbatim>\<open>GET /\<close>, which matches
  every other path; \<^verbatim>\<open>GET\<close> patterns also serve \<^verbatim>\<open>HEAD\<close>.
\<close>

definition routes :: "string \<Rightarrow> string \<Rightarrow> route" where
  "routes meth path =
     (if meth = ''POST'' \<and> path = ''/api/register'' then ApiRegister
      else if meth = ''POST'' \<and> path = ''/api/login'' then ApiLogin
      else if meth = ''POST'' \<and> path = ''/api/logout'' then ApiLogout
      else if meth = ''GET'' \<or> meth = ''HEAD'' then
        (if path = ''/api/me'' then ApiMe
         else if path = ''/api/rooms'' then ApiRooms
         else if path = ''/ws'' then Ws
         else Static)
      else MethodNotAllowed)"

text \<open>The answer of the router when a path is known for other methods only.\<close>

definition method_not_allowed :: "string \<Rightarrow> response" where
  "method_not_allowed path = (let r = http_Error ''Method Not Allowed'' 405 in r\<lparr>rsHeaders :=
     (''Allow'', if path \<in> {''/api/register'', ''/api/login'', ''/api/logout''} then ''GET, HEAD, POST''
                 else ''GET, HEAD'') # rsHeaders r\<rparr>)"

definition ServeHTTP ::
    "crypto \<Rightarrow> web_lib \<Rightarrow> ('env, 's) Server \<Rightarrow> 'env web_call \<Rightarrow> request \<Rightarrow> 's world \<Rightarrow>
     response \<times> 's world" where
  "ServeHTTP K lib sv wc rq w =
     (let user = authMiddleware K sv wc rq w
      in case routes (rqMethod rq) (rqPath rq) of
           ApiRegister \<Rightarrow> handleRegister K sv wc rq w
         | ApiLogin \<Rightarrow> handleLogin K sv wc rq w
         | ApiLogout \<Rightarrow> handleLogout K sv wc rq w
         | ApiMe \<Rightarrow> (handleMe user, w)
         | ApiRooms \<Rightarrow> handleRooms wc user w
         | Ws \<Rightarrow> handleWS lib sv wc rq user w
         | Static \<Rightarrow> (Files lib rq, w)
         | MethodNotAllowed \<Rightarrow> (method_not_allowed (rqPath rq), w))"

section \<open>Starting and stopping\<close>

datatype serve_error = ErrServerClosed | ServeFailed string

text \<open>\<open>listen\<close> is the error \<^verbatim>\<open>ListenAndServe\<close> returned; a regular shutdown is no error.\<close>

definition Serve :: "serve_error option \<Rightarrow> serve_error option" where
  "Serve listen = (if listen \<noteq> None \<and> listen \<noteq> Some ErrServerClosed then listen else None)"

end
