(* ===== verification/Web_Laws.thy ===== *)
theory Web_Laws
  imports Web Backend
begin

text \<open>
  Lemmas about the handlers: how far the cookie's lifetime is from the session's, and what a
  request that carries a session's cookie is answered.
\<close>

section \<open>The lifetime of the cookie\<close>

lemma round_even_ge: "0 < q \<Longrightarrow> n * q \<le> p \<Longrightarrow> n \<le> round_even p q"
  using less_eq_div_iff_mult_less_eq [of q n p] by (simp add: round_even_def Let_def)

lemma round_even_le:
  assumes "0 < q" and "p \<le> n * q"
  shows "round_even p q \<le> n"
proof (cases "p div q < n")
  case True
  then show ?thesis by (simp add: round_even_def Let_def)
next
  case False
  then have "n * q \<le> p div q * q" by simp
  moreover have "p div q * q + p mod q = p" by simp
  ultimately have "p mod q = 0" using assms(2) by linarith
  moreover have "p div q \<le> n"
    using div_le_mono [OF assms(2), of q] assms(1) by simp
  ultimately show ?thesis using assms(1) by (simp add: round_even_def Let_def)
qed

lemma float64_scale:
  assumes "float64 p q = (m, s)"
  shows "0 < s" "0 < q \<Longrightarrow> p \<le> n * q \<Longrightarrow> m \<le> n * s" "0 < q \<Longrightarrow> n * q \<le> p \<Longrightarrow> n \<le> m div s"
proof -
  have r: "s = 1 \<and> m = 0 \<and> p < q \<or> (\<exists>k. s = 2 ^ k \<and> m = round_even (p * 2 ^ k) q)"
  proof (cases "find (\<lambda>k. 2 ^ 52 * q \<le> p * 2 ^ k) [0..<83]")
    case None
    then have "\<forall>k < 83. \<not> 2 ^ 52 * q \<le> p * 2 ^ k" by (simp add: find_None_iff)
    from this [rule_format, of 52] have "p < q" by simp
    with None show ?thesis using assms by (simp add: float64_def)
  next
    case (Some k)
    then show ?thesis using assms by (auto simp: float64_def)
  qed
  then show "0 < s" by auto
  show "m \<le> n * s" if "0 < q" "p \<le> n * q"
    using r round_even_le [OF that(1)] that(2) by (auto simp: mult.commute mult.left_commute)
  show "n \<le> m div s" if q: "0 < q" and le: "n * q \<le> p"
    using r
  proof (elim disjE exE conjE)
    fix k assume k: "s = 2 ^ k" "m = round_even (p * 2 ^ k) q"
    have "n * 2 ^ k * q \<le> p * 2 ^ k" using mult_right_mono [OF le, of "2 ^ k"] by (simp add: ac_simps)
    then have "n * 2 ^ k \<le> m" unfolding k(2) by (rule round_even_ge [OF q])
    then show ?thesis using k(1) by (simp add: less_eq_div_iff_mult_less_eq)
  next
    assume "p < q"
    then show ?thesis using le by (cases n) simp_all
  qed
qed

lemma whole_seconds_bounds:
  "d div 10 ^ 9 \<le> whole_seconds d" "whole_seconds d \<le> d div 10 ^ 9 + 1"
  "d mod 10 ^ 9 = 0 \<Longrightarrow> whole_seconds d = d div 10 ^ 9"
proof -
  obtain m q where f: "float64 (d mod 10 ^ 9) (10 ^ 9) = (m, q)" by fastforce
  obtain m' q' where g: "float64 (d div 10 ^ 9 * q + m) q = (m', q')" by fastforce
  have w: "whole_seconds d = m' div q'" by (simp only: whole_seconds_def f g prod.case Let_def)
  note F = float64_scale [OF f] and G = float64_scale [OF g]
  have "d mod 10 ^ 9 \<le> 1 * 10 ^ 9" by (simp add: less_imp_le)
  then have m: "m \<le> q" using F(2) [of 1] by simp
  show "d div 10 ^ 9 \<le> whole_seconds d" unfolding w by (rule G(3)) (use F(1) in simp_all)
  have up: "m' div q' \<le> n" if "d div 10 ^ 9 * q + m \<le> n * q" for n
    using div_le_mono [OF G(2) [OF F(1) that], of q'] G(1) by simp
  show "whole_seconds d \<le> d div 10 ^ 9 + 1" unfolding w by (rule up) (use m in \<open>simp add: algebra_simps\<close>)
  show "whole_seconds d = d div 10 ^ 9" if "d mod 10 ^ 9 = 0"
  proof (rule antisym)
    have "m = 0" using F(2) [of 0] that by simp
    then show "whole_seconds d \<le> d div 10 ^ 9" unfolding w by (intro up) simp
  qed (use \<open>d div 10 ^ 9 \<le> whole_seconds d\<close> in simp)
qed

lemma int_Seconds_bounds:
  assumes "0 < d"
  shows "d - 10 ^ 9 < int_Seconds d * 10 ^ 9" "int_Seconds d * 10 ^ 9 \<le> d + 10 ^ 9"
    "d mod 10 ^ 9 = 0 \<Longrightarrow> int_Seconds d * 10 ^ 9 = d"
proof -
  let ?n = "nat d"
  have i: "int_Seconds d = int (whole_seconds ?n)" using assms by (simp add: int_Seconds_def)
  have e: "d = int (?n div 10 ^ 9) * 1000000000 + int (?n mod 10 ^ 9)"
    using assms by (simp add: zdiv_int zmod_int)
  have "int (?n mod 10 ^ 9) < 1000000000" "0 \<le> int (?n mod 10 ^ 9)" by (simp_all add: zmod_int)
  moreover have "int (?n div 10 ^ 9) \<le> int_Seconds d" "int_Seconds d \<le> int (?n div 10 ^ 9) + 1"
    using whole_seconds_bounds(1,2) [of ?n] unfolding i by linarith+
  ultimately have "d - 1000000000 < int_Seconds d * 1000000000" "int_Seconds d * 1000000000 \<le> d + 1000000000"
    using e by linarith+
  then show "d - 10 ^ 9 < int_Seconds d * 10 ^ 9" "int_Seconds d * 10 ^ 9 \<le> d + 10 ^ 9" by simp_all
  show "int_Seconds d * 10 ^ 9 = d" if "d mod 10 ^ 9 = 0"
  proof -
    have "nat (d mod 10 ^ 9) = ?n mod nat (10 ^ 9)" using assms by (intro nat_mod_distrib) simp_all
    then have "?n mod 10 ^ 9 = 0" using that by simp
    then show ?thesis using whole_seconds_bounds(3) [of ?n] e unfolding i by simp
  qed
qed

section \<open>Signing in over HTTP\<close>

text \<open>A response that answers a registration or a login with a session.\<close>

definition signs_in :: "request \<Rightarrow> bool" where
  "signs_in rq \<longleftrightarrow> rqMethod rq = ''POST'' \<and> (rqPath rq = ''/api/register'' \<or> rqPath rq = ''/api/login'')"

definition session_cookie :: "('env, 's) Server \<Rightarrow> string \<Rightarrow> cookie" where
  "session_cookie sv token = \<lparr>ckName = sessionCookie, ckValue = token, ckPath = ''/'',
     ckHttpOnly = True, ckSameSiteLax = True, ckSecure = cfgSecureCookies (svCfg sv),
     ckMaxAge = int_Seconds (sessionTTL (svAuth sv))\<rparr>"

lemma setSessionCookie_writeJSON [simp]:
  "rsStatus (setSessionCookie sv token (writeJSON n j)) = n"
  "rsCookies (setSessionCookie sv token (writeJSON n j)) = [session_cookie sv token]"
  "rsContent (setSessionCookie sv token (writeJSON n j)) = Marshal j @ newline"
  by (simp_all add: setSessionCookie_def SetCookie_def writeJSON_def respond_def session_cookie_def SessionTTL_def)

lemma http_Error_simps [simp]:
  "rsStatus (http_Error msg n) = n" "rsCookies (http_Error msg n) = []"
  by (simp_all add: http_Error_def respond_def)

lemma decodeJSON_Inl: "decodeJSON fs z rq = Inl r \<Longrightarrow> r = http_Error ''invalid request body'' 400"
  by (auto simp: decodeJSON_def split: option.splits)

lemma sign_in_cases:
  assumes "ServeHTTP K lib sv wc rq w = (r, w')" and "signs_in rq" and "rsCookies r \<noteq> []"
  obtains c u token a where "decodeJSON credentials_fields no_credentials rq = Inr c"
    "r = setSessionCookie sv token (writeJSON (if rqPath rq = ''/api/register'' then 201 else 200) (userResponse u))"
    "w' = w\<lparr>wAuth := a\<rparr>"
    "if rqPath rq = ''/api/register''
     then Register K (svAuth sv) (wcCall wc) (crUsername c) (crPassword c) (crDisplayName c) (wAuth w) = (Inr (u, token), a)
     else Login K (svAuth sv) (wcCall wc) (crUsername c) (crPassword c) (wAuth w) = (Inr (u, token), a)"
proof (cases "rqPath rq = ''/api/register''")
  case True
  then have h: "handleRegister K sv wc rq w = (r, w')"
    using assms(1,2) by (simp add: ServeHTTP_def routes_def signs_in_def)
  obtain c where c: "decodeJSON credentials_fields no_credentials rq = Inr c"
    using h assms(3) decodeJSON_Inl [of credentials_fields no_credentials rq]
    by (auto simp: handleRegister_def split: sum.splits)
  obtain res a where ra: "Register K (svAuth sv) (wcCall wc) (crUsername c) (crPassword c) (crDisplayName c) (wAuth w) = (res, a)"
    by fastforce
  show thesis
  proof (cases res)
    case (Inl e)
    then have "rsCookies r = []" using h c ra
      by (auto simp: handleRegister_def split: if_splits auth_error.splits)
    then show thesis using assms(3) by simp
  next
    case (Inr x)
    obtain u token where x: "x = (u, token)" by fastforce
    show thesis using h c ra Inr x True by (intro that) (auto simp: handleRegister_def)
  qed
next
  case False
  then have h: "handleLogin K sv wc rq w = (r, w')"
    using assms(1,2) by (simp add: ServeHTTP_def routes_def signs_in_def)
  obtain c where c: "decodeJSON credentials_fields no_credentials rq = Inr c"
    using h assms(3) decodeJSON_Inl [of credentials_fields no_credentials rq]
    by (auto simp: handleLogin_def split: sum.splits)
  obtain res a where ra: "Login K (svAuth sv) (wcCall wc) (crUsername c) (crPassword c) (wAuth w) = (res, a)"
    by fastforce
  show thesis
  proof (cases res)
    case (Inl e)
    then have "rsCookies r = []" using h c ra by (auto simp: handleLogin_def split: if_splits)
    then show thesis using assms(3) by simp
  next
    case (Inr x)
    obtain u token where x: "x = (u, token)" by fastforce
    show thesis using h c ra Inr x False by (intro that) (auto simp: handleLogin_def)
  qed
qed

section \<open>The server on the configured database\<close>

definition chat_server :: "(gotime \<Rightarrow> gotime) \<Rightarrow> Config \<Rightarrow> (auth_env, auth_db) Server" where
  "chat_server ts cfg = \<lparr>svCfg = cfg, svAuth = NewService (auth_store_of ts (db_of cfg)) (cfgSessionTTL cfg),
     svHttp = new_http cfg\<rparr>"

lemma chat_server_New:
  "web_New False cfg (NewService (auth_store_of ts (db_of cfg)) (cfgSessionTTL cfg)) = Inr (chat_server ts cfg)"
  by (simp add: web_New_def chat_server_def)

lemma chat_server_simps [simp]:
  "svCfg (chat_server ts cfg) = cfg"
  "svAuth (chat_server ts cfg) = NewService (auth_store_of ts (db_of cfg)) (cfgSessionTTL cfg)"
  "sessionTTL (svAuth (chat_server ts cfg)) = cfgSessionTTL cfg"
  by (simp_all add: chat_server_def NewService_def)

end
