(* ===== verification/World.thy ===== *)
theory World
  imports Web_Laws Pumps_Inv
begin

text \<open>
  The whole server: HTTP requests and the steps of the goroutines, interleaved. Connections
  only come from the WebSocket endpoint. The invariant here ties the identities on
  connections and in messages to accounts of the database.
\<close>

section \<open>Identities through the steps\<close>

definition live :: "reader \<Rightarrow> bool" where
  "live r \<longleftrightarrow> r \<noteq> Unborn \<and> r \<noteq> Gone"

lemma live_simps [simp]:
  "\<not> live Unborn" "\<not> live Gone" "live Registering" "live Reading" "live (Loading rm)"
  "live (Submitting cmd)" "live Unregistering"
  by (simp_all add: live_def)

definition authored :: "sys \<Rightarrow> Envelope \<Rightarrow> bool" where
  "authored s e \<longleftrightarrow> (\<exists>c rm m. live (reader s c) \<and> e = message_frame rm m \<and>
     mSenderID m = clID (heap s c) \<and> mSenderName m = clName (heap s c))"

text \<open>What every step but the arrival of a connection does.\<close>

definition moved :: "sys \<Rightarrow> sys \<Rightarrow> bool" where
  "moved s s' \<longleftrightarrow> (\<forall>d. (live (reader s' d) \<longrightarrow> live (reader s d)) \<and>
     clID (heap s' d) = clID (heap s d) \<and> clName (heap s' d) = clName (heap s d) \<and>
     (\<exists>new. posted s' d = posted s d @ new \<and> (\<forall>e \<in> set new. authored s e)))"

lemma moved_same:
  assumes "posted s' = posted s" and "\<And>d. live (reader s' d) \<Longrightarrow> live (reader s d)"
    and "\<And>d. clID (heap s' d) = clID (heap s d) \<and> clName (heap s' d) = clName (heap s d)"
  shows "moved s s'"
  using assms by (simp add: moved_def)

lemma hub_takes_moved:
  assumes "sys_inv cfg s" and "hub_takes ev after s = Some s'"
    and "\<not> hubDone s \<Longrightarrow> ev_ok ev s \<or> (\<exists>p. run_step ev s = Inl p)"
    and "\<And>t. heap (after t) = heap t \<and> posted (after t) = posted t"
    and "\<And>t d. reader t = reader s \<Longrightarrow> live (reader (after t) d) \<Longrightarrow> live (reader s d)"
    and "\<And>cmd now b. ev = EvInbound cmd now b \<Longrightarrow> live (reader s (cmdClient cmd))"
  shows "moved s s'"
proof (cases "run_step ev s")
  case (Inl p)
  then have "s' = s\<lparr>crashed := Some p\<rparr>" using assms(2) by (simp add: hub_takes_def split: if_splits)
  then show ?thesis by (intro moved_same) simp_all
next
  case (Inr x)
  obtain st t where x: "x = (st, t)" by fastforce
  let ?t = "t\<lparr>posted := \<lambda>d. posted s d @ addressed ev s d\<rparr>"
  have ok: "ev_ok ev s" and s': "s' = after ?t"
    using assms(2,3) Inr x by (auto simp: hub_takes_def split: if_splits)
  note inv = sys_invD(1) [OF assms(1)]
  have "clID (heap t d) = clID (heap s d) \<and> clName (heap t d) = clName (heap s d)" for d
    using run_step_effect [OF inv ok Inr [unfolded x], of d] by (simp add: step_effect_def)
  moreover have "live (reader (after ?t) d) \<Longrightarrow> live (reader s d)" for d
    using assms(5) [of ?t] run_step_pumps(1) [OF inv ok Inr [unfolded x]] by simp
  moreover have "authored s e" if e: "e \<in> set (addressed ev s d)" for e d
  proof -
    obtain cmd now b where ev: "ev = EvInbound cmd now b" "e = message_frame (cmdRoom cmd) (message_of cmd now s)"
      using e by (cases ev) (auto simp: addressed_def split: if_splits)
    then show ?thesis
      using assms(6) [OF ev(1)] unfolding authored_def
      by (intro exI [of _ "cmdClient cmd"] exI [of _ "cmdRoom cmd"] exI [of _ "message_of cmd now s"])
        (simp add: message_of_def)
  qed
  ultimately show ?thesis using assms(4) unfolding s' moved_def by simp
qed

lemma step_moved:
  assumes inv: "sys_inv cfg s" and "sys_step cfg l s = Some s'" and "\<And>c i n. l \<noteq> Connect c i n"
  shows "moved s s'"
proof -
  have st: "steps cfg l s = Some s'" using assms(2) by (auto simp: sys_step_def split: if_splits)
  show ?thesis
  proof (cases l)
    case (Connect c i n)
    then show ?thesis using assms(3) by blast
  next
    case (TakeRegister c)
    then have r: "reader s c = Registering" and h: "hub_takes (EvRegister c) (client_Run c) s = Some s'"
      using st by (simp_all split: if_splits)
    have "ev_ok (EvRegister c) s"
      using sys_invD(2) [OF inv, of c] r by (simp add: ctl_ok_def ev_ok_def)
    then show ?thesis
      by (intro hub_takes_moved [OF inv h]) (use r in \<open>auto simp: client_Run_def split: if_splits\<close>)
  next
    case (LoadHistory c ans)
    then obtain rm where r: "reader s c = Loading rm" using st by (auto split: reader.splits)
    show ?thesis using st LoadHistory r
      by (cases rule: handleJoin_cases [of c rm "History (Some (\<lambda>_ _. ans)) (historyLimit s) rm" s])
        (auto intro!: moved_same split: if_splits)
  next
    case (TakeCommand c now)
    then obtain cmd where r: "reader s c = Submitting cmd"
      and h: "hub_takes (EvInbound cmd now (ctxDone s)) (goto_reader c Reading) s = Some s'"
      using st by (auto split: reader.splits)
    have "cmdClient cmd = c" using sys_invD(2) [OF inv, of c] r by (simp add: ctl_ok_def)
    then show ?thesis
      by (intro hub_takes_moved [OF inv h]) (use command_ok_or_panic [OF inv r] r in \<open>auto split: if_splits\<close>)
  next
    case (TakeUnregister c)
    then have "hub_takes (EvUnregister c) (goto_reader c Gone) s = Some s'" using st by (auto split: if_splits)
    then show ?thesis by (rule hub_takes_moved [OF inv]) (auto simp: ev_ok_def split: if_splits)
  next
    case TakeQuery
    then have "hub_takes EvQuery (\<lambda>s. s) s = Some s'" using st by simp
    then show ?thesis by (rule hub_takes_moved [OF inv]) (auto simp: ev_ok_def)
  next
    case Tick
    then have "hub_takes EvTick (\<lambda>s. s) s = Some s'" using st by simp
    then show ?thesis by (rule hub_takes_moved [OF inv]) (auto simp: ev_ok_def)
  next
    case HubReturns
    then have "hub_takes EvDone (\<lambda>s. s) s = Some s'" using st by (simp split: if_splits)
    then show ?thesis by (rule hub_takes_moved [OF inv]) (auto simp: ev_ok_def)
  next
    case (ReadFrame c env)
    then show ?thesis using st by (auto intro!: moved_same split: if_splits)
  next
    case (ReadFails c)
    then show ?thesis using st by (auto intro!: moved_same split: if_splits)
  next
    case (Released c)
    then show ?thesis using st
      by (auto intro!: moved_same simp: client_Run_def split: if_splits reader.splits)
  next
    case CancelCtx
    then show ?thesis using st by (auto intro!: moved_same)
  next
    case (WriterTakes c)
    then show ?thesis using st
      by (auto intro!: moved_same simp: writer_exit_def set_send_def split: if_splits recv.splits)
  next
    case (WriteDone c)
    then show ?thesis using st by (auto intro!: moved_same split: writer.splits)
  next
    case (WriteFails c)
    then show ?thesis using st by (auto intro!: moved_same simp: writer_exit_def split: writer.splits)
  next
    case (PingFails c)
    then show ?thesis using st by (auto intro!: moved_same simp: writer_exit_def split: if_splits)
  next
    case (WriterCancelled c)
    then show ?thesis using st by (auto intro!: moved_same simp: writer_exit_def split: if_splits)
  next
    case PersisterTakes
    then show ?thesis using st by (auto intro!: moved_same split: recv.splits)
  qed
qed

lemma Connect_moved:
  assumes "sys_step cfg (Connect c i n) s = Some s'"
  shows "posted s' = posted s" "d \<noteq> c \<Longrightarrow> reader s' d = reader s d \<and> heap s' d = heap s d"
    "live (reader s' c) \<Longrightarrow> clID (heap s' c) = i \<and> clName (heap s' c) = n"
  using assms by (auto simp: sys_step_def NewClient_def split: if_splits)

section \<open>Requests\<close>

definition accounts_kept :: "auth_db \<Rightarrow> auth_db \<Rightarrow> bool" where
  "accounts_kept a a' \<longleftrightarrow> auth_ok a' \<and> (\<forall>n x. db_account a n = Some x \<longrightarrow> db_account a' n = Some x)"

lemma accounts_kept_refl [simp]: "auth_ok a \<Longrightarrow> accounts_kept a a"
  by (simp add: accounts_kept_def)

lemma Register_keeps:
  assumes "auth_ok a" and "rand_ok env" and "Register K (NewService (auth_store_of ts c) ttl) env n0 pw d0 a = (res, a')"
  shows "accounts_kept a a'"
proof (cases res)
  case (Inl e)
  from db_auth.Register_fails [unfolded db_ops, OF assms(1) assms(3) [unfolded Inl]]
  have "auth_ok a'" "db_account a' = db_account a \<or> db_account a (TrimSpace n0) = None \<and>
      (\<exists>x. db_account a' = (db_account a)(TrimSpace n0 \<mapsto> x))"
    by blast+
  then show ?thesis by (auto simp: accounts_kept_def)
next
  case (Inr x)
  obtain u token where x: "x = (u, token)" by fastforce
  from db_auth.Register_opens [unfolded db_ops, OF assms(1,2) assms(3) [unfolded Inr x]]
  have "auth_ok a'" "db_account a (TrimSpace n0) = None" "\<exists>y. db_account a' = (db_account a)(TrimSpace n0 \<mapsto> y)"
    by (auto simp: db_auth.opened_def)
  then show ?thesis by (auto simp: accounts_kept_def)
qed

lemma Login_keeps:
  assumes "auth_ok a" and "rand_ok env" and "Login K (NewService (auth_store_of ts c) ttl) env n0 pw a = (res, a')"
  shows "accounts_kept a a'"
proof (cases res)
  case (Inl e)
  from db_auth.Login_error(1) [unfolded db_ops, OF assms(1) assms(3) [unfolded Inl]]
  show ?thesis using assms(1) by simp
next
  case (Inr x)
  obtain u token where x: "x = (u, token)" by fastforce
  from db_auth.Login_opens [unfolded db_ops, OF assms(1,2) assms(3) [unfolded Inr x]]
  have "auth_ok a'" "db_account a' = db_account a" by (auto simp: db_auth.opened_def)
  then show ?thesis by (simp add: accounts_kept_def)
qed

lemma Logout_keeps:
  assumes "auth_ok a"
  shows "accounts_kept a (snd (Logout K (NewService (auth_store_of ts c) ttl) env token a))"
  using db_auth.Logout_ops [unfolded db_ops, OF assms, OF prod.collapse [symmetric]]
  by (simp add: accounts_kept_def)

text \<open>What one request does to the database and to the connections.\<close>

lemma Snapshot_step:
  fixes s :: sys
  assumes "Snapshot taken gaveUp s = (st, s')" and "crashed s = None"
  shows "s' = s \<or> sys_step cfg (TakeQuery :: unit label) s = Some s'"
  using assms by (auto simp: Snapshot_def sys_step_def hub_takes_def addressed_def snapshot_def draw_def
      Let_def split: if_splits)

lemma request_effect:
  assumes "auth_ok (wAuth w)" and "rand_ok (wcCall wc)" and "crashed (wSys w) = None"
    and "ServeHTTP K lib (chat_server ts cfg) wc rq w = (r, w')"
  shows "accounts_kept (wAuth w) (wAuth w') \<and>
    (wSys w' = wSys w \<or> sys_step cfg (TakeQuery :: unit label) (wSys w) = Some (wSys w') \<or>
     (\<exists>n u h. db_account (wAuth w) n = Some (u, h) \<and>
        sys_step cfg (Connect (wcConn wc) (FormatInt (uID u)) (uDisplayName u) :: unit label) (wSys w) = Some (wSys w')))"
proof -
  let ?sv = "chat_server ts cfg" and ?user = "authMiddleware K (chat_server ts cfg) wc rq w"
  note s = assms(4) [unfolded ServeHTTP_def Let_def]
  show ?thesis
  proof (cases "routes (rqMethod rq) (rqPath rq)")
    case ApiRegister
    then have h: "handleRegister K ?sv wc rq w = (r, w')" using s by simp
    show ?thesis
    proof (cases "decodeJSON credentials_fields no_credentials rq")
      case (Inl x)
      then show ?thesis using h assms(1) by (simp add: handleRegister_def)
    next
      case (Inr c)
      obtain res a where "Register K (svAuth ?sv) (wcCall wc) (crUsername c) (crPassword c) (crDisplayName c) (wAuth w) = (res, a)"
        by fastforce
      then show ?thesis
        using h Inr Register_keeps [OF assms(1,2)] by (auto simp: handleRegister_def)
    qed
  next
    case ApiLogin
    then have h: "handleLogin K ?sv wc rq w = (r, w')" using s by simp
    show ?thesis
    proof (cases "decodeJSON credentials_fields no_credentials rq")
      case (Inl x)
      then show ?thesis using h assms(1) by (simp add: handleLogin_def)
    next
      case (Inr c)
      obtain res a where "Login K (svAuth ?sv) (wcCall wc) (crUsername c) (crPassword c) (wAuth w) = (res, a)"
        by fastforce
      then show ?thesis
        using h Inr Login_keeps [OF assms(1,2)] by (auto simp: handleLogin_def)
    qed
  next
    case ApiLogout
    then show ?thesis using s assms(1) Logout_keeps [OF assms(1)]
      by (auto simp: handleLogout_def split: option.splits)
  next
    case ApiRooms
    then have h: "handleRooms wc ?user w = (r, w')" using s by simp
    obtain st t where t: "Snapshot (wcTaken wc) (wcGaveUp wc) (wSys w) = (st, t)" by fastforce
    show ?thesis
      using h assms(1) Snapshot_step [OF t assms(3), of cfg] by (cases ?user) (auto simp: handleRooms_def t)
  next
    case Ws
    then have h: "handleWS lib ?sv wc rq ?user w = (r, w')" using s by simp
    show ?thesis
    proof (cases ?user)
      case None
      then show ?thesis using h assms(1) by (simp add: handleWS_def)
    next
      case (Some u)
      then obtain token where
        "Authenticate K (NewService (auth_store_of ts (db_of cfg)) (cfgSessionTTL cfg)) (wcLookup wc) token (wAuth w) = Inr u"
        by (auto simp: authMiddleware_def split: option.splits sum.splits)
      from db_auth.Authenticate_session [unfolded db_ops, OF assms(1) this] obtain n h' where "db_account (wAuth w) n = Some (u, h')"
        by blast
      moreover have "wAuth w' = wAuth w \<and> (wSys w' = wSys w \<or>
          sys_step cfg (Connect (wcConn wc) (FormatInt (uID u)) (uDisplayName u) :: unit label) (wSys w) = Some (wSys w'))"
        using h Some assms(3)
        by (auto simp: handleWS_def sys_step_def simp del: steps.simps split: option.splits)
      ultimately show ?thesis using assms(1) by (metis accounts_kept_refl)
    qed
  qed (use s assms(1) in simp_all)
qed

section \<open>Executions of the whole server\<close>

inductive serving :: "crypto \<Rightarrow> web_lib \<Rightarrow> (gotime \<Rightarrow> gotime) \<Rightarrow> Config \<Rightarrow> auth_db world \<Rightarrow> bool" for K lib ts cfg where
  started: "fresh h \<Longrightarrow> auth_ok a \<Longrightarrow> serving K lib ts cfg \<lparr>wAuth = a, wSys = boot h\<rparr>"
| request: "serving K lib ts cfg w \<Longrightarrow> crashed (wSys w) = None \<Longrightarrow> rand_ok (wcCall wc) \<Longrightarrow>
    ServeHTTP K lib (chat_server ts cfg) wc rq w = (r, w') \<Longrightarrow> serving K lib ts cfg w'"
| goroutine: "serving K lib ts cfg w \<Longrightarrow> sys_step cfg (l :: unit label) (wSys w) = Some s' \<Longrightarrow>
    (\<And>c i n. l \<noteq> Connect c i n) \<Longrightarrow> serving K lib ts cfg (w\<lparr>wSys := s'\<rparr>)"

text \<open>An identity of an account: its id in decimal and its display name.\<close>

definition account_identity :: "auth_db \<Rightarrow> string \<Rightarrow> string \<Rightarrow> bool" where
  "account_identity a i n \<longleftrightarrow> (\<exists>name u h. db_account a name = Some (u, h) \<and> i = FormatInt (uID u) \<and> n = uDisplayName u)"

definition genuine :: "auth_db \<Rightarrow> Envelope \<Rightarrow> bool" where
  "genuine a e \<longleftrightarrow> (\<exists>rm m. e = message_frame rm m \<and> account_identity a (mSenderID m) (mSenderName m))"

definition world_inv :: "Config \<Rightarrow> auth_db world \<Rightarrow> bool" where
  "world_inv cfg w \<longleftrightarrow> reachable cfg (wSys w) \<and> auth_ok (wAuth w) \<and>
     (\<forall>c. live (reader (wSys w) c) \<longrightarrow>
        account_identity (wAuth w) (clID (heap (wSys w) c)) (clName (heap (wSys w) c))) \<and>
     (\<forall>d. \<forall>e \<in> set (posted (wSys w) d). genuine (wAuth w) e)"

lemma account_identity_kept:
  "accounts_kept a a' \<Longrightarrow> account_identity a i n \<Longrightarrow> account_identity a' i n"
  unfolding accounts_kept_def account_identity_def by blast

lemma genuine_kept: "accounts_kept a a' \<Longrightarrow> genuine a e \<Longrightarrow> genuine a' e"
  unfolding genuine_def using account_identity_kept by blast

lemma world_inv_auth:
  assumes "world_inv cfg w" and "accounts_kept (wAuth w) a"
  shows "world_inv cfg (w\<lparr>wAuth := a\<rparr>)"
  using assms account_identity_kept [OF assms(2)] genuine_kept [OF assms(2)]
  by (simp add: world_inv_def accounts_kept_def)

lemma world_inv_moved:
  assumes "world_inv cfg w" and "sys_step cfg (l :: unit label) (wSys w) = Some s'"
    and "\<And>c i n. l \<noteq> Connect c i n"
  shows "world_inv cfg (w\<lparr>wSys := s'\<rparr>)"
proof -
  have r: "reachable cfg (wSys w)" using assms(1) by (simp add: world_inv_def)
  have m: "moved (wSys w) s'" by (rule step_moved [OF reachable_inv [OF r] assms(2,3)])
  have "genuine (wAuth w) e" if a: "authored (wSys w) e" for e
  proof -
    obtain c rm m where c: "live (reader (wSys w) c)" "e = message_frame rm m"
      "mSenderID m = clID (heap (wSys w) c)" "mSenderName m = clName (heap (wSys w) c)"
      using a unfolding authored_def by blast
    moreover from c(1) have "account_identity (wAuth w) (clID (heap (wSys w) c)) (clName (heap (wSys w) c))"
      using assms(1) by (simp add: world_inv_def)
    ultimately show ?thesis unfolding genuine_def by metis
  qed
  moreover have "reachable cfg s'" using stepped [OF r assms(2)] .
  ultimately show ?thesis
    using assms(1) m unfolding world_inv_def moved_def by (auto simp: Ball_def) (metis Un_iff set_append)+
qed

lemma world_inv_Connect:
  assumes "world_inv cfg w" and "db_account (wAuth w) n = Some (u, h)"
    and s: "sys_step cfg (Connect c (FormatInt (uID u)) (uDisplayName u) :: unit label) (wSys w) = Some s'"
  shows "world_inv cfg (w\<lparr>wSys := s'\<rparr>)"
proof -
  have "reachable cfg s'" using assms(1) stepped [OF _ s] by (simp add: world_inv_def)
  moreover have "account_identity (wAuth w) (clID (heap s' d)) (clName (heap s' d))" if "live (reader s' d)" for d
  proof (cases "d = c")
    case True
    then show ?thesis using Connect_moved(3) [OF s] that assms(2) unfolding account_identity_def by blast
  next
    case False
    then show ?thesis using Connect_moved(2) [OF s] that assms(1) by (simp add: world_inv_def)
  qed
  ultimately show ?thesis using assms(1) Connect_moved(1) [OF s] by (simp add: world_inv_def)
qed

lemma world_inv_request:
  assumes "world_inv cfg w" and "crashed (wSys w) = None" and "rand_ok (wcCall wc)"
    and "ServeHTTP K lib (chat_server ts cfg) wc rq w = (r, w')"
  shows "world_inv cfg w'"
proof -
  have a: "auth_ok (wAuth w)" using assms(1) by (simp add: world_inv_def)
  from request_effect [OF a assms(3,2,4)]
  have k: "accounts_kept (wAuth w) (wAuth w')"
    and st: "wSys w' = wSys w \<or> sys_step cfg (TakeQuery :: unit label) (wSys w) = Some (wSys w') \<or>
     (\<exists>n u h. db_account (wAuth w) n = Some (u, h) \<and>
        sys_step cfg (Connect (wcConn wc) (FormatInt (uID u)) (uDisplayName u) :: unit label) (wSys w) = Some (wSys w'))"
    by blast+
  have "world_inv cfg (w\<lparr>wSys := wSys w'\<rparr>)"
    using st world_inv_moved [OF assms(1), of TakeQuery] world_inv_Connect [OF assms(1)] assms(1) by auto
  then have "world_inv cfg (w\<lparr>wSys := wSys w'\<rparr>\<lparr>wAuth := wAuth w'\<rparr>)"
    by (rule world_inv_auth) (simp add: k)
  moreover have "w\<lparr>wSys := wSys w'\<rparr>\<lparr>wAuth := wAuth w'\<rparr> = w'" by simp
  ultimately show ?thesis by simp
qed

lemma serving_inv: "serving K lib ts cfg w \<Longrightarrow> world_inv cfg w"
proof (induction rule: serving.induct)
  case (started h a)
  have "posted (boot h) d = []" "reader (boot h) d = Unborn" for d
    by (simp_all add: boot_def hub.extend_def)
  then show ?case using started booted by (simp add: world_inv_def)
next
  case (request w wc rq r w')
  then show ?case using world_inv_request by blast
next
  case (goroutine w l s')
  then show ?case using world_inv_moved by blast
qed

end
