(* ===== verification/Migrations.thy ===== *)
theory Migrations
  imports Go_Strings
begin

text \<open>
  The statements that provision a database, and the migrations embedded in the binary
  (\<^verbatim>\<open>migrations/migrations.go\<close> with \<^verbatim>\<open>0001_init.sql\<close> and \<^verbatim>\<open>0002_auth.sql\<close>).
\<close>

section \<open>Statements\<close>

text \<open>
  \<^verbatim>\<open>CREATE TABLE IF NOT EXISTS\<close> with its columns and \<^verbatim>\<open>CREATE INDEX IF NOT EXISTS\<close> on columns of a
  table. The text of a column is what follows its name.
\<close>

datatype ddl =
    CreateTable (ddl_name: string) "(string \<times> string) list"
  | CreateIndex (ddl_name: string) string string

text \<open>What a query can rely on: the tables with the names of their columns.\<close>

fun tables :: "ddl list \<Rightarrow> (string \<times> string list) list" where
  "tables [] = []"
| "tables (CreateTable t cols # sts) = (t, map fst cols) # tables sts"
| "tables (CreateIndex i t c # sts) = tables sts"

section \<open>The embedded files\<close>

text \<open>An entry of the embedded directory: its name, whether it is a directory, its statements.\<close>

record migration =
  migName :: string
  migIsDir :: bool
  migStmts :: "ddl list"

definition init_sql :: "ddl list" where
  "init_sql =
     [CreateTable ''messages''
        [(''id'', ''BIGSERIAL PRIMARY KEY''), (''room'', ''TEXT NOT NULL''),
         (''sender_id'', ''TEXT NOT NULL''), (''sender_name'', ''TEXT NOT NULL''),
         (''content'', ''TEXT NOT NULL''), (''created_at'', ''TIMESTAMPTZ NOT NULL DEFAULT now()'')],
      CreateIndex ''idx_messages_room_created_at'' ''messages'' ''room, created_at DESC'']"

definition auth_sql :: "ddl list" where
  "auth_sql =
     [CreateTable ''users''
        [(''id'', ''BIGSERIAL PRIMARY KEY''), (''username'', ''TEXT NOT NULL UNIQUE''),
         (''password_hash'', ''TEXT NOT NULL''), (''display_name'', ''TEXT NOT NULL''),
         (''created_at'', ''TIMESTAMPTZ NOT NULL DEFAULT now()'')],
      CreateTable ''sessions''
        [(''token_hash'', ''TEXT PRIMARY KEY''),
         (''user_id'', ''BIGINT NOT NULL REFERENCES users (id) ON DELETE CASCADE''),
         (''created_at'', ''TIMESTAMPTZ NOT NULL DEFAULT now()''), (''expires_at'', ''TIMESTAMPTZ NOT NULL'')],
      CreateIndex ''idx_sessions_user_id'' ''sessions'' ''user_id'',
      CreateIndex ''idx_sessions_expires_at'' ''sessions'' ''expires_at'']"

text \<open>\<^verbatim>\<open>//go:embed *.sql\<close>: only files with that suffix are in the binary.\<close>

definition migration_files :: "migration list" where
  "migration_files =
     [\<lparr>migName = ''0001_init.sql'', migIsDir = False, migStmts = init_sql\<rparr>,
      \<lparr>migName = ''0002_auth.sql'', migIsDir = False, migStmts = auth_sql\<rparr>]"

end
