(* ===== verification/Store_Open.thy ===== *)
theory Store_Open
  imports Migrations "HOL-Library.List_Lexorder" "HOL-Library.Char_ord"
begin

text \<open>
  Opening and closing the databases (\<^verbatim>\<open>internal/store/sqlite.go\<close>, \<^verbatim>\<open>postgres.go\<close>): the schema the
  program provisions for itself at every start, the migrations, and what a failure half way
  leaves behind. The drivers are not under \<^verbatim>\<open>src/\<close>: whether a call of theirs fails is an
  argument, and a statement is known by the object it creates.
\<close>

section \<open>Statements and connections\<close>

text \<open>
  A database as far as opening it goes: the objects it has, and the connections (or pools) to it
  that are open.
\<close>

record database =
  objects :: "ddl list"
  openConns :: int

definition exec_ddl :: "ddl \<Rightarrow> ddl list \<Rightarrow> ddl list" where
  "exec_ddl st objs = (if ddl_name st \<in> ddl_name ` set objs then objs else objs @ [st])"

definition open_conn :: "database \<Rightarrow> database" where
  "open_conn d = d\<lparr>openConns := openConns d + 1\<rparr>"

definition close_conn :: "database \<Rightarrow> database" where
  "close_conn d = d\<lparr>openConns := openConns d - 1\<rparr>"

datatype open_error =
    OpeningSQLite string
  | ApplyingSQLiteSchema
  | ConnectingPostgres
  | PingingPostgres
  | ReadingMigrations
  | ReadingMigration string
  | ApplyingMigration string

section \<open>SQLite\<close>

definition sqliteSchema :: "ddl list" where
  "sqliteSchema =
     [CreateTable ''messages''
        [(''id'', ''INTEGER PRIMARY KEY AUTOINCREMENT''), (''room'', ''TEXT NOT NULL''),
         (''sender_id'', ''TEXT NOT NULL''), (''sender_name'', ''TEXT NOT NULL''),
         (''content'', ''TEXT NOT NULL''), (''created_at'', ''INTEGER NOT NULL'')],
      CreateIndex ''idx_messages_room_created_at'' ''messages'' ''room, created_at DESC'',
      CreateTable ''users''
        [(''id'', ''INTEGER PRIMARY KEY AUTOINCREMENT''), (''username'', ''TEXT NOT NULL UNIQUE''),
         (''password_hash'', ''TEXT NOT NULL''), (''display_name'', ''TEXT NOT NULL''),
         (''created_at'', ''INTEGER NOT NULL'')],
      CreateTable ''sessions''
        [(''token_hash'', ''TEXT PRIMARY KEY''),
         (''user_id'', ''INTEGER NOT NULL REFERENCES users (id) ON DELETE CASCADE''),
         (''created_at'', ''INTEGER NOT NULL''), (''expires_at'', ''INTEGER NOT NULL'')],
      CreateIndex ''idx_sessions_expires_at'' ''sessions'' ''expires_at'']"

definition sqlite_dsn :: "string \<Rightarrow> string" where
  "sqlite_dsn path = ''file:'' @ path @
     ''?_pragma=busy_timeout(5000)&_pragma=journal_mode(WAL)&_pragma=foreign_keys(1)''"

text \<open>\<open>True\<close> when every statement went through; \<open>fails k\<close> is the failure of the \<open>k\<close>-th.\<close>

fun apply_all :: "(nat \<Rightarrow> bool) \<Rightarrow> nat \<Rightarrow> ddl list \<Rightarrow> database \<Rightarrow> bool \<times> database" where
  "apply_all fails k [] d = (True, d)"
| "apply_all fails k (st # sts) d =
     (if fails k then (False, d) else apply_all fails (Suc k) sts (d\<lparr>objects := exec_ddl st (objects d)\<rparr>))"

record sqlite_faults =
  soOpen :: "string \<Rightarrow> bool"
  soPing :: bool
  soExec :: "nat \<Rightarrow> bool"

definition NewSQLite :: "sqlite_faults \<Rightarrow> string \<Rightarrow> database \<Rightarrow> (open_error + unit) \<times> database" where
  "NewSQLite f path d =
     (if soOpen f (sqlite_dsn path) then (Inl (OpeningSQLite path), d)
      else if soPing f then (Inl (OpeningSQLite path), close_conn (open_conn d))
      else (case apply_all (soExec f) 0 sqliteSchema (open_conn d) of
              (False, d') \<Rightarrow> (Inl ApplyingSQLiteSchema, close_conn d')
            | (True, d') \<Rightarrow> (Inr (), d')))"

section \<open>Postgres\<close>

record postgres_faults =
  poNew :: bool
  poPing :: bool
  poReadDir :: bool
  poRead :: "string \<Rightarrow> bool"
  poExec :: "string \<Rightarrow> bool"

definition migration_names :: "migration list \<Rightarrow> string list" where
  "migration_names es =
     sort (map migName (filter (\<lambda>e. \<not> migIsDir e \<and> HasSuffix (migName e) ''.sql'') es))"

definition migration_body :: "migration list \<Rightarrow> string \<Rightarrow> ddl list" where
  "migration_body es n = (case find (\<lambda>e. migName e = n) es of None \<Rightarrow> [] | Some e \<Rightarrow> migStmts e)"

text \<open>A migration of several statements is sent as one and takes effect as a whole or not at all.\<close>

fun migrate_each ::
    "postgres_faults \<Rightarrow> migration list \<Rightarrow> string list \<Rightarrow> database \<Rightarrow> open_error option \<times> database" where
  "migrate_each f es [] d = (None, d)"
| "migrate_each f es (n # ns) d =
     (if poRead f n then (Some (ReadingMigration n), d)
      else if poExec f n then (Some (ApplyingMigration n), d)
      else migrate_each f es ns (d\<lparr>objects := fold exec_ddl (migration_body es n) (objects d)\<rparr>))"

definition migrate :: "postgres_faults \<Rightarrow> migration list \<Rightarrow> database \<Rightarrow> open_error option \<times> database" where
  "migrate f es d =
     (if poReadDir f then (Some ReadingMigrations, d) else migrate_each f es (migration_names es) d)"

definition NewPostgres ::
    "postgres_faults \<Rightarrow> migration list \<Rightarrow> database \<Rightarrow> (open_error + unit) \<times> database" where
  "NewPostgres f es d =
     (if poNew f then (Inl ConnectingPostgres, d)
      else if poPing f then (Inl PingingPostgres, close_conn (open_conn d))
      else (case migrate f es (open_conn d) of
              (Some e, d') \<Rightarrow> (Inl e, close_conn d')
            | (None, d') \<Rightarrow> (Inr (), d')))"

section \<open>Closing\<close>

text \<open>
  \<open>handle\<close> says whether the store still holds its connection (the field is not \<^verbatim>\<open>nil\<close>). Closing
  an SQLite database may report an error; the handle is given up all the same.
\<close>

definition SQLite_Close :: "bool \<Rightarrow> bool \<times> database \<Rightarrow> bool \<times> bool \<times> database" where
  "SQLite_Close fails x = (case x of (handle, d) \<Rightarrow>
     if \<not> handle then (False, handle, d) else (fails, False, close_conn d))"

definition Postgres_Close :: "bool \<times> database \<Rightarrow> bool \<times> database" where
  "Postgres_Close x = (case x of (handle, d) \<Rightarrow> if handle then (False, close_conn d) else (handle, d))"

section \<open>Lemmas\<close>

lemma exec_ddl_set: "ddl_name ` set (exec_ddl st objs) = insert (ddl_name st) (ddl_name ` set objs)"
  by (auto simp: exec_ddl_def)

lemma exec_ddl_present: "ddl_name st \<in> ddl_name ` set objs \<Longrightarrow> exec_ddl st objs = objs"
  by (simp add: exec_ddl_def)

lemma fold_exec_set:
  "ddl_name ` set (fold exec_ddl sts objs) = ddl_name ` set sts \<union> ddl_name ` set objs"
  by (induction sts arbitrary: objs) (auto simp: exec_ddl_set)

lemma fold_exec_present: "ddl_name ` set sts \<subseteq> ddl_name ` set objs \<Longrightarrow> fold exec_ddl sts objs = objs"
  by (induction sts) (simp_all add: exec_ddl_present)

lemma fold_exec_prefix: "prefix objs (fold exec_ddl sts objs)"
proof (induction sts arbitrary: objs)
  case (Cons st sts)
  have "prefix objs (exec_ddl st objs)" by (simp add: exec_ddl_def)
  then show ?case using Cons [of "exec_ddl st objs"] prefix_order.trans by fastforce
qed simp

lemma apply_all_result:
  "apply_all fails k sts d = (ok, d') \<Longrightarrow>
     \<exists>n. (ok \<longrightarrow> n = length sts) \<and> d' = d\<lparr>objects := fold exec_ddl (take n sts) (objects d)\<rparr>"
proof (induction sts arbitrary: k d)
  case (Cons st sts)
  show ?case
  proof (cases "fails k")
    case True
    then have "ok = False" "d' = d" using Cons.prems by simp_all
    then show ?thesis by (intro exI [of _ 0]) simp
  next
    case False
    then have "apply_all fails (Suc k) sts (d\<lparr>objects := exec_ddl st (objects d)\<rparr>) = (ok, d')"
      using Cons.prems by simp
    from Cons.IH [OF this] obtain n where n: "ok \<longrightarrow> n = length sts"
      "d' = d\<lparr>objects := fold exec_ddl (take n sts) (exec_ddl st (objects d))\<rparr>" by auto
    show ?thesis by (intro exI [of _ "Suc n"]) (simp add: n)
  qed
qed simp

lemma apply_all_healthy: "(\<And>i. \<not> fails i) \<Longrightarrow> fst (apply_all fails k sts d)"
  by (induction sts arbitrary: k d) simp_all

lemma migrate_each_result:
  "migrate_each f es ns d = (r, d') \<Longrightarrow>
     \<exists>xs. prefix xs ns \<and> (r = None \<longrightarrow> xs = ns) \<and>
       d' = d\<lparr>objects := fold exec_ddl (concat (map (migration_body es) xs)) (objects d)\<rparr>"
proof (induction ns arbitrary: d)
  case (Cons n ns)
  show ?case
  proof (cases "poRead f n \<or> poExec f n")
    case True
    then have "r \<noteq> None" "d' = d" using Cons.prems by (auto split: if_splits)
    then show ?thesis by (intro exI [of _ "[]"]) simp
  next
    case False
    then have "migrate_each f es ns (d\<lparr>objects := fold exec_ddl (migration_body es n) (objects d)\<rparr>) = (r, d')"
      using Cons.prems by simp
    from Cons.IH [OF this] obtain xs where xs: "prefix xs ns" "r = None \<longrightarrow> xs = ns"
      "d' = d\<lparr>objects := fold exec_ddl (concat (map (migration_body es) xs))
        (fold exec_ddl (migration_body es n) (objects d))\<rparr>" by auto
    show ?thesis by (intro exI [of _ "n # xs"]) (simp add: xs)
  qed
qed simp

lemma migrate_each_healthy:
  "(\<And>n. \<not> poRead f n \<and> \<not> poExec f n) \<Longrightarrow> fst (migrate_each f es ns d) = None"
  by (induction ns arbitrary: d) simp_all

text \<open>Connections that are left open.\<close>

lemma sqlite_conns:
  assumes "NewSQLite f path d = (r, d')"
  shows "openConns d' = openConns d + (case r of Inl _ \<Rightarrow> 0 | Inr _ \<Rightarrow> 1)"
proof -
  obtain ok d1 where a: "apply_all (soExec f) 0 sqliteSchema (open_conn d) = (ok, d1)" by fastforce
  then have "openConns d1 = openConns d + 1"
    using apply_all_result [OF a] by (auto simp: open_conn_def)
  then show ?thesis using assms a
    by (auto simp: NewSQLite_def close_conn_def open_conn_def split: if_splits bool.splits)
qed

lemma postgres_conns:
  assumes "NewPostgres f es d = (r, d')"
  shows "openConns d' = openConns d + (case r of Inl _ \<Rightarrow> 0 | Inr _ \<Rightarrow> 1)"
proof -
  obtain e d1 where m: "migrate_each f es (migration_names es) (open_conn d) = (e, d1)" by fastforce
  then have "openConns d1 = openConns d + 1"
    using migrate_each_result [OF m] by (auto simp: open_conn_def)
  then show ?thesis using assms m
    by (auto simp: NewPostgres_def migrate_def close_conn_def open_conn_def split: if_splits option.splits)
qed

section \<open>Opening\<close>

definition sqlite_healthy :: sqlite_faults where
  "sqlite_healthy = \<lparr>soOpen = \<lambda>_. False, soPing = False, soExec = \<lambda>_. False\<rparr>"

text \<open>
  C31. Opening the SQLite database is all or nothing as far as connections go, and provisions the
  schema: on success one more connection is open and every table and index of the schema exists;
  on any failure no connection is left open; what existed before stays; and opening
  again changes no object. Without a failing call it succeeds.
\<close>

theorem sqlite_opens_with_its_schema:
  assumes "NewSQLite f path d = (r, d')"
  shows "prefix (objects d) (objects d') \<and> (f = sqlite_healthy \<longrightarrow> r = Inr ()) \<and>
    (case r of
       Inl e \<Rightarrow> openConns d' = openConns d
     | Inr _ \<Rightarrow> openConns d' = openConns d + 1 \<and>
         ddl_name ` set sqliteSchema \<subseteq> ddl_name ` set (objects d') \<and>
         (\<forall>f' path'. objects (snd (NewSQLite f' path' d')) = objects d'))"
proof (cases "soOpen f (sqlite_dsn path) \<or> soPing f")
  case True
  then show ?thesis using assms
    by (auto simp: NewSQLite_def close_conn_def open_conn_def sqlite_healthy_def split: if_splits)
next
  case False
  obtain ok d1 where a: "apply_all (soExec f) 0 sqliteSchema (open_conn d) = (ok, d1)" by fastforce
  obtain n where n: "ok \<longrightarrow> n = length sqliteSchema"
    "d1 = (open_conn d)\<lparr>objects := fold exec_ddl (take n sqliteSchema) (objects (open_conn d))\<rparr>"
    using apply_all_result [OF a] by blast
  have again: "objects (snd (NewSQLite f' path' e)) = objects e"
    if "ddl_name ` set sqliteSchema \<subseteq> ddl_name ` set (objects e)" for f' path' e
  proof -
    have "fold exec_ddl (take k sqliteSchema) (objects e) = objects e" for k
      by (rule fold_exec_present) (use that set_take_subset in fast)
    then show ?thesis
      using apply_all_result [of "soExec f'" 0 sqliteSchema "open_conn e"]
      by (auto simp: NewSQLite_def close_conn_def open_conn_def split: prod.split bool.split)
  qed
  show ?thesis
  proof (cases ok)
    case True
    then have "r = Inr ()" "d' = d1" using assms False a by (auto simp: NewSQLite_def)
    moreover have "objects d1 = fold exec_ddl sqliteSchema (objects d)" "openConns d1 = openConns d + 1"
      using n True by (simp_all add: open_conn_def)
    ultimately show ?thesis using again fold_exec_prefix [of "objects d" sqliteSchema]
      by (simp add: fold_exec_set)
  next
    case F: False
    then have "r = Inl ApplyingSQLiteSchema" "d' = close_conn d1" using assms False a by (auto simp: NewSQLite_def)
    moreover have "f \<noteq> sqlite_healthy"
      using F a apply_all_healthy [of "soExec f" 0 sqliteSchema "open_conn d"] by (auto simp: sqlite_healthy_def)
    ultimately show ?thesis using n fold_exec_prefix [of "objects d" "take n sqliteSchema"]
      by (simp add: open_conn_def close_conn_def)
  qed
qed

definition empty_db :: database where
  "empty_db = \<lparr>objects = [], openConns = 0\<rparr>"

lemma sqlite_first_start: "NewSQLite sqlite_healthy path empty_db = (Inr (), \<lparr>objects = sqliteSchema, openConns = 1\<rparr>)"
  by (simp add: NewSQLite_def sqlite_healthy_def empty_db_def sqliteSchema_def exec_ddl_def open_conn_def)

theorem sqlite_opens_with_its_schema_witness:
  "openConns (snd (NewSQLite sqlite_healthy ''chat.db'' empty_db)) = 1 \<and>
   ddl_name ` set sqliteSchema \<subseteq> ddl_name ` set (objects (snd (NewSQLite sqlite_healthy ''chat.db'' empty_db)))"
  using sqlite_opens_with_its_schema [OF sqlite_first_start [of "''chat.db''"]]
  unfolding sqlite_first_start by (simp add: empty_db_def)

definition postgres_healthy :: postgres_faults where
  "postgres_healthy = \<lparr>poNew = False, poPing = False, poReadDir = False, poRead = \<lambda>_. False, poExec = \<lambda>_. False\<rparr>"

lemma migrates_in_order:
  assumes "NewPostgres f es d = (r, d')"
  shows "(f = postgres_healthy \<longrightarrow> r = Inr ()) \<and> (\<exists>xs. prefix xs (migration_names es) \<and> sorted (migration_names es) \<and>
    objects d' = fold exec_ddl (concat (map (migration_body es) xs)) (objects d) \<and>
    (case r of Inl e \<Rightarrow> openConns d' = openConns d
     | Inr _ \<Rightarrow> openConns d' = openConns d + 1 \<and> xs = migration_names es))"
proof (cases "poNew f \<or> poPing f \<or> poReadDir f")
  case True
  then show ?thesis using assms
    by (intro conjI [OF _ exI [of _ "[]"]])
      (auto simp: NewPostgres_def migrate_def close_conn_def open_conn_def migration_names_def
        postgres_healthy_def split: if_splits)
next
  case False
  obtain e d1 where m: "migrate_each f es (migration_names es) (open_conn d) = (e, d1)" by fastforce
  obtain xs where xs: "prefix xs (migration_names es)" "e = None \<longrightarrow> xs = migration_names es"
    "d1 = (open_conn d)\<lparr>objects := fold exec_ddl (concat (map (migration_body es) xs)) (objects (open_conn d))\<rparr>"
    using migrate_each_result [OF m] by blast
  have "sorted (migration_names es)" by (simp add: migration_names_def)
  moreover have "f = postgres_healthy \<longrightarrow> e = None"
    using m migrate_each_healthy [of f es "migration_names es" "open_conn d"] by (auto simp: postgres_healthy_def)
  ultimately show ?thesis
    using assms False m xs
    by (intro conjI [OF _ exI [of _ xs]]) (auto simp: NewPostgres_def migrate_def close_conn_def open_conn_def split: option.splits)
qed

lemma own_migrations:
  "migration_names migration_files = [''0001_init.sql'', ''0002_auth.sql'']"
  "fold exec_ddl (concat (map (migration_body migration_files) (migration_names migration_files))) [] = init_sql @ auth_sql"
proof -
  show n: "migration_names migration_files = [''0001_init.sql'', ''0002_auth.sql'']"
    by (simp add: migration_names_def migration_files_def HasSuffix_def)
  have "fold exec_ddl (init_sql @ auth_sql) [] = init_sql @ auth_sql"
    by (simp add: init_sql_def auth_sql_def exec_ddl_def)
  then show "fold exec_ddl (concat (map (migration_body migration_files) (migration_names migration_files))) [] =
      init_sql @ auth_sql"
    unfolding n by (simp add: migration_body_def migration_files_def)
qed

lemma same_tables: "tables (init_sql @ auth_sql) = tables sqliteSchema"
  by (simp add: init_sql_def auth_sql_def sqliteSchema_def)

text \<open>
  C32. Opening Postgres: the migrations run in the order of their file names, each once; a failure
  leaves a prefix of them applied and no pool open; on success all were applied, and it succeeds when no call
  fails. The migrations of the program give a new database the same tables with the same
  columns as the schema of SQLite, so the queries of either store find what they name.
\<close>

theorem postgres_migrates_in_order:
  assumes "NewPostgres f es d = (r, d')"
  shows "(f = postgres_healthy \<longrightarrow> r = Inr ()) \<and> (\<exists>xs. prefix xs (migration_names es) \<and> sorted (migration_names es) \<and>
    objects d' = fold exec_ddl (concat (map (migration_body es) xs)) (objects d) \<and>
    (case r of Inl e \<Rightarrow> openConns d' = openConns d
     | Inr _ \<Rightarrow> openConns d' = openConns d + 1 \<and> xs = migration_names es)) \<and>
    (es = migration_files \<and> objects d = [] \<and> r = Inr () \<longrightarrow> tables (objects d') = tables sqliteSchema)"
proof -
  have "(f = postgres_healthy \<longrightarrow> r = Inr ()) \<and> (\<exists>xs. prefix xs (migration_names es) \<and> sorted (migration_names es) \<and>
    objects d' = fold exec_ddl (concat (map (migration_body es) xs)) (objects d) \<and>
    (case r of Inl e \<Rightarrow> openConns d' = openConns d
     | Inr _ \<Rightarrow> openConns d' = openConns d + 1 \<and> xs = migration_names es))"
    by (rule migrates_in_order [OF assms])
  moreover from this have "tables (objects d') = tables sqliteSchema"
    if "es = migration_files" "objects d = []" "r = Inr ()"
    using that own_migrations(2) same_tables by auto
  ultimately show ?thesis by blast
qed

theorem postgres_migrates_in_order_witness:
  "tables (objects (snd (NewPostgres postgres_healthy migration_files empty_db))) =
     [(''messages'', [''id'', ''room'', ''sender_id'', ''sender_name'', ''content'', ''created_at'']),
      (''users'', [''id'', ''username'', ''password_hash'', ''display_name'', ''created_at'']),
      (''sessions'', [''token_hash'', ''user_id'', ''created_at'', ''expires_at''])]"
proof -
  obtain r d' where n: "NewPostgres postgres_healthy migration_files empty_db = (r, d')" by fastforce
  from postgres_migrates_in_order [OF n] have "tables (objects d') = tables sqliteSchema"
    by (simp add: empty_db_def)
  then show ?thesis unfolding n by (simp add: sqliteSchema_def)
qed

end
