(* ===== verification/Startup.thy ===== *)
theory Startup
  imports Web_Laws Store_Open Persist
begin

text \<open>
  The composition root \<^verbatim>\<open>cmd/chat/main.go\<close>: flags over defaults, the opening of the chosen database, and how
  \<^verbatim>\<open>run\<close> wires the parts together and takes them down. Signals, logging and the profiling
  server are left out; what the goroutines do in between is modelled in \<^verbatim>\<open>Pumps\<close> and
  \<^verbatim>\<open>Pipeline\<close>.
\<close>

section \<open>Flags\<close>

text \<open>One parsed flag; a malformed command line ends the process in the \<^verbatim>\<open>flag\<close> package.\<close>

datatype cli_flag =
    AddrFlag string
  | DBURLFlag string
  | MaxMessageSizeFlag int
  | SendBufferFlag int
  | PingIntervalFlag int
  | HistoryLimitFlag int
  | MaxRoomsFlag int
  | SessionTTLFlag int
  | SecureCookiesFlag bool
  | DebugAddrFlag string

fun set_flag :: "cli_flag \<Rightarrow> Config \<Rightarrow> Config" where
  "set_flag (AddrFlag v) c = c\<lparr>cfgAddr := v\<rparr>"
| "set_flag (DBURLFlag v) c = c\<lparr>cfgDBURL := v\<rparr>"
| "set_flag (MaxMessageSizeFlag v) c = c\<lparr>cfgMaxMessageSize := v\<rparr>"
| "set_flag (SendBufferFlag v) c = c\<lparr>cfgSendBuffer := v\<rparr>"
| "set_flag (PingIntervalFlag v) c = c\<lparr>cfgPingInterval := v\<rparr>"
| "set_flag (HistoryLimitFlag v) c = c\<lparr>cfgHistoryLimit := v\<rparr>"
| "set_flag (MaxRoomsFlag v) c = c\<lparr>cfgMaxRooms := v\<rparr>"
| "set_flag (SessionTTLFlag v) c = c\<lparr>cfgSessionTTL := v\<rparr>"
| "set_flag (SecureCookiesFlag v) c = c\<lparr>cfgSecureCookies := v\<rparr>"
| "set_flag (DebugAddrFlag v) c = c\<lparr>cfgDebugAddr := v\<rparr>"

definition parseFlags :: "cli_flag list \<Rightarrow> Config" where
  "parseFlags fs = fold set_flag fs Default"

lemma no_flag_sets_allowed_origins: "cfgAllowedOrigins (parseFlags fs) = []"
proof -
  have "cfgAllowedOrigins (fold set_flag fs c) = cfgAllowedOrigins c" for c
  proof (induction fs arbitrary: c)
    case (Cons f fs)
    then show ?case by (cases f) simp_all
  qed simp
  then show ?thesis by (simp add: parseFlags_def Default_def)
qed

section \<open>Opening the stores\<close>

record start_env =
  seSQLite :: sqlite_faults
  sePostgres :: postgres_faults
  seCloseFails :: bool

definition openStores :: "start_env \<Rightarrow> Config \<Rightarrow> database \<Rightarrow> (open_error + db_choice) \<times> database" where
  "openStores env cfg d = (case choose_db (cfgDBURL cfg) of
       PostgresDB url \<Rightarrow> (case NewPostgres (sePostgres env) migration_files d of
           (Inl e, d') \<Rightarrow> (Inl e, d') | (Inr _, d') \<Rightarrow> (Inr (PostgresDB url), d'))
     | SQLiteDB path \<Rightarrow> (case NewSQLite (seSQLite env) path d of
           (Inl e, d') \<Rightarrow> (Inl e, d') | (Inr _, d') \<Rightarrow> (Inr (SQLiteDB path), d')))"

text \<open>The close function that comes with the stores; an error of it is only logged.\<close>

definition closeStore :: "start_env \<Rightarrow> db_choice \<Rightarrow> database \<Rightarrow> database" where
  "closeStore env c d = (case c of
       PostgresDB _ \<Rightarrow> snd (Postgres_Close (True, d))
     | SQLiteDB _ \<Rightarrow> snd (snd (SQLite_Close (seCloseFails env) (True, d))))"

lemma closeStore_conn [simp]: "closeStore env c d = close_conn d"
  by (simp add: closeStore_def SQLite_Close_def Postgres_Close_def split: db_choice.split)

section \<open>Running\<close>

datatype run_error =
    InvalidConfig config_error
  | StoreFailed open_error
  | WebFailed web_error
  | GroupFailed string

text \<open>
  The parts \<^verbatim>\<open>run\<close> wires together. \<open>ts\<close> is the precision of Postgres timestamps, \<open>st\<close> the message
  store's state, \<open>hp\<close> and \<open>rnd\<close> the memory and the run-time choices the hub starts with.
\<close>

record 's running =
  rnHub :: hub
  rnPersister :: "'s persister"
  rnServer :: "(auth_env, auth_db) Server"

definition persistQueueDepth :: int where
  "persistQueueDepth = 1024"

definition wire_up ::
    "(gotime \<Rightarrow> gotime) \<Rightarrow> 's \<Rightarrow> (cid \<Rightarrow> client) \<Rightarrow> (nat \<Rightarrow> nat) \<Rightarrow> bool \<Rightarrow> Config \<Rightarrow> db_choice \<Rightarrow>
     web_error + 's running" where
  "wire_up ts st hp rnd noAssets cfg c =
     (let p = persist_New st persistQueueDepth;
          h = New hp rnd (Inbox p) (cfgHistoryLimit cfg);
          authSvc = NewService (auth_store_of ts c) (cfgSessionTTL cfg)
      in case web_New noAssets cfg authSvc of
           Inl e \<Rightarrow> Inl e
         | Inr srv \<Rightarrow> Inr \<lparr>rnHub = h, rnPersister = p, rnServer = srv\<rparr>)"

text \<open>When the server cannot be built, the deferred close of the store still runs.\<close>

definition run_setup ::
    "start_env \<Rightarrow> (db_choice \<Rightarrow> web_error + 's running) \<Rightarrow> Config \<Rightarrow> database \<Rightarrow> (run_error + 's running) \<times> database" where
  "run_setup env build cfg d = (case Validate cfg of
       Some e \<Rightarrow> (Inl (InvalidConfig e), d)
     | None \<Rightarrow> (case openStores env cfg d of
           (Inl e, d') \<Rightarrow> (Inl (StoreFailed e), d')
         | (Inr c, d') \<Rightarrow> (case build c of
               Inl e \<Rightarrow> (Inl (WebFailed e), closeStore env c d')
             | Inr rn \<Rightarrow> (Inr rn, d'))))"

text \<open>
  \<^verbatim>\<open>run\<close> waits for the group of goroutines, whose first error is \<open>failed\<close>, and only then runs the
  deferred close of the store.
\<close>

definition run ::
    "start_env \<Rightarrow> (db_choice \<Rightarrow> web_error + 's running) \<Rightarrow> Config \<Rightarrow> string option \<Rightarrow> database \<Rightarrow>
     run_error option \<times> database" where
  "run env build cfg failed d = (case run_setup env build cfg d of
       (Inl e, d') \<Rightarrow> (Some e, d')
     | (Inr _, d') \<Rightarrow> (map_option GroupFailed failed, closeStore env (choose_db (cfgDBURL cfg)) d'))"

text \<open>\<^verbatim>\<open>main\<close> exits with status 1 when \<^verbatim>\<open>run\<close> returns an error.\<close>

definition main_exit :: "run_error option \<Rightarrow> nat" where
  "main_exit r = (if r = None then 0 else 1)"

section \<open>What starting up guarantees\<close>

lemma openStores_conns:
  assumes "openStores env cfg d = (r, d')"
  shows "openConns d' = openConns d + (case r of Inl _ \<Rightarrow> 0 | Inr _ \<Rightarrow> 1)"
    "r = Inr c \<Longrightarrow> c = choose_db (cfgDBURL cfg)"
proof -
  have "openConns d' = openConns d + (case r of Inl _ \<Rightarrow> 0 | Inr _ \<Rightarrow> 1) \<and>
      (r = Inr c \<longrightarrow> c = choose_db (cfgDBURL cfg))"
  proof (cases "choose_db (cfgDBURL cfg)")
    case (PostgresDB url)
    obtain r1 d1 where n: "NewPostgres (sePostgres env) migration_files d = (r1, d1)" by fastforce
    from postgres_conns [OF n] show ?thesis
      using assms PostgresDB n by (cases r1) (auto simp: openStores_def)
  next
    case (SQLiteDB path)
    obtain r1 d1 where n: "NewSQLite (seSQLite env) path d = (r1, d1)" by fastforce
    from sqlite_conns [OF n] show ?thesis
      using assms SQLiteDB n by (cases r1) (auto simp: openStores_def)
  qed
  then show "openConns d' = openConns d + (case r of Inl _ \<Rightarrow> 0 | Inr _ \<Rightarrow> 1)"
    "r = Inr c \<Longrightarrow> c = choose_db (cfgDBURL cfg)" by blast+
qed

text \<open>
  C18. The program starts as a whole or not at all: an invalid configuration is reported before
  anything is opened; a store that fails to open, or a server that cannot be built, leaves no
  connection; and otherwise the hub
  starts fresh, feeding exactly the persister's inbox of 1024 messages, with the configured history
  limit and session lifetime, and with a send buffer for which no client's creation panics. In every
  case the connections that \<^verbatim>\<open>run\<close> opened are closed when it returns.
\<close>

theorem startup_is_all_or_nothing:
  assumes "run_setup env (wire_up ts st hp rnd noAssets cfg) cfg d = (r, d')"
  shows "(case r of
      Inl (InvalidConfig e) \<Rightarrow> Validate cfg = Some e \<and> d' = d
    | Inl _ \<Rightarrow> Validate cfg = None \<and> openConns d' = openConns d
    | Inr rn \<Rightarrow> Validate cfg = None \<and> openConns d' = openConns d + 1 \<and> fresh (rnHub rn) \<and>
        persist (rnHub rn) = pIn (rnPersister rn) \<and> chCap (persist (rnHub rn)) = 1024 \<and>
        historyLimit (rnHub rn) = cfgHistoryLimit cfg \<and>
        hsAddr (svHttp (rnServer rn)) = cfgAddr cfg \<and> 0 < hsReadHeaderTimeout (svHttp (rnServer rn)) \<and>
        sessionTTL (svAuth (rnServer rn)) = cfgSessionTTL cfg \<and>
        store (svAuth (rnServer rn)) = auth_store_of ts (choose_db (cfgDBURL cfg)) \<and>
        (\<forall>i n. \<exists>c. NewClient i n (cfgSendBuffer cfg) (cfgPingInterval cfg) = Inr c)) \<and>
    openConns (snd (run env (wire_up ts st hp rnd noAssets cfg) cfg failed d)) = openConns d"
proof (cases "Validate cfg")
  case (Some e)
  then show ?thesis using assms by (auto simp: run_setup_def run_def)
next
  case None
  obtain o' d1 where o: "openStores env cfg d = (o', d1)" by fastforce
  have buf: "0 < cfgSendBuffer cfg" using None by (simp add: Validate_None_iff)
  show ?thesis
  proof (cases o')
    case (Inl e)
    then show ?thesis using assms None o openStores_conns(1) [OF o] by (auto simp: run_setup_def run_def)
  next
    case (Inr c)
    note c = openStores_conns(1) [OF o] openStores_conns(2) [OF o Inr]
    have "fresh (New hp rnd (pIn (persist_New st persistQueueDepth)) (cfgHistoryLimit cfg))"
      by (simp add: fresh_def New_def persist_New_def)
    then show ?thesis
      using assms None o Inr c buf
      by (auto simp: run_setup_def run_def wire_up_def Let_def New_def persist_New_def Inbox_def persistQueueDepth_def
          NewService_def NewClient_def close_conn_def web_New_def
          new_http_def Second_def split: if_splits)
  qed
qed

definition healthy_start :: start_env where
  "healthy_start = \<lparr>seSQLite = sqlite_healthy, sePostgres = postgres_healthy, seCloseFails = False\<rparr>"

definition first_start :: "db_choice \<Rightarrow> web_error + unit running" where
  "first_start = wire_up id () (\<lambda>_. \<lparr>clID = '''', clName = '''', clSend = make_chan 0, clPingInterval = 1\<rparr>)
     (\<lambda>_. 0) False Default"

theorem startup_is_all_or_nothing_witness:
  "\<exists>rn d'. run_setup healthy_start first_start Default empty_db = (Inr rn, d') \<and>
     fresh (rnHub rn) \<and> chCap (persist (rnHub rn)) = 1024 \<and> openConns d' = 1"
proof -
  have "choose_db (cfgDBURL Default) = SQLiteDB ''chat.db''"
    by (simp add: choose_db_def Default_def HasPrefix_def TrimPrefix_def)
  moreover obtain rn where "first_start (SQLiteDB ''chat.db'') = Inr rn"
    by (simp add: first_start_def wire_up_def web_New_def Let_def)
  ultimately have r: "run_setup healthy_start first_start Default empty_db =
      (Inr rn, \<lparr>objects = sqliteSchema, openConns = 1\<rparr>)"
    by (simp add: run_setup_def Default_valid openStores_def healthy_start_def sqlite_first_start)
  from startup_is_all_or_nothing [OF r [unfolded first_start_def], of None] r
  show ?thesis by (auto simp: empty_db_def first_start_def)
qed

end
