(* ===== verification/Process.thy ===== *)
theory Process
  imports World Startup Store
begin

text \<open>
  The running process: what \<^verbatim>\<open>run\<close> of \<^verbatim>\<open>cmd/chat/main.go\<close> starts, on the configured database. Beside the HTTP requests and
  the goroutines of \<^verbatim>\<open>Pumps\<close> it has the persister on the message table, the goroutines that
  serve and shut down the chat server and the debug server, and the error group that ties
  them together: the first error is kept and cancels the common context, and \<^verbatim>\<open>Wait\<close> returns it
  once every goroutine of the group has returned.
\<close>

section \<open>State\<close>

datatype http_name = ChatHTTP | DebugHTTP

text \<open>
  The two goroutines of an HTTP server: whether \<^verbatim>\<open>Shutdown\<close> has been called, whether the goroutine
  that serves has returned, and whether the one that shuts it down has.
\<close>

record http_pair =
  hpDown :: bool
  hpServed :: bool
  hpStopped :: bool

definition http_running :: http_pair where
  "http_running = \<lparr>hpDown = False, hpServed = False, hpStopped = False\<rparr>"

definition http_over :: http_pair where
  "http_over = \<lparr>hpDown = True, hpServed = True, hpStopped = True\<rparr>"

text \<open>\<open>pcErr\<close> is the first error of the group, \<open>pcResult\<close> what \<^verbatim>\<open>run\<close> has returned.\<close>

record process =
  pcWorld :: "auth_db world"
  pcMessages :: msg_table
  pcPersisted :: bool
  pcHttp :: "http_name \<Rightarrow> http_pair"
  pcErr :: "string option"
  pcResult :: "string option option"

abbreviation pcSys :: "process \<Rightarrow> sys" where
  "pcSys p \<equiv> wSys (pcWorld p)"

definition put_sys :: "sys \<Rightarrow> process \<Rightarrow> process" where
  "put_sys s p = p\<lparr>pcWorld := (pcWorld p)\<lparr>wSys := s\<rparr>\<rparr>"

definition put_http :: "http_name \<Rightarrow> http_pair \<Rightarrow> process \<Rightarrow> process" where
  "put_http n hp p = p\<lparr>pcHttp := (pcHttp p)(n := hp)\<rparr>"

text \<open>The debug server is only started when it has an address.\<close>

definition launch :: "Config \<Rightarrow> hub \<Rightarrow> auth_db \<Rightarrow> msg_table \<Rightarrow> process" where
  "launch cfg h a t = \<lparr>pcWorld = \<lparr>wAuth = a, wSys = boot h\<rparr>, pcMessages = t, pcPersisted = False,
     pcHttp = (\<lambda>_. http_running)(DebugHTTP := if cfgDebugAddr cfg = '''' then http_over else http_running),
     pcErr = None, pcResult = None\<rparr>"

section \<open>The error group\<close>

definition cancel :: "process \<Rightarrow> process" where
  "cancel p = put_sys ((pcSys p)\<lparr>ctxDone := True\<rparr>) p"

definition task_ends :: "string option \<Rightarrow> process \<Rightarrow> process" where
  "task_ends r p = (case r of
       None \<Rightarrow> p
     | Some e \<Rightarrow> cancel (if pcErr p = None then p\<lparr>pcErr := Some e\<rparr> else p))"

definition serve_text :: "serve_error \<Rightarrow> string" where
  "serve_text e = (case e of ErrServerClosed \<Rightarrow> ''http: Server closed'' | ServeFailed msg \<Rightarrow> msg)"

definition deadline_text :: string where
  "deadline_text = ''context deadline exceeded''"

text \<open>
  \<^verbatim>\<open>Shutdown\<close> under a context that is done after the grace period: the requests still open take \<open>busy\<close>
  nanoseconds more; when they end in time, the error is that of closing the listeners, if any.
\<close>

definition shutdownGrace :: int where
  "shutdownGrace = 10 * Second"

definition Shutdown :: "int \<Rightarrow> string option \<Rightarrow> string option" where
  "Shutdown busy listenErr = (if shutdownGrace \<le> busy then Some deadline_text else listenErr)"

lemma Shutdown_at_once [simp]: "Shutdown 0 None = None"
  by (simp add: Shutdown_def shutdownGrace_def Second_def)

section \<open>Steps\<close>

text \<open>
  A request; a step of a goroutine of \<^verbatim>\<open>Pumps\<close>; the history a read pump loads; the persister; a
  signal; the goroutines of the HTTP servers; the return of \<^verbatim>\<open>run\<close>. A request is possible until
  \<^verbatim>\<open>run\<close> returns, which is more than a server that is shutting down allows.
\<close>

datatype plabel =
    Request "auth_env web_call" request
  | Goroutine "unit label"
  | LoadFromStore cid db_env
  | PersistOne db_env
  | PersistDrain "nat \<Rightarrow> db_env"
  | Signal
  | ServeReturns http_name serve_error
  | StopBegins http_name
  | StopReturns http_name int "string option"
  | RunReturns

text \<open>The steps of \<^verbatim>\<open>Pumps\<close> that other goroutines of the process take part in are not its own.\<close>

definition own_step :: "unit label \<Rightarrow> bool" where
  "own_step l \<longleftrightarrow> (case l of
       Connect c i n \<Rightarrow> False | LoadHistory c ans \<Rightarrow> False | CancelCtx \<Rightarrow> False | PersisterTakes \<Rightarrow> False
     | _ \<Rightarrow> True)"

definition answer :: "'e + 'a \<Rightarrow> unit + 'a" where
  "answer r = map_sum (\<lambda>_. ()) id r"

lemma answer_Inr: "answer r = Inr x \<longleftrightarrow> r = Inr x"
  by (cases r) (simp_all add: answer_def)

definition put_persister :: "bool \<times> msg_table persister \<Rightarrow> process \<Rightarrow> process" where
  "put_persister x p = (put_sys ((pcSys p)\<lparr>persist := pIn (snd x)\<rparr>) p)
     \<lparr>pcMessages := pStore (snd x), pcPersisted := fst x\<rparr>"

definition persister_turn :: "(gotime \<Rightarrow> gotime) \<Rightarrow> Config \<Rightarrow> db_env pchoice \<Rightarrow> process \<Rightarrow> process option" where
  "persister_turn ts cfg ch p = map_option (\<lambda>x. put_persister x p)
     (persister_Run (SaveMessage_of ts (db_of cfg)) [ch] \<lparr>pIn = persist (pcSys p), pStore = pcMessages p\<rparr>)"

text \<open>
  The goroutine that serves returns with the error of \<^verbatim>\<open>ListenAndServe\<close>, which is \<^verbatim>\<open>ErrServerClosed\<close> only
  after \<^verbatim>\<open>Shutdown\<close> was called; the one that calls it waits for the cancelled context, and gives up
  when the grace period is over.
\<close>

definition serve_returns :: "http_name \<Rightarrow> serve_error \<Rightarrow> process \<Rightarrow> process option" where
  [simp]: "serve_returns n e p =
     (let hp = pcHttp p n
      in if hpServed hp \<or> (e = ErrServerClosed \<and> \<not> hpDown hp) then None
         else Some (task_ends (map_option serve_text (Serve (Some e))) (put_http n (hp\<lparr>hpServed := True\<rparr>) p)))"

definition stop_begins :: "http_name \<Rightarrow> process \<Rightarrow> process option" where
  [simp]: "stop_begins n p =
     (let hp = pcHttp p n
      in if hpDown hp \<or> \<not> ctxDone (pcSys p) then None else Some (put_http n (hp\<lparr>hpDown := True\<rparr>) p))"

definition stop_returns :: "http_name \<Rightarrow> int \<Rightarrow> string option \<Rightarrow> process \<Rightarrow> process option" where
  [simp]: "stop_returns n busy listenErr p =
     (let hp = pcHttp p n
      in if hpStopped hp \<or> \<not> hpDown hp then None
         else Some (task_ends (Shutdown busy listenErr) (put_http n (hp\<lparr>hpStopped := True\<rparr>) p)))"

text \<open>\<^verbatim>\<open>g.Wait\<close>, and with it the return of \<^verbatim>\<open>run\<close>.\<close>

definition wait_returns :: "process \<Rightarrow> process option" where
  [simp]: "wait_returns p =
     (if hubDone (pcSys p) \<and> pcPersisted p \<and>
         (\<forall>n \<in> {ChatHTTP, DebugHTTP}. hpServed (pcHttp p n) \<and> hpStopped (pcHttp p n))
      then Some (p\<lparr>pcResult := Some (pcErr p)\<rparr>) else None)"

fun process_steps :: "crypto \<Rightarrow> web_lib \<Rightarrow> (gotime \<Rightarrow> gotime) \<Rightarrow> Config \<Rightarrow> plabel \<Rightarrow> process \<Rightarrow> process option" where
  "process_steps K lib ts cfg (Request wc rq) p =
     Some (p\<lparr>pcWorld := snd (ServeHTTP K lib (chat_server ts cfg) wc rq (pcWorld p))\<rparr>)"
| "process_steps K lib ts cfg (Goroutine l) p = (if own_step l
     then map_option (\<lambda>s. put_sys s p) (steps cfg l (pcSys p)) else None)"
| "process_steps K lib ts cfg (LoadFromStore c env) p = (case reader (pcSys p) c of
       Loading rm \<Rightarrow> map_option (\<lambda>s. put_sys s p)
         (steps cfg (LoadHistory c (answer (RecentByRoom_of (db_of cfg) env rm (historyLimit (pcSys p)) (pcMessages p)))) (pcSys p))
     | _ \<Rightarrow> None)"
| "process_steps K lib ts cfg (PersistOne env) p =
     (if pcPersisted p \<or> chan_recv (persist (pcSys p)) = NotReady then None
      else persister_turn ts cfg (TakeMessage env) p)"
| "process_steps K lib ts cfg (PersistDrain env) p =
     (if pcPersisted p \<or> \<not> ctxDone (pcSys p) then None else persister_turn ts cfg (CtxDone env) p)"
| "process_steps K lib ts cfg Signal p = Some (cancel p)"
| "process_steps K lib ts cfg (ServeReturns n e) p = serve_returns n e p"
| "process_steps K lib ts cfg (StopBegins n) p = stop_begins n p"
| "process_steps K lib ts cfg (StopReturns n busy listenErr) p = stop_returns n busy listenErr p"
| "process_steps K lib ts cfg RunReturns p = wait_returns p"

text \<open>No step after \<^verbatim>\<open>run\<close> has returned, and none of a crashed process.\<close>

definition process_step :: "crypto \<Rightarrow> web_lib \<Rightarrow> (gotime \<Rightarrow> gotime) \<Rightarrow> Config \<Rightarrow> plabel \<Rightarrow> process \<Rightarrow> process option" where
  "process_step K lib ts cfg l p =
     (if pcResult p \<noteq> None \<or> crashed (pcSys p) \<noteq> None then None else process_steps K lib ts cfg l p)"

fun process_run :: "crypto \<Rightarrow> web_lib \<Rightarrow> (gotime \<Rightarrow> gotime) \<Rightarrow> Config \<Rightarrow> plabel list \<Rightarrow> process \<Rightarrow> process option" where
  "process_run K lib ts cfg [] p = Some p"
| "process_run K lib ts cfg (l # ls) p =
     (case process_step K lib ts cfg l p of None \<Rightarrow> None | Some p' \<Rightarrow> process_run K lib ts cfg ls p')"

text \<open>The random source of a request, when it does not fail, fills the bytes of a token.\<close>

definition plabel_ok :: "plabel \<Rightarrow> bool" where
  "plabel_ok l \<longleftrightarrow> (case l of Request wc rq \<Rightarrow> rand_ok (wcCall wc) | _ \<Rightarrow> True)"

section \<open>Frame lemmas\<close>

lemma put_simps [simp]:
  "pcSys (put_sys s p) = s" "wAuth (pcWorld (put_sys s p)) = wAuth (pcWorld p)"
  "pcMessages (put_sys s p) = pcMessages p" "pcPersisted (put_sys s p) = pcPersisted p"
  "pcHttp (put_sys s p) = pcHttp p" "pcErr (put_sys s p) = pcErr p" "pcResult (put_sys s p) = pcResult p"
  "pcWorld (put_http n hp p) = pcWorld p" "pcMessages (put_http n hp p) = pcMessages p"
  "pcPersisted (put_http n hp p) = pcPersisted p" "pcErr (put_http n hp p) = pcErr p"
  "pcResult (put_http n hp p) = pcResult p" "pcHttp (put_http n hp p) = (pcHttp p)(n := hp)"
  by (simp_all add: put_sys_def put_http_def)

lemma cancel_simps [simp]:
  "pcSys (cancel p) = (pcSys p)\<lparr>ctxDone := True\<rparr>" "wAuth (pcWorld (cancel p)) = wAuth (pcWorld p)"
  "pcMessages (cancel p) = pcMessages p" "pcPersisted (cancel p) = pcPersisted p"
  "pcHttp (cancel p) = pcHttp p" "pcErr (cancel p) = pcErr p" "pcResult (cancel p) = pcResult p"
  by (simp_all add: cancel_def)

lemma task_ends_simps [simp]:
  "task_ends None p = p" "pcMessages (task_ends r p) = pcMessages p" "pcPersisted (task_ends r p) = pcPersisted p"
  "pcHttp (task_ends r p) = pcHttp p" "pcResult (task_ends r p) = pcResult p"
  "wAuth (pcWorld (task_ends r p)) = wAuth (pcWorld p)"
  "pcErr (task_ends r p) = (if pcErr p = None then r else pcErr p)"
  "pcSys (task_ends r p) = (if r = None then pcSys p else (pcSys p)\<lparr>ctxDone := True\<rparr>)"
  by (auto simp: task_ends_def split: option.splits)

lemma put_persister_simps [simp]:
  "pcSys (put_persister x p) = (pcSys p)\<lparr>persist := pIn (snd x)\<rparr>"
  "wAuth (pcWorld (put_persister x p)) = wAuth (pcWorld p)" "pcMessages (put_persister x p) = pStore (snd x)"
  "pcPersisted (put_persister x p) = fst x" "pcHttp (put_persister x p) = pcHttp p"
  "pcErr (put_persister x p) = pcErr p" "pcResult (put_persister x p) = pcResult p"
  by (simp_all add: put_persister_def)

lemma process_run_append: "process_run K lib ts cfg (xs @ ys) p = (case process_run K lib ts cfg xs p of
    None \<Rightarrow> None | Some q \<Rightarrow> process_run K lib ts cfg ys q)"
  by (induction xs arbitrary: p) (auto split: option.splits)

text \<open>One message, and the drain, as the persister takes them.\<close>

lemma persister_turn_take:
  assumes "\<not> chClosed (persist (pcSys p))" and "chan_recv (persist (pcSys p)) \<noteq> NotReady"
  shows "\<exists>m ch. chan_recv (persist (pcSys p)) = Received m ch \<and>
    persister_turn ts cfg (TakeMessage env) p =
      Some (put_persister (False, \<lparr>pIn = ch, pStore = snd (SaveMessage_of ts (db_of cfg) env m (pcMessages p))\<rparr>) p)"
  using assms by (cases "chan_recv (persist (pcSys p))")
    (auto simp: persister_turn_def persist_save_def chan_recv_def split: list.splits if_splits)

lemma persister_turn_drain:
  assumes "\<not> chClosed (persist (pcSys p))"
  shows "persister_turn ts cfg (CtxDone env) p = Some (put_persister (True,
    \<lparr>pIn = (persist (pcSys p))\<lparr>chBuf := []\<rparr>,
     pStore = save_all (SaveMessage_of ts (db_of cfg)) (tagged env 0 (chBuf (persist (pcSys p)))) (pcMessages p)\<rparr>) p)"
  using assms by (simp add: persister_turn_def drain_open)

end
