(* ===== verification/Flow.thy ===== *)
theory Flow
  imports World
begin

text \<open>
  Where chat messages travel: every message in a frame on its way to a client, on the wire, or in
  the hand-off queue got there from a command of a live connection or from the message
  store's answer to a join.
\<close>

section \<open>The messages a frame carries\<close>

definition carried :: "Envelope \<Rightarrow> Message set" where
  "carried e = set_option (eMessage e) \<union> set (eHistory e)"

lemma carried_simps [simp]:
  "carried (message_frame rm m) = {m}" "carried (presence_frame rm u j ns) = {}"
  "carried (history_frame rm ms) = set ms" "carried (error_frame rm) = {}"
  by (simp_all add: carried_def message_frame_def presence_frame_def history_frame_def error_frame_def
      zero_Envelope_def)

lemma carried_left: "is_left e \<Longrightarrow> carried e = {}"
  by (auto simp: is_left_def left_frame_def)

definition queued :: "cid \<Rightarrow> 'a mem_scheme \<Rightarrow> Message set" where
  "queued d s = \<Union> (carried ` set (sendq s d))"

lemma queued_push_all:
  "\<Union> (carried ` set (chBuf (clSend (push_all A e hp d)))) \<subseteq>
     \<Union> (carried ` set (chBuf (clSend (hp d)))) \<union> (if d \<in> A then carried e else {})"
  by (auto simp: push_all_def push_def)

lemma queued_pushed:
  "heap h' = push_all A e (heap h) \<Longrightarrow> queued d h' \<subseteq> queued d h \<union> carried e"
  unfolding queued_def using queued_push_all [of A e "heap h" d] by (auto split: if_splits)

lemma queued_dropped:
  assumes "dropped D h h'"
  shows "queued d h' = queued d h"
proof -
  obtain hp rnd where h': "h' = h\<lparr>clients := filter (\<lambda>c. c \<notin> D) (clients h),
      rooms := without D (rooms h), heap := hp, rand := rnd\<rparr>"
    and e: "ext1 is_left (if d \<in> D then closed_client (heap h d) else heap h d) (hp d)"
    using assms unfolding dropped_def by blast
  from e obtain ys where ys: "chBuf (clSend (hp d)) = sendq h d @ ys" "list_all is_left ys"
    by (auto simp: ext1_def closed_client_def split: if_splits)
  have "\<Union> (carried ` set ys) = {}" using ys(2) carried_left by (auto simp: list_all_iff)
  then show ?thesis unfolding queued_def h' by (simp add: ys(1))
qed

section \<open>The hub\<close>

definition sent :: "event \<Rightarrow> 'a hub_scheme \<Rightarrow> Message set" where
  "sent ev h = (case ev of
       EvInbound cmd now b \<Rightarrow> if cmdKind cmd = TypeMessage then {message_of cmd now h} else {}
     | _ \<Rightarrow> {})"

lemma accepted_sent: "set (accepted ev h) \<subseteq> sent ev h"
  by (auto simp: accepted_def sent_def split: event.splits)

lemma run_step_queued:
  assumes "hub_inv h" and "ev_ok ev h" and "run_step ev h = Inr (st, h')"
  shows "queued d h' \<subseteq> queued d h \<union> sent ev h"
proof (cases ev)
  case (EvUnregister c)
  then have "dropped ({c} \<inter> set (clients h)) h h'"
    using disconnect_dropped [OF assms(1), of c] assms(3) by auto
  then show ?thesis using queued_dropped by blast
next
  case (EvInbound cmd now b)
  with assms(3) have h': "handle b now cmd h = Inr h'" by auto
  have same: "h' = h \<Longrightarrow> ?thesis" by simp
  have "h' = h" if "map_of (rooms h) (cmdRoom cmd) = None" "cmdKind cmd \<noteq> TypeJoin"
    using h' that by (simp add: handle_def leave_absent broadcast_absent split: if_splits)
  moreover have "h' = h" if "cmdKind cmd \<notin> {TypeJoin, TypeLeave, TypeMessage}"
    using h' that by (simp add: handle_def)
  ultimately consider (j) "cmdKind cmd = TypeJoin"
    | (l) r where "cmdKind cmd = TypeLeave" "map_of (rooms h) (cmdRoom cmd) = Some r"
    | (m) r where "cmdKind cmd = TypeMessage" "map_of (rooms h) (cmdRoom cmd) = Some r" | (u) "h' = h"
    by blast
  then show ?thesis
  proof cases
    case j
    then have "cmdClient cmd \<in> set (clients h)" using assms(2) EvInbound by (simp add: ev_ok_def)
    from join_form [OF assms(1) this] h' j obtain A u ns where
      "heap h' = push_all A (presence_frame (cmdRoom cmd) u True ns) (heap h)"
      by (auto simp: handle_def)
    from queued_pushed [OF this, of d] show ?thesis by auto
  next
    case l
    from leave_form [OF assms(1) l(2)] h' l(1) obtain A u ns where
      "heap h' = push_all A (presence_frame (cmdRoom cmd) u False ns) (heap h)"
      by (auto simp: handle_def Type_defs)
    from queued_pushed [OF this, of d] show ?thesis by auto
  next
    case m
    let ?h = "\<lambda>rnd. h\<lparr>messagesTotal := messagesTotal h + 1,
         heap := push_all (set (members r) - {cmdClient cmd}) (message_frame (cmdRoom cmd) (message_of cmd now h)) (heap h),
         rand := rnd\<rparr>"
    from broadcast_form [OF assms(1) m(2), where ctxDone = b and now = now] h' m(1)
    obtain h1 p rnd0 rnd where 1: "h' = h1\<lparr>persist := p, rand := rnd\<rparr>"
      "dropped (slow_members r (cmdClient cmd) h) (?h rnd0) h1"
      by (auto simp: handle_def Type_defs)
    have "queued d h' = queued d (?h rnd0)" using queued_dropped [OF 1(2), of d] 1(1) by (simp add: queued_def)
    also have "\<dots> \<subseteq> queued d h \<union> {message_of cmd now h}"
      using queued_pushed [of "?h rnd0" "set (members r) - {cmdClient cmd}"
          "message_frame (cmdRoom cmd) (message_of cmd now h)" h d] by simp
    finally show ?thesis using m(1) EvInbound by (simp add: sent_def)
  qed (rule same)
qed (use assms(3) in \<open>auto simp: queued_def snapshot_def draw_def\<close>)

lemma run_step_handed:
  assumes "hub_inv h" and "ev_ok ev h" and "run_step ev h = Inr (st, h')"
  shows "set (chBuf (persist h')) \<subseteq> set (chBuf (persist h)) \<union> sent ev h"
proof -
  obtain ys where "chBuf (persist h') = chBuf (persist h) @ ys" "subseq ys (accepted ev h)"
    using run_step_effect [OF assms, of 0] unfolding step_effect_def by blast
  moreover have "set ys \<subseteq> set (accepted ev h)"
    using calculation(2) by (induction rule: list_emb.induct) auto
  ultimately show ?thesis using accepted_sent [of ev h] by auto
qed

section \<open>Every step\<close>

text \<open>
  The messages on their way: in a connection's queue, in the write pump's hands, on the wire, in
  the hand-off queue. A message is \<open>spoken\<close> when a live connection has its sender's identity.
\<close>

definition transit :: "sys \<Rightarrow> cid \<Rightarrow> Message set" where
  "transit s d = \<Union> (carried ` set (wire s d)) \<union> \<Union> (carried ` set (inflight (writer s d))) \<union> queued d s"

definition travelling :: "sys \<Rightarrow> Message set" where
  "travelling s = (\<Union>d. transit s d) \<union> set (chBuf (persist s))"

definition spoken :: "sys \<Rightarrow> Message set" where
  "spoken s = {m. \<exists>c. live (reader s c) \<and> mSenderID m = clID (heap s c) \<and> mSenderName m = clName (heap s c)}"

definition answered :: "'e label \<Rightarrow> Message set" where
  "answered l = (case l of LoadHistory c (Inr ms) \<Rightarrow> set ms | _ \<Rightarrow> {})"

lemma travelling_mono:
  assumes "\<And>d. transit s' d \<subseteq> transit s d \<union> X" and "set (chBuf (persist s')) \<subseteq> set (chBuf (persist s)) \<union> X"
  shows "travelling s' \<subseteq> travelling s \<union> X"
  using assms unfolding travelling_def by blast

text \<open>A step that touches one connection only.\<close>

lemma travelling_local:
  assumes "\<And>d. d \<noteq> c \<Longrightarrow> wire s' d = wire s d \<and> writer s' d = writer s d \<and> heap s' d = heap s d"
    and "persist s' = persist s" and "transit s' c \<subseteq> transit s c \<union> X"
  shows "travelling s' \<subseteq> travelling s \<union> X"
proof (rule travelling_mono)
  show "transit s' d \<subseteq> transit s d \<union> X" for d
    using assms(1,3) by (cases "d = c") (auto simp: transit_def queued_def)
qed (simp add: assms(2))

lemma hub_takes_travelling:
  assumes "sys_inv cfg s" and "hub_takes ev after s = Some s'"
    and "\<not> hubDone s \<Longrightarrow> ev_ok ev s \<or> (\<exists>p. run_step ev s = Inl p)"
    and "\<And>t. heap (after t) = heap t \<and> wire (after t) = wire t \<and> persist (after t) = persist t"
    and "\<And>t d. writer t = writer s \<Longrightarrow> set (inflight (writer (after t) d)) \<subseteq> set (inflight (writer s d))"
    and "\<And>cmd now b. ev = EvInbound cmd now b \<Longrightarrow> live (reader s (cmdClient cmd))"
  shows "travelling s' \<subseteq> travelling s \<union> spoken s"
proof (cases "run_step ev s")
  case (Inl p)
  then have "s' = s\<lparr>crashed := Some p\<rparr>" using assms(2) by (simp add: hub_takes_def split: if_splits)
  then show ?thesis by (auto simp: travelling_def transit_def queued_def)
next
  case (Inr x)
  obtain st t where x: "x = (st, t)" by fastforce
  let ?t = "t\<lparr>posted := \<lambda>d. posted s d @ addressed ev s d\<rparr>"
  have ok: "ev_ok ev s" and s': "s' = after ?t"
    using assms(2,3) Inr x by (auto simp: hub_takes_def split: if_splits)
  note inv = sys_invD(1) [OF assms(1)]
  note fr = run_step_pumps [OF inv ok Inr [unfolded x]]
  have sp: "sent ev s \<subseteq> spoken s"
    using assms(6) by (auto simp: sent_def spoken_def message_of_def split: event.splits if_splits)
  show ?thesis
  proof (rule travelling_mono)
    fix d
    have "set (inflight (writer s' d)) \<subseteq> set (inflight (writer s d))"
      using assms(5) [of ?t d] fr(2) by (simp add: s')
    moreover have "wire s' d = wire s d" "queued d s' = queued d t"
      using assms(4) [of ?t] fr(3) by (simp_all add: s' queued_def)
    moreover have "queued d t \<subseteq> queued d s \<union> spoken s"
      using run_step_queued [OF inv ok Inr [unfolded x], of d] sp by blast
    ultimately show "transit s' d \<subseteq> transit s d \<union> spoken s" unfolding transit_def by auto
  next
    show "set (chBuf (persist s')) \<subseteq> set (chBuf (persist s)) \<union> spoken s"
      using run_step_handed [OF inv ok Inr [unfolded x]] sp assms(4) [of ?t] by (auto simp: s')
  qed
qed

lemma handleJoin_carried:
  assumes "handleJoin_enqueue c rm res s = Inr s'"
  shows "\<exists>cl. s' = s\<lparr>heap := (heap s)(c := cl)\<rparr> \<and>
    \<Union> (carried ` set (chBuf (clSend cl))) \<subseteq> queued c s \<union> (case res of Inr ms \<Rightarrow> set ms | Inl _ \<Rightarrow> {})"
proof (cases "send_closed s c")
  case True
  then have "s' = s" using assms
    by (auto simp: handleJoin_enqueue_def enqueue_closed split: sum.splits if_splits)
  then show ?thesis by (intro exI [of _ "heap s c"]) (simp add: queued_def)
next
  case False
  have "\<Union> (carried ` set (chBuf (clSend (push e (heap s c))))) \<subseteq> queued c s \<union> carried e" for e
    by (auto simp: push_def queued_def)
  note p = this [of "error_frame rm"] this [of "history_frame rm ms" for ms]
  show ?thesis
  proof (cases res)
    case (Inl e)
    then show ?thesis using assms False p(1)
      by (intro exI [of _ "push (error_frame rm) (heap s c)"]) (auto simp: handleJoin_enqueue_def enqueue_open)
  next
    case (Inr ms)
    then show ?thesis using assms False p(2) [of ms]
      by (intro exI [of _ "if ms = [] then heap s c else push (history_frame rm ms) (heap s c)"])
        (auto simp: handleJoin_enqueue_def enqueue_open queued_def split: if_splits)
  qed
qed

text \<open>
  No step brings a message from nowhere; only the arrival of a connection gives identities.
\<close>

lemma step_travelling:
  fixes l :: "'e label"
  assumes inv: "sys_inv cfg s" and "sys_step cfg l s = Some s'"
  shows "travelling s' \<subseteq> travelling s \<union> (spoken s \<union> answered l)"
proof -
  have st: "steps cfg l s = Some s'" using assms(2) by (auto simp: sys_step_def split: if_splits)
  have hub: "travelling s' \<subseteq> travelling s \<union> (spoken s \<union> answered l)" if "travelling s' \<subseteq> travelling s \<union> spoken s"
    using that by blast
  have same: ?thesis if "wire s' = wire s" "writer s' = writer s" "heap s' = heap s" "persist s' = persist s"
    using that by (auto simp: travelling_def transit_def queued_def)
  have ends: ?thesis if "s' = writer_exit c s" for c
    by (rule travelling_local [of c]) (auto simp: that writer_exit_def transit_def queued_def)
  show ?thesis
  proof (cases l)
    case (Connect c i n)
    show ?thesis
      by (rule travelling_local [of c])
        (use st Connect in \<open>auto simp: transit_def queued_def NewClient_def make_chan_def split: if_splits\<close>)
  next
    case (TakeRegister c)
    then have r: "reader s c = Registering" and h: "hub_takes (EvRegister c) (client_Run c) s = Some s'"
      using st by (simp_all split: if_splits)
    have "ev_ok (EvRegister c) s"
      using sys_invD(2) [OF inv, of c] r by (simp add: ctl_ok_def ev_ok_def)
    then show ?thesis
      by (intro hub hub_takes_travelling [OF inv h]) (auto simp: client_Run_def)
  next
    case (LoadHistory c ans)
    then obtain rm where r: "reader s c = Loading rm" using st by (auto split: reader.splits)
    let ?res = "History (Some (\<lambda>_ _. ans)) (historyLimit s) rm"
    show ?thesis
    proof (cases "handleJoin_enqueue c rm ?res s")
      case (Inl p)
      then show ?thesis using st LoadHistory r by (intro same) auto
    next
      case (Inr t)
      then have s': "s' = goto_reader c (Submitting (join_command c rm)) t" using st LoadHistory r by simp
      from handleJoin_carried [OF Inr] obtain cl where t: "t = s\<lparr>heap := (heap s)(c := cl)\<rparr>"
        "\<Union> (carried ` set (chBuf (clSend cl))) \<subseteq> queued c s \<union> (case ?res of Inr ms \<Rightarrow> set ms | Inl _ \<Rightarrow> {})"
        by blast
      have "(case ?res of Inr ms \<Rightarrow> set ms | Inl _ \<Rightarrow> {}) \<subseteq> answered l"
        using LoadHistory by (auto simp: answered_def History_def split: sum.splits)
      with t show ?thesis
        by (intro travelling_local [of c]) (auto simp: s' transit_def queued_def)
    qed
  next
    case (TakeCommand c now)
    then obtain cmd where r: "reader s c = Submitting cmd"
      and h: "hub_takes (EvInbound cmd now (ctxDone s)) (goto_reader c Reading) s = Some s'"
      using st by (auto split: reader.splits)
    have "cmdClient cmd = c" using sys_invD(2) [OF inv, of c] r by (simp add: ctl_ok_def)
    then show ?thesis
      by (intro hub hub_takes_travelling [OF inv h]) (use command_ok_or_panic [OF inv r] r in auto)
  next
    case (TakeUnregister c)
    then have "hub_takes (EvUnregister c) (goto_reader c Gone) s = Some s'" using st by (auto split: if_splits)
    then have "travelling s' \<subseteq> travelling s \<union> spoken s"
      by (rule hub_takes_travelling [OF inv]) (auto simp: ev_ok_def)
    then show ?thesis by (rule hub)
  next
    case TakeQuery
    then have "hub_takes EvQuery (\<lambda>s. s) s = Some s'" using st by simp
    then have "travelling s' \<subseteq> travelling s \<union> spoken s"
      by (rule hub_takes_travelling [OF inv]) (auto simp: ev_ok_def)
    then show ?thesis by (rule hub)
  next
    case Tick
    then have "hub_takes EvTick (\<lambda>s. s) s = Some s'" using st by simp
    then have "travelling s' \<subseteq> travelling s \<union> spoken s"
      by (rule hub_takes_travelling [OF inv]) (auto simp: ev_ok_def)
    then show ?thesis by (rule hub)
  next
    case HubReturns
    then have "hub_takes EvDone (\<lambda>s. s) s = Some s'" using st by (simp split: if_splits)
    then have "travelling s' \<subseteq> travelling s \<union> spoken s"
      by (rule hub_takes_travelling [OF inv]) (auto simp: ev_ok_def)
    then show ?thesis by (rule hub)
  next
    case (ReadFrame c env)
    then show ?thesis using st by (intro same) (auto split: if_splits)
  next
    case (ReadFails c)
    then show ?thesis using st by (intro same) (auto split: if_splits)
  next
    case (Released c)
    then consider "s' = client_Run c s" | "wire s' = wire s" "writer s' = writer s" "heap s' = heap s" "persist s' = persist s"
      using st by (auto split: if_splits reader.splits)
    then show ?thesis
    proof cases
      case 1
      show ?thesis by (rule travelling_local [of c]) (auto simp: 1 client_Run_def transit_def queued_def)
    qed (rule same)
  next
    case CancelCtx
    then show ?thesis using st by (intro same) auto
  next
    case (WriterTakes c)
    then consider "s' = writer_exit c s"
      | e ch where "chan_recv (clSend (heap s c)) = Received e ch" "s' = goto_writer c (Writing e) (set_send c ch s)"
      using st by (auto split: if_splits recv.splits)
    then show ?thesis
    proof cases
      case 2
      then show ?thesis
        by (intro travelling_local [of c])
          (auto simp: set_send_def transit_def queued_def chan_recv_def split: list.splits if_splits)
    qed (rule ends)
  next
    case (WriteDone c)
    then obtain e where "writer s c = Writing e" "s' = s\<lparr>wire := (wire s)(c := wire s c @ [e]), writer := (writer s)(c := Selecting)\<rparr>"
      using st by (auto split: writer.splits)
    then show ?thesis by (intro travelling_local [of c]) (auto simp: transit_def queued_def)
  next
    case PersisterTakes
    then show ?thesis using st
      by (intro travelling_mono) (auto simp: transit_def queued_def chan_recv_def split: recv.splits list.splits if_splits)
  qed (use st ends in \<open>auto split: if_splits writer.splits\<close>)
qed

end
