(* ===== verification/Process_Inv.thy ===== *)
theory Process_Inv
  imports Process Flow
begin

text \<open>
  What holds of the process at every moment of every execution: the invariant of the world, and that every
  message on its way to a client, on a wire, in the hand-off queue or in the message table
  has the identity of an account as its sender.
\<close>

section \<open>The invariant\<close>

definition from_account :: "auth_db \<Rightarrow> Message \<Rightarrow> bool" where
  "from_account a m \<longleftrightarrow> account_identity a (mSenderID m) (mSenderName m)"

definition genuine_rows :: "auth_db \<Rightarrow> msg_table \<Rightarrow> bool" where
  "genuine_rows a t \<longleftrightarrow> (\<forall>r \<in> set (tblRows t). account_identity a (rowSenderID r) (rowSenderName r))"

definition process_inv :: "Config \<Rightarrow> process \<Rightarrow> bool" where
  "process_inv cfg p \<longleftrightarrow> world_inv cfg (pcWorld p) \<and>
     (\<forall>m \<in> travelling (pcSys p). from_account (wAuth (pcWorld p)) m) \<and>
     genuine_rows (wAuth (pcWorld p)) (pcMessages p)"

lemma process_invD:
  assumes "process_inv cfg p"
  shows "world_inv cfg (pcWorld p)" "sys_inv cfg (pcSys p)"
    "\<And>m. m \<in> travelling (pcSys p) \<Longrightarrow> from_account (wAuth (pcWorld p)) m"
    "genuine_rows (wAuth (pcWorld p)) (pcMessages p)"
  using assms reachable_inv by (auto simp: process_inv_def world_inv_def)

lemma process_inv_cong:
  "pcWorld p' = pcWorld p \<Longrightarrow> pcMessages p' = pcMessages p \<Longrightarrow> process_inv cfg p' = process_inv cfg p"
  by (simp add: process_inv_def)

lemma spoken_from_account:
  assumes "world_inv cfg w" and "m \<in> spoken (wSys w)"
  shows "from_account (wAuth w) m"
  using assms by (auto simp: world_inv_def spoken_def from_account_def)

section \<open>The message table\<close>

lemma save_genuine:
  assumes "genuine_rows a t" and "from_account a m"
  shows "genuine_rows a (snd (SaveMessage_of ts c env m t))"
  using assms by (cases c) (auto simp: genuine_rows_def from_account_def SaveMessage_of_def SQLite_SaveMessage_def
      Postgres_SaveMessage_def sql_insert_message_def stamped_def Let_def)

lemma save_all_genuine:
  "genuine_rows a t \<Longrightarrow> (\<forall>(env, m) \<in> set ms. from_account a m) \<Longrightarrow>
     genuine_rows a (save_all (SaveMessage_of ts c) ms t)"
proof (induction ms arbitrary: t)
  case (Cons x ms)
  obtain env m where "x = (env, m)" by fastforce
  then show ?case using Cons save_genuine by auto
qed simp

lemma recent_rows:
  assumes "RecentByRoom_of c env rm lim t = Inr ms"
  obtains row rs where "ms = rev (map row rs)" "set rs \<subseteq> set (tblRows t)"
    "\<forall>r. mSenderID (row r) = rowSenderID r \<and> mSenderName (row r) = rowSenderName r"
proof (cases c)
  case (PostgresDB url)
  let ?rs = "take (nat lim) (sql_select_recent rm t)"
  have "ms = rev (map postgres_row ?rs)"
    using assms PostgresDB scan_rows_ok [of postgres_row "envFault env" 0 ?rs "[]"]
    by (auto simp: RecentByRoom_of_def Postgres_RecentByRoom_def split: if_splits sum.splits)
  then show ?thesis
    by (rule that) (auto simp: postgres_row_def sql_select_recent_def dest: in_set_takeD)
next
  case (SQLiteDB path)
  let ?rs = "sqlite_limit lim (sql_select_recent rm t)"
  have "ms = rev (map sqlite_row ?rs)"
    using assms SQLiteDB scan_rows_ok [of sqlite_row "envFault env" 0 ?rs "[]"]
    by (auto simp: RecentByRoom_of_def SQLite_RecentByRoom_def split: if_splits sum.splits)
  then show ?thesis
    by (rule that) (auto simp: sqlite_row_def sqlite_limit_def sql_select_recent_def dest: in_set_takeD)
qed

lemma recent_genuine:
  assumes "genuine_rows a t" and "RecentByRoom_of c env rm lim t = Inr ms" and "m \<in> set ms"
  shows "from_account a m"
proof -
  obtain row rs where ms: "ms = rev (map row rs)" "set rs \<subseteq> set (tblRows t)"
    "\<forall>r. mSenderID (row r) = rowSenderID r \<and> mSenderName (row r) = rowSenderName r"
    by (rule recent_rows [OF assms(2)])
  obtain r where r: "r \<in> set rs" "m = row r" using assms(3) ms(1) by auto
  have "account_identity a (rowSenderID r) (rowSenderName r)" using assms(1) ms(2) r(1) by (auto simp: genuine_rows_def)
  then show ?thesis using ms(3) r(2) by (simp add: from_account_def)
qed

section \<open>Steps\<close>

text \<open>A step of the goroutines, whatever it was answered.\<close>

lemma process_inv_sys:
  assumes "process_inv cfg p" and "sys_step cfg (l :: unit label) (pcSys p) = Some s"
    and "\<And>c i n. l \<noteq> Connect c i n" and "\<And>m. m \<in> answered l \<Longrightarrow> from_account (wAuth (pcWorld p)) m"
  shows "process_inv cfg (put_sys s p)"
proof -
  note i = process_invD [OF assms(1)]
  have "world_inv cfg (pcWorld (put_sys s p))"
    using world_inv_moved [OF i(1) assms(2,3)] by (simp add: put_sys_def)
  moreover have "from_account (wAuth (pcWorld p)) m" if "m \<in> travelling s" for m
    using step_travelling [OF i(2) assms(2)] that i(3) assms(4) spoken_from_account [OF i(1)] by blast
  ultimately show ?thesis using i(4) by (simp add: process_inv_def)
qed

lemma process_inv_cancel:
  assumes "process_inv cfg p" and "crashed (pcSys p) = None"
  shows "process_inv cfg (cancel p)"
  unfolding cancel_def
  by (rule process_inv_sys [OF assms(1), of CancelCtx]) (simp_all add: assms(2) sys_step_def answered_def)

lemma process_inv_task:
  assumes "process_inv cfg p" and "crashed (pcSys p) = None"
  shows "process_inv cfg (task_ends r p)"
proof (cases r)
  case (Some e)
  have "process_inv cfg (p\<lparr>pcErr := Some e\<rparr>)" using assms(1) process_inv_cong [of "p\<lparr>pcErr := Some e\<rparr>" p] by simp
  then show ?thesis using process_inv_cancel assms Some by (simp add: task_ends_def)
qed (simp add: assms(1))

lemma process_inv_http: "process_inv cfg (put_http n hp p) = process_inv cfg p"
  by (rule process_inv_cong) simp_all

text \<open>The persister takes messages out of the queue, one or all.\<close>

lemma process_inv_take:
  assumes "process_inv cfg p" and "crashed (pcSys p) = None" and "chan_recv (persist (pcSys p)) = Received m ch"
  shows "process_inv cfg (put_sys ((pcSys p)\<lparr>persist := ch\<rparr>) p)"
    and "from_account (wAuth (pcWorld p)) m"
proof -
  show "process_inv cfg (put_sys ((pcSys p)\<lparr>persist := ch\<rparr>) p)"
    by (rule process_inv_sys [OF assms(1), of PersisterTakes]) (simp_all add: assms(2,3) sys_step_def answered_def)
  have "m \<in> travelling (pcSys p)"
    using assms(3) by (auto simp: travelling_def chan_recv_def split: list.splits if_splits)
  then show "from_account (wAuth (pcWorld p)) m" by (rule process_invD(3) [OF assms(1)])
qed

lemma process_inv_drained:
  "process_inv cfg p \<Longrightarrow> crashed (pcSys p) = None \<Longrightarrow>
     process_inv cfg (put_sys ((pcSys p)\<lparr>persist := (persist (pcSys p))\<lparr>chBuf := []\<rparr>\<rparr>) p)"
proof (induction "chBuf (persist (pcSys p))" arbitrary: p)
  case Nil
  have e: "(persist (pcSys p))\<lparr>chBuf := []\<rparr> = persist (pcSys p)"
    using Nil.hyps [symmetric] by (cases "persist (pcSys p)") simp
  show ?case unfolding e put_sys_def using Nil.prems by simp
next
  case (Cons m ms)
  let ?ch = "(persist (pcSys p))\<lparr>chBuf := ms\<rparr>"
  let ?p = "put_sys ((pcSys p)\<lparr>persist := ?ch\<rparr>) p"
  have "chan_recv (persist (pcSys p)) = Received m ?ch" using Cons.hyps(2) [symmetric] by (simp add: chan_recv_def)
  from process_inv_take(1) [OF Cons.prems this] have "process_inv cfg ?p" .
  from Cons.hyps(1) [OF _ this] Cons.prems(2) show ?case by (simp add: put_sys_def)
qed

lemma process_inv_persisted:
  assumes "process_inv cfg (put_sys s p)" and "genuine_rows (wAuth (pcWorld p)) t"
  shows "process_inv cfg ((put_sys s p)\<lparr>pcMessages := t, pcPersisted := b\<rparr>)"
  using assms by (simp add: process_inv_def put_sys_def)

lemma process_inv_PersistOne:
  assumes "process_inv cfg p" and "crashed (pcSys p) = None" and "process_steps K lib ts cfg (PersistOne env) p = Some p'"
  shows "process_inv cfg p'"
proof -
  note i = process_invD [OF assms(1)]
  have n: "\<not> chClosed (persist (pcSys p))" using hub_invD(6) [OF sys_invD(1) [OF i(2)]] .
  obtain m ch where m: "chan_recv (persist (pcSys p)) = Received m ch"
    "p' = put_persister (False, \<lparr>pIn = ch, pStore = snd (SaveMessage_of ts (db_of cfg) env m (pcMessages p))\<rparr>) p"
    using assms(3) persister_turn_take [OF n, of ts cfg env] by (auto split: if_splits)
  show ?thesis
    using process_inv_persisted [OF process_inv_take(1) [OF assms(1,2) m(1)]]
      save_genuine [OF i(4) process_inv_take(2) [OF assms(1,2) m(1)]] by (simp add: m(2) put_persister_def)
qed

lemma process_inv_PersistDrain:
  assumes "process_inv cfg p" and "crashed (pcSys p) = None" and "process_steps K lib ts cfg (PersistDrain env) p = Some p'"
  shows "process_inv cfg p'"
proof -
  note i = process_invD [OF assms(1)]
  let ?q = "chBuf (persist (pcSys p))"
  have n: "\<not> chClosed (persist (pcSys p))" using hub_invD(6) [OF sys_invD(1) [OF i(2)]] .
  have p': "p' = put_persister (True, \<lparr>pIn = (persist (pcSys p))\<lparr>chBuf := []\<rparr>,
      pStore = save_all (SaveMessage_of ts (db_of cfg)) (tagged env 0 ?q) (pcMessages p)\<rparr>) p"
    using assms(3) persister_turn_drain [OF n] by (auto split: if_splits)
  have "from_account (wAuth (pcWorld p)) m" if "m \<in> set ?q" for m
    using i(3) that by (simp add: travelling_def)
  then have "\<forall>(e, m) \<in> set (tagged env 0 ?q). from_account (wAuth (pcWorld p)) m"
    by (auto simp: tagged_def dest: set_zip_rightD)
  from process_inv_persisted [OF process_inv_drained [OF assms(1,2)] save_all_genuine [OF i(4) this]]
  show ?thesis by (simp add: p' put_persister_def)
qed

lemma process_inv_LoadFromStore:
  assumes "process_inv cfg p" and "crashed (pcSys p) = None" and "process_steps K lib ts cfg (LoadFromStore c env) p = Some p'"
  shows "process_inv cfg p'"
proof -
  obtain rm s where r: "reader (pcSys p) c = Loading rm"
    "steps cfg (LoadHistory c (answer (RecentByRoom_of (db_of cfg) env rm (historyLimit (pcSys p)) (pcMessages p)))) (pcSys p) = Some s"
    "p' = put_sys s p"
    using assms(3) by (auto simp del: steps.simps split: reader.splits)
  have s: "sys_step cfg (LoadHistory c (answer (RecentByRoom_of (db_of cfg) env rm (historyLimit (pcSys p)) (pcMessages p)))) (pcSys p) = Some s"
    using r(2) assms(2) by (simp add: sys_step_def)
  show ?thesis unfolding r(3)
    by (rule process_inv_sys [OF assms(1) s])
      (auto simp: answered_def answer_Inr split: sum.splits intro: recent_genuine [OF process_invD(4) [OF assms(1)]])
qed

lemma process_inv_Request:
  assumes "process_inv cfg p" and "crashed (pcSys p) = None" and "rand_ok (wcCall wc)"
  shows "process_inv cfg (p\<lparr>pcWorld := snd (ServeHTTP K lib (chat_server ts cfg) wc rq (pcWorld p))\<rparr>)"
proof -
  note i = process_invD [OF assms(1)]
  obtain r w where w: "ServeHTTP K lib (chat_server ts cfg) wc rq (pcWorld p) = (r, w)" by fastforce
  have "auth_ok (wAuth (pcWorld p))" using i(1) by (simp add: world_inv_def)
  note e = request_effect [OF this assms(3,2) w]
  have tr: "travelling (wSys w) \<subseteq> travelling (pcSys p) \<union> spoken (pcSys p)"
    using e step_travelling [OF i(2), of "TakeQuery :: unit label"]
      step_travelling [OF i(2), of "Connect c i n :: unit label" for c i n] by (fastforce simp: answered_def)
  have k: "accounts_kept (wAuth (pcWorld p)) (wAuth w)" using e by blast
  have "from_account (wAuth w) m" if "m \<in> travelling (wSys w)" for m
    using tr that i(3) spoken_from_account [OF i(1)] account_identity_kept [OF k] unfolding from_account_def by blast
  moreover have "genuine_rows (wAuth w) (pcMessages p)"
    using i(4) account_identity_kept [OF k] by (simp add: genuine_rows_def)
  moreover have "world_inv cfg w" using world_inv_request [OF i(1) assms(2,3) w] .
  ultimately show ?thesis by (simp add: process_inv_def w)
qed

lemma process_step_inv:
  assumes "process_inv cfg p" and "plabel_ok l" and "process_step K lib ts cfg l p = Some p'"
  shows "process_inv cfg p'"
proof -
  have c: "crashed (pcSys p) = None" and st: "process_steps K lib ts cfg l p = Some p'"
    using assms(3) by (auto simp: process_step_def split: if_splits)
  show ?thesis
  proof (cases l)
    case (Request wc rq)
    then show ?thesis using st process_inv_Request [OF assms(1) c] assms(2) by (auto simp: plabel_ok_def)
  next
    case (Goroutine g)
    then obtain s where s: "own_step g" "steps cfg g (pcSys p) = Some s" "p' = put_sys s p"
      using st by (auto simp del: steps.simps split: if_splits)
    have "sys_step cfg g (pcSys p) = Some s" using s(2) c by (simp add: sys_step_def)
    then show ?thesis unfolding s(3)
      by (rule process_inv_sys [OF assms(1)]) (use s(1) in \<open>auto simp: own_step_def answered_def split: label.splits\<close>)
  next
    case (ServeReturns n e)
    then show ?thesis using st process_inv_task [of cfg "put_http n hp p" for hp] assms(1) c
      by (auto simp: process_inv_http Let_def split: if_splits)
  next
    case (StopReturns n busy e)
    then show ?thesis using st process_inv_task [of cfg "put_http n hp p" for hp] assms(1) c
      by (auto simp: process_inv_http Let_def split: if_splits)
  next
    case (StopBegins n)
    then show ?thesis using st assms(1) by (auto simp: process_inv_http Let_def split: if_splits)
  next
    case RunReturns
    then have "p' = p\<lparr>pcResult := Some (pcErr p)\<rparr>" using st by (auto split: if_splits)
    then show ?thesis using assms(1) process_inv_cong [of p' p] by simp
  next
    case Signal
    then show ?thesis using st process_inv_cancel [OF assms(1) c] by simp
  qed (use st process_inv_LoadFromStore [OF assms(1) c] process_inv_PersistOne [OF assms(1) c]
      process_inv_PersistDrain [OF assms(1) c] in \<open>simp_all del: process_steps.simps\<close>)
qed

section \<open>Executions\<close>

text \<open>
  An execution starts with an empty queue to the persister, no frame for any client, and the databases earlier executions
  left; that these are genuine is what every execution leaves to the next.
\<close>

inductive running :: "crypto \<Rightarrow> web_lib \<Rightarrow> (gotime \<Rightarrow> gotime) \<Rightarrow> Config \<Rightarrow> process \<Rightarrow> bool" for K lib ts cfg where
  launched: "fresh h \<Longrightarrow> chBuf (persist h) = [] \<Longrightarrow> (\<And>c. sendq h c = []) \<Longrightarrow> auth_ok a \<Longrightarrow> genuine_rows a t \<Longrightarrow>
    running K lib ts cfg (launch cfg h a t)"
| progressed: "running K lib ts cfg p \<Longrightarrow> plabel_ok l \<Longrightarrow> process_step K lib ts cfg l p = Some p' \<Longrightarrow>
    running K lib ts cfg p'"

lemma launch_inv:
  assumes "fresh h" and "chBuf (persist h) = []" and "\<And>c. sendq h c = []" and "auth_ok a" and "genuine_rows a t"
  shows "process_inv cfg (launch cfg h a t)"
proof -
  have "world_inv cfg \<lparr>wAuth = a, wSys = boot h\<rparr>"
    using serving_inv [OF serving.started [OF assms(1,4)]] .
  moreover have "travelling (boot h) = {}"
    using assms(2,3) by (simp add: travelling_def transit_def queued_def boot_def hub.extend_def)
  ultimately show ?thesis using assms(5) by (simp add: process_inv_def launch_def)
qed

lemma running_inv: "running K lib ts cfg p \<Longrightarrow> process_inv cfg p"
  by (induction rule: running.induct) (use launch_inv process_step_inv in blast)+

lemma running_run:
  "running K lib ts cfg p \<Longrightarrow> (\<forall>l \<in> set ls. plabel_ok l) \<Longrightarrow> process_run K lib ts cfg ls p = Some p' \<Longrightarrow>
     running K lib ts cfg p'"
  by (induction ls arbitrary: p) (auto split: option.splits intro: progressed)

end
