(* ===== verification/Web_Props.thy ===== *)
theory Web_Props
  imports Web_Laws Auth_Props Pumps_Props
begin

text \<open>
  What the HTTP edge promises over the configured database, whichever it is: sessions over cookies, who gets past the
  authentication and under which identity, and how long the browser keeps the cookie.
\<close>

section \<open>Sessions over cookies\<close>

definition get_with :: "string \<Rightarrow> string \<Rightarrow> request" where
  "get_with path token = \<lparr>rqMethod = ''GET'', rqPath = path, rqCookies = [(sessionCookie, token)],
     rqBody = []\<rparr>"

definition post_logout :: "string \<Rightarrow> request" where
  "post_logout token = (get_with ''/api/logout'' token)\<lparr>rqMethod := ''POST''\<rparr>"

lemma ServeHTTP_me: "ServeHTTP K lib sv wc (get_with ''/api/me'' token) w =
    (writeJSON 200 (meResponse (authMiddleware K sv wc (get_with ''/api/me'' token) w)), w)"
  by (simp add: ServeHTTP_def routes_def get_with_def handleMe_def)

lemma ServeHTTP_logout: "ServeHTTP K lib sv wc (post_logout token) w =
    (clearSessionCookie sv (respond 204 [] []),
     if token = '''' then w else w\<lparr>wAuth := snd (Logout K (svAuth sv) (wcLogout wc) token (wAuth w))\<rparr>)"
  by (simp add: ServeHTTP_def routes_def post_logout_def get_with_def handleLogout_def session_token_def)

lemma clear_cookie:
  "rsStatus (clearSessionCookie sv (respond 204 [] [])) = 204"
  "\<exists>ck. rsCookies (clearSessionCookie sv (respond 204 [] [])) = [ck] \<and> ckName ck = sessionCookie \<and> max_age_attr ck = Some 0"
  unfolding clearSessionCookie_def SetCookie_def respond_def by (simp, simp) (simp add: max_age_attr_def)

lemma authMiddleware_get: "authMiddleware K sv wc (get_with path token) w =
    (case Authenticate K (svAuth sv) (wcLookup wc) token (wAuth w) of Inl _ \<Rightarrow> None | Inr u \<Rightarrow> Some u)"
  by (simp add: authMiddleware_def get_with_def session_token_def Authenticate_def)

lemma sign_in_opens:
  assumes "auth_ok (wAuth w)" and "rand_ok (wcCall wc)"
    and "ServeHTTP K lib (chat_server ts cfg) wc rq w = (r, w')" and "signs_in rq"
    and "rsCookies r = [session_cookie (chat_server ts cfg) token]"
  shows "\<exists>u n. rsContent r = Marshal (userResponse u) @ newline \<and> wSys w' = wSys w \<and>
    db_auth.opened K token u (auth_expiry ts (db_of cfg) (callNow (wcCall wc) + cfgSessionTTL cfg)) n (wAuth w')"
proof -
  have "rsCookies r \<noteq> []" using assms(5) by simp
  then obtain c :: credentials and u token' a where s: "r = setSessionCookie (chat_server ts cfg) token'
        (writeJSON (if rqPath rq = ''/api/register'' then 201 else 200) (userResponse u))"
    "w' = w\<lparr>wAuth := a\<rparr>"
    "if rqPath rq = ''/api/register''
     then Register K (svAuth (chat_server ts cfg)) (wcCall wc) (crUsername c) (crPassword c) (crDisplayName c) (wAuth w) = (Inr (u, token'), a)
     else Login K (svAuth (chat_server ts cfg)) (wcCall wc) (crUsername c) (crPassword c) (wAuth w) = (Inr (u, token'), a)"
    by (rule sign_in_cases [OF assms(3,4)])
  have "[session_cookie (chat_server ts cfg) token'] = [session_cookie (chat_server ts cfg) token]"
    using assms(5) unfolding s(1) by simp
  then have t: "token' = token" by (simp add: session_cookie_def)
  have "signed_in K (NewService (auth_store_of ts (db_of cfg)) (cfgSessionTTL cfg)) (wcCall wc) u token (wAuth w) a"
  proof (cases "rqPath rq = ''/api/register''")
    case True
    then show ?thesis using s(3) unfolding t signed_in_def chat_server_simps if_P [OF True] by blast
  next
    case False
    then show ?thesis using s(3) unfolding t signed_in_def chat_server_simps if_not_P [OF False] by blast
  qed
  from db_signed_in [OF assms(1,2) this]
  have "\<exists>n. db_auth.opened K token u (auth_expiry ts (db_of cfg) (callNow (wcCall wc) + cfgSessionTTL cfg)) n (wAuth w')"
    unfolding s(2) by simp
  moreover have "rsContent r = Marshal (userResponse u) @ newline" "wSys w' = wSys w"
    unfolding s(1,2) by simp_all
  ultimately show ?thesis by blast
qed

text \<open>An example: Bob registers with a server that has the default configuration.\<close>

definition wc_at :: "gotime \<Rightarrow> auth_env web_call" where
  "wc_at t = \<lparr>wcLookup = env_at t, wcCall = call_at t CHR ''x'', wcLogout = env_at t, wcTaken = True,
     wcGaveUp = False, wcConn = 1\<rparr>"

definition register_bob :: request where
  "register_bob = \<lparr>rqMethod = ''POST'', rqPath = ''/api/register'', rqCookies = [],
     rqBody = ''{\"Username\":\"bob\",\"password\":\"password2\",\"display_name\":\"Bob\"}''\<rparr>"

definition lib0 :: web_lib where
  "lib0 = \<lparr>Accept = \<lambda>_ _. None, Files = \<lambda>_. respond 200 [] []\<rparr>"

definition start :: "auth_db world" where
  "start = \<lparr>wAuth = one_user, wSys = boot idle_hub\<rparr>"

abbreviation bob_token :: string where
  "bob_token \<equiv> RawURLEncoding (replicate 32 CHR ''x'')"

lemma char_U: "char_of (85 :: nat) = CHR ''U''"
  by code_simp

lemma bob_decoded: "decodeJSON credentials_fields no_credentials register_bob =
    Inr \<lparr>crUsername = ''bob'', crPassword = ''password2'', crDisplayName = ''Bob''\<rparr>"
proof -
  let ?j = "JObj [(''Username'', JStr ''bob''), (''password'', JStr ''password2''), (''display_name'', JStr ''Bob'')]"
  have "Marshal ?j = rqBody register_bob" by (simp add: register_bob_def marshal_string_plain html_unsafe_def)
  moreover have "take maxBodyBytes (rqBody register_bob) = rqBody register_bob @ []"
    by (simp add: register_bob_def maxBodyBytes_def)
  moreover have "Decode (Marshal ?j @ []) = Some (scrub_json ?j)"
    by (rule Decode_Marshal) (simp_all add: maxNestingDepth_def delimited_def)
  moreover have "scrub_json ?j = ?j" by (simp add: to_valid_ascii)
  ultimately have "Decode (take maxBodyBytes (rqBody register_bob)) = Some ?j" by simp
  then show ?thesis
    by (simp add: decodeJSON_def decode_struct_def credentials_fields_def lookup_field_def decode_string_def
        no_credentials_def char_U)
qed

lemma bob_unexpired:
  "auth_clock (db_of Default) (wcLookup (wc_at 2000)) <
     auth_expiry id (db_of Default) (callNow (wcCall (wc_at 1000)) + cfgSessionTTL Default)"
proof -
  have "cfgSessionTTL Default = 604800000000000" by (simp add: Default_def Hour_def Second_def)
  then show ?thesis
    by (simp add: auth_clock_def auth_expiry_def default_db wc_at_def env_at_def call_at_def UnixNano_def)
qed

lemma bob_over_http:
  obtains r w' where "ServeHTTP toy lib0 (chat_server id Default) (wc_at 1000) register_bob start = (r, w')"
    "signs_in register_bob" "rsCookies r = [session_cookie (chat_server id Default) bob_token]"
proof -
  obtain a where "Register toy (svc (cfgSessionTTL Default)) (call_at 1000 CHR ''x'') ''bob'' ''password2'' ''Bob'' one_user =
      (Inr (\<lparr>uID = 2, uUsername = ''bob'', uDisplayName = ''Bob''\<rparr>, bob_token), a)"
    using bob_registers by blast
  then have "ServeHTTP toy lib0 (chat_server id Default) (wc_at 1000) register_bob start =
      (setSessionCookie (chat_server id Default) bob_token
         (writeJSON 201 (userResponse \<lparr>uID = 2, uUsername = ''bob'', uDisplayName = ''Bob''\<rparr>)),
       start\<lparr>wAuth := a\<rparr>)"
    using bob_decoded
    by (simp add: ServeHTTP_def routes_def register_bob_def handleRegister_def wc_at_def start_def default_stores)
  then show thesis by (rule that) (simp_all add: signs_in_def register_bob_def)
qed

text \<open>
  C15. The session cookie round trip: when a registration or a login is answered with a
  session cookie, sending that cookie to \<^verbatim>\<open>/api/me\<close> names exactly the account of the answer, until
  the session expires, and nobody after that.
\<close>

theorem session_cookie_round_trip:
  assumes "auth_ok (wAuth w)" and "rand_ok (wcCall wc)"
    and "ServeHTTP K lib (chat_server ts cfg) wc rq w = (r, w')" and "signs_in rq"
    and "rsCookies r = [session_cookie (chat_server ts cfg) token]" and "aFault (wcLookup wc1) = NoFault"
  shows "\<exists>u. rsContent r = Marshal (userResponse u) @ newline \<and>
    ServeHTTP K lib (chat_server ts cfg) wc1 (get_with ''/api/me'' token) w' =
      (writeJSON 200 (meResponse
         (if auth_clock (db_of cfg) (wcLookup wc1) < auth_expiry ts (db_of cfg) (callNow (wcCall wc) + cfgSessionTTL cfg)
          then Some u else None)), w')"
proof -
  obtain u n where o: "rsContent r = Marshal (userResponse u) @ newline"
    "db_auth.opened K token u (auth_expiry ts (db_of cfg) (callNow (wcCall wc) + cfgSessionTTL cfg)) n (wAuth w')"
    using sign_in_opens [OF assms(1-5)] by blast
  from db_auth.opened_Authenticate [unfolded db_ops, OF o(2) assms(6)] o(1) show ?thesis
    by (intro exI [of _ u]) (simp add: ServeHTTP_me authMiddleware_get)
qed

theorem session_cookie_round_trip_witness:
  "\<exists>r w' u. ServeHTTP toy lib0 (chat_server id Default) (wc_at 1000) register_bob start = (r, w') \<and>
     rsContent r = Marshal (userResponse u) @ newline \<and>
     fst (ServeHTTP toy lib0 (chat_server id Default) (wc_at 2000) (get_with ''/api/me'' bob_token) w') =
       writeJSON 200 (meResponse (Some u))"
proof -
  obtain r w' where b: "ServeHTTP toy lib0 (chat_server id Default) (wc_at 1000) register_bob start = (r, w')"
    "signs_in register_bob" "rsCookies r = [session_cookie (chat_server id Default) bob_token]"
    by (rule bob_over_http)
  have a: "auth_ok (wAuth start)" "rand_ok (wcCall (wc_at 1000))" "aFault (wcLookup (wc_at 2000)) = NoFault"
    using users_ok(2) call_rand by (simp_all add: start_def wc_at_def env_at_def)
  note t = bob_unexpired
  from session_cookie_round_trip [OF a(1,2) b a(3)] b(1) show ?thesis
    unfolding if_P [OF t] by (metis fst_conv)
qed

text \<open>
  C16. Logging out over HTTP. After signing in, a logout with the cookie is always answered 204, with the browser told to
  drop the cookie at once, and changes no account. If its database call is healthy, \<^verbatim>\<open>/api/me\<close> with a healthy lookup names
  nobody from then on, even if a client keeps sending the cookie. If the database call fails, the answer is the
  same, but nothing was done: the cookie still names the account until the session expires.
\<close>

theorem logout_revokes_the_cookie:
  assumes "auth_ok (wAuth w)" and "rand_ok (wcCall wc)"
    and "ServeHTTP K lib (chat_server ts cfg) wc rq w = (r, w')" and "signs_in rq"
    and "rsCookies r = [session_cookie (chat_server ts cfg) token]" and "aFault (wcLookup wc2) = NoFault"
  shows "\<exists>u out w''. rsContent r = Marshal (userResponse u) @ newline \<and>
    ServeHTTP K lib (chat_server ts cfg) wc1 (post_logout token) w' = (out, w'') \<and>
    rsStatus out = 204 \<and> (\<exists>ck. rsCookies out = [ck] \<and> ckName ck = sessionCookie \<and> max_age_attr ck = Some 0) \<and>
    db_account (wAuth w'') = db_account (wAuth w') \<and> wSys w'' = wSys w' \<and>
    (aFault (wcLogout wc1) \<noteq> NoFault \<longrightarrow> w'' = w') \<and>
    ServeHTTP K lib (chat_server ts cfg) wc2 (get_with ''/api/me'' token) w'' =
      (writeJSON 200 (meResponse
         (if aFault (wcLogout wc1) \<noteq> NoFault \<and>
             auth_clock (db_of cfg) (wcLookup wc2) < auth_expiry ts (db_of cfg) (callNow (wcCall wc) + cfgSessionTTL cfg)
          then Some u else None)), w'')"
proof -
  let ?sv = "chat_server ts cfg"
  obtain u n where u: "rsContent r = Marshal (userResponse u) @ newline"
    and o: "db_auth.opened K token u (auth_expiry ts (db_of cfg) (callNow (wcCall wc) + cfgSessionTTL cfg)) n (wAuth w')"
    using sign_in_opens [OF assms(1-5)] by blast
  then have ne: "token \<noteq> ''''" by (simp add: db_auth.opened_def)
  obtain out w'' where out: "ServeHTTP K lib ?sv wc1 (post_logout token) w' = (out, w'')" by fastforce
  then have w'': "w'' = w'\<lparr>wAuth := snd (Logout K (svAuth ?sv) (wcLogout wc1) token (wAuth w'))\<rparr>"
    and answer: "rsStatus out = 204" "\<exists>ck. rsCookies out = [ck] \<and> ckName ck = sessionCookie \<and> max_age_attr ck = Some 0"
    using ne clear_cookie by (auto simp: ServeHTTP_logout)
  show ?thesis
  proof (cases "aFault (wcLogout wc1) = NoFault")
    case True
    obtain a where a: "Logout K (svAuth ?sv) (wcLogout wc1) token (wAuth w') = (Inr (), a)"
      unfolding chat_server_simps using db_auth.Logout_healthy [unfolded db_ops, OF True] by blast
    note c = db_auth.Logout_closes [unfolded db_ops, OF o a [unfolded chat_server_simps]]
    have "Authenticate K (svAuth ?sv) (wcLookup wc2) token a = Inl ErrNoSession"
      using db_auth.Authenticate_none [unfolded db_ops, of a "wcLookup wc2" K token] c assms(6) by simp
    then show ?thesis using True u out answer c unfolding w'' a by (auto simp: ServeHTTP_me authMiddleware_get)
  next
    case False
    obtain e where "DeleteSession (auth_store_of ts (db_of cfg)) (wcLogout wc1) (hashToken K token) (wAuth w') = (Inl e, wAuth w')"
      using db_delete_fault [OF False] by blast
    then have same: "w'' = w'" unfolding w'' using ne by (simp add: Logout_def NewService_def)
    from db_auth.opened_Authenticate [unfolded db_ops, OF o assms(6)] show ?thesis
      using False u out answer unfolding same
      by (intro exI [of _ u] exI [of _ out] exI [of _ w']) (simp add: ServeHTTP_me authMiddleware_get)
  qed
qed

theorem logout_revokes_the_cookie_witness:
  "\<exists>w' w''. snd (ServeHTTP toy lib0 (chat_server id Default) (wc_at 1500) (post_logout bob_token) w') = w'' \<and>
     fst (ServeHTTP toy lib0 (chat_server id Default) (wc_at 2000) (get_with ''/api/me'' bob_token) w'') =
       writeJSON 200 (meResponse None)"
proof -
  obtain r w' where b: "ServeHTTP toy lib0 (chat_server id Default) (wc_at 1000) register_bob start = (r, w')"
    "signs_in register_bob" "rsCookies r = [session_cookie (chat_server id Default) bob_token]"
    by (rule bob_over_http)
  have a: "auth_ok (wAuth start)" "rand_ok (wcCall (wc_at 1000))" "aFault (wcLookup (wc_at 2000)) = NoFault"
    "aFault (wcLogout (wc_at 1500)) = NoFault"
    using users_ok(2) call_rand by (simp_all add: start_def wc_at_def env_at_def)
  obtain out w'' where "ServeHTTP toy lib0 (chat_server id Default) (wc_at 1500) (post_logout bob_token) w' = (out, w'')"
    "ServeHTTP toy lib0 (chat_server id Default) (wc_at 2000) (get_with ''/api/me'' bob_token) w'' = (writeJSON 200 (meResponse None), w'')"
    using logout_revokes_the_cookie [OF a(1,2) b a(3), where ?wc1.0 = "wc_at 1500"] a(4) by (elim exE conjE) simp
  then show ?thesis by (intro exI [of _ w'] exI [of _ w'']) simp
qed

section \<open>Registering\<close>

lemma db_create_error:
  "CreateUser (auth_store_of ts c) env n h d s = (Inl e, s') \<Longrightarrow> e = ErrUsernameTaken \<or> e = CreatingUser n"
  by (cases c) (auto simp: sqlite_chosen postgres_chosen sqlite_store_def postgres_store_def SQLite_CreateUser_def
      Postgres_CreateUser_def split: sum.splits insert_error.splits if_splits)

lemma db_Register_error:
  assumes "auth_ok s" and "Register K (NewService (auth_store_of ts c) ttl) env n0 pw d0 s = (Inl e, s')"
  defines "n \<equiv> TrimSpace n0"
  defines "invalid \<equiv> validateCredentials n pw (if TrimSpace d0 = '''' then n else TrimSpace d0)"
  obtains (input) reason where "invalid = Some (ErrInvalidInput reason)" "e = ErrInvalidInput reason" "s' = s"
  | (taken) "invalid = None" "e = ErrUsernameTaken" "db_account s n \<noteq> None"
    "db_account s' = db_account s" "db_session s' = db_session s"
  | (failed) "invalid = None" "\<not> Is_username_taken e" "\<not> Is_invalid_input e" "db_session s' = db_session s"
    "db_account s' = db_account s \<or> db_account s n = None \<and> (\<exists>x. db_account s' = (db_account s)(n \<mapsto> x))"
proof -
  have left: "db_session s' = db_session s"
    "db_account s' = db_account s \<or> db_account s n = None \<and> (\<exists>x. db_account s' = (db_account s)(n \<mapsto> x))"
    using db_auth.Register_fails [unfolded db_ops, OF assms(1,2), folded n_def] by blast+
  have failing: thesis if "invalid = None" "e \<in> {HashingPassword, CreatingUser n, GeneratingToken, CreatingSession StoringSession}"
    by (rule failed [OF that(1) _ _ left]) (use that(2) in \<open>auto simp: Is_username_taken_def Is_invalid_input_def\<close>)
  show thesis
    using assms(2)
  proof (cases rule: Register_cases)
    case (invalid e')
    then obtain reason where "e' = ErrInvalidInput reason" by (auto simp: validateCredentials_def split: if_splits)
    moreover have "invalid = Some e'" unfolding n_def invalid_def by (rule invalid(1))
    ultimately show ?thesis using invalid(2,3) input by blast
  next
    case hashing
    have "invalid = None" unfolding n_def invalid_def by (rule hashing(1))
    then show ?thesis using hashing(3) failing by simp
  next
    case (create h e')
    have v: "invalid = None" unfolding n_def invalid_def by (rule create(1))
    have c: "CreateUser (auth_store_of ts c) (firstEnv env) n h (if TrimSpace d0 = '''' then n else TrimSpace d0) s = (Inl e, s')"
      unfolding n_def using create(3,4) by (simp add: NewService_def)
    note k = db_auth.create_err [OF assms(1) c]
    show ?thesis
    proof (cases "e = ErrUsernameTaken")
      case True
      then show ?thesis using k v taken by blast
    next
      case False
      then have "e = CreatingUser n" using db_create_error [OF c] by blast
      then show ?thesis using v failing by simp
    qed
  next
    case (session h u s1 e')
    have "CreateUser (auth_store_of ts c) (firstEnv env) n h (if TrimSpace d0 = '''' then n else TrimSpace d0) s = (Inr u, s1)"
      unfolding n_def using session(3) by (simp add: NewService_def)
    then have "auth_ok s1" using db_auth.create_ok [OF assms(1)] by blast
    then have "e = GeneratingToken \<or> e = CreatingSession StoringSession"
      using db_auth.openSession_error(2) [unfolded db_ops] session(4,5) by blast
    moreover have "invalid = None" unfolding n_def invalid_def by (rule session(1))
    ultimately show ?thesis using failing by blast
  qed simp_all
qed

text \<open>
  C35. What registering over HTTP answers, in every case and on either database, and what it leaves behind. A body that
  is not read is 400, with nothing changed. Otherwise the answer is one of four: 201 with the new account and its session
  cookie, for a valid name that nobody had; 400 with the reason for invalid input, with nothing
  changed; 409 only for a name that exists, with accounts and sessions as they were; and 500, which
  opens no session and at most adds the account that was asked for. No account that was there is ever changed.
\<close>

theorem registration_answers:
  assumes "auth_ok (wAuth w)" and "rand_ok (wcCall wc)" and "rqMethod rq = ''POST''" and "rqPath rq = ''/api/register''"
    and "ServeHTTP K lib (chat_server ts cfg) wc rq w = (r, w')"
  shows "wSys w' = wSys w \<and> (case decodeJSON credentials_fields no_credentials rq of
      Inl _ \<Rightarrow> r = http_Error ''invalid request body'' 400 \<and> w' = w
    | Inr c \<Rightarrow>
        (let n = TrimSpace (crUsername c); d = TrimSpace (crDisplayName c);
             invalid = validateCredentials n (crPassword c) (if d = '''' then n else d);
             before = db_account (wAuth w); after = db_account (wAuth w') in
         (\<exists>u token h. r = setSessionCookie (chat_server ts cfg) token (writeJSON 201 (userResponse u)) \<and>
            invalid = None \<and> before n = None \<and> after = before(n \<mapsto> (u, h)) \<and>
            db_session (wAuth w') (hashToken K token) \<noteq> None) \<or>
         (\<exists>reason. r = http_Error (input_text reason) 400 \<and> invalid = Some (ErrInvalidInput reason) \<and> w' = w) \<or>
         (r = http_Error ''username already taken'' 409 \<and> invalid = None \<and> before n \<noteq> None \<and> after = before \<and>
            db_session (wAuth w') = db_session (wAuth w)) \<or>
         (r = http_Error ''could not register'' 500 \<and> invalid = None \<and> db_session (wAuth w') = db_session (wAuth w) \<and>
            (after = before \<or> before n = None \<and> (\<exists>x. after = before(n \<mapsto> x))))))"
proof -
  have h: "handleRegister K (chat_server ts cfg) wc rq w = (r, w')"
    using assms(3-5) by (simp add: ServeHTTP_def routes_def)
  show ?thesis
  proof (cases "decodeJSON credentials_fields no_credentials rq")
    case (Inl x)
    then show ?thesis using h decodeJSON_Inl [OF Inl] by (simp add: handleRegister_def)
  next
    case (Inr c)
    let ?n = "TrimSpace (crUsername c)"
    obtain res a where ra: "Register K (NewService (auth_store_of ts (db_of cfg)) (cfgSessionTTL cfg)) (wcCall wc)
        (crUsername c) (crPassword c) (crDisplayName c) (wAuth w) = (res, a)" by fastforce
    show ?thesis
    proof (cases res)
      case (Inl e)
      let ?answer = "if Is_username_taken e then http_Error ''username already taken'' 409
        else case cause e of ErrInvalidInput reason \<Rightarrow> http_Error (input_text reason) 400
          | _ \<Rightarrow> http_Error ''could not register'' 500"
      have k: "r = ?answer" "w' = w\<lparr>wAuth := a\<rparr>"
        using h \<open>decodeJSON credentials_fields no_credentials rq = Inr c\<close> ra Inl by (simp_all add: handleRegister_def)
      from assms(1) ra [unfolded Inl] show ?thesis
      proof (cases rule: db_Register_error)
        case (input reason)
        then have "r = http_Error (input_text reason) 400" "w' = w"
          using k by (simp_all add: Is_username_taken_def)
        then show ?thesis using input(1) \<open>decodeJSON credentials_fields no_credentials rq = Inr c\<close> by (simp add: Let_def)
      next
        case taken
        then have "r = http_Error ''username already taken'' 409" using k by (simp add: Is_username_taken_def)
        then show ?thesis
          using taken k(2) \<open>decodeJSON credentials_fields no_credentials rq = Inr c\<close> by (simp add: Let_def)
      next
        case failed
        then have "r = http_Error ''could not register'' 500"
          using k by (simp add: Is_invalid_input_def split: auth_error.splits)
        then show ?thesis
          using failed k(2) \<open>decodeJSON credentials_fields no_credentials rq = Inr c\<close> by (simp add: Let_def)
      qed
    next
      case (Inr x)
      obtain u token where x: "x = (u, token)" by fastforce
      note ok = ra [unfolded Inr x]
      from db_auth.Register_opens [unfolded db_ops, OF assms(1,2) ok] obtain g where
        o: "db_account (wAuth w) ?n = None" "db_account a = (db_account (wAuth w))(?n \<mapsto> (u, g))"
          "db_session a (hashToken K token) \<noteq> None"
        by (auto simp: db_auth.opened_def)
      have v: "validateCredentials ?n (crPassword c)
          (if TrimSpace (crDisplayName c) = '''' then ?n else TrimSpace (crDisplayName c)) = None"
        using ok by (cases rule: Register_cases) simp_all
      have k: "r = setSessionCookie (chat_server ts cfg) token (writeJSON 201 (userResponse u))" "wAuth w' = a" "wSys w' = wSys w"
        using h \<open>decodeJSON credentials_fields no_credentials rq = Inr c\<close> ok by (auto simp: handleRegister_def)
      show ?thesis
        unfolding \<open>decodeJSON credentials_fields no_credentials rq = Inr c\<close> sum.case Let_def k(2,3)
        using o v k(1) by blast
    qed
  qed
qed

theorem registration_answers_witness:
  "\<exists>r w' u token. ServeHTTP toy lib0 (chat_server id Default) (wc_at 1000) register_bob start = (r, w') \<and>
     r = setSessionCookie (chat_server id Default) token (writeJSON 201 (userResponse u)) \<and>
     db_account (wAuth start) ''bob'' = None \<and> db_account (wAuth w') ''bob'' \<noteq> None"
proof -
  obtain r w' where b: "ServeHTTP toy lib0 (chat_server id Default) (wc_at 1000) register_bob start = (r, w')"
    "signs_in register_bob" "rsCookies r = [session_cookie (chat_server id Default) bob_token]"
    by (rule bob_over_http)
  have a: "auth_ok (wAuth start)" "rand_ok (wcCall (wc_at 1000))" "rqMethod register_bob = ''POST''"
    "rqPath register_bob = ''/api/register''"
    using users_ok(2) call_rand by (simp_all add: start_def wc_at_def register_bob_def)
  have "rsCookies (http_Error msg k) = []" for msg k by simp
  then have "r \<noteq> http_Error msg k" for msg k using b(3) by (metis not_Cons_self2)
  then have "\<exists>u token. r = setSessionCookie (chat_server id Default) token (writeJSON 201 (userResponse u)) \<and>
      db_account (wAuth start) ''bob'' = None \<and> db_account (wAuth w') ''bob'' \<noteq> None"
    using registration_answers [OF a b(1)] by (auto simp: bob_decoded trims Let_def)
  then show ?thesis using b(1) by blast
qed

section \<open>Who gets in\<close>

text \<open>
  C8. The room list and the WebSocket endpoint need a live session: unless the answer is 401 with
  nothing changed, the cookie's hash is in the session table with an expiry still ahead, for an
  account that exists; and an upgraded connection becomes a client under that account's id
  and display name.
\<close>

theorem access_needs_a_live_session:
  assumes "auth_ok (wAuth w)" and "rqMethod rq = ''GET''" and "rqPath rq = ''/api/rooms'' \<or> rqPath rq = ''/ws''"
    and "ServeHTTP K lib (chat_server ts cfg) wc rq w = (r, w')" and "reader (wSys w) (wcConn wc) = Unborn"
    and "0 \<le> cfgSendBuffer cfg"
  shows "(rsStatus r = 401 \<and> rsUpgrade r = None \<and> w' = w) \<or>
    (\<exists>token u expiry n h. session_token rq = Some token \<and>
       db_session (wAuth w) (hashToken K token) = Some (uID u, expiry) \<and>
       auth_clock (db_of cfg) (wcLookup wc) < expiry \<and> db_account (wAuth w) n = Some (u, h) \<and>
       wAuth w' = wAuth w \<and>
       (Accept lib (cfgAllowedOrigins cfg) rq = None \<and> rqPath rq = ''/ws'' \<longrightarrow>
          rsUpgrade r = Some (wcConn wc, cfgMaxMessageSize cfg) \<and>
          clID (heap (wSys w') (wcConn wc)) = FormatInt (uID u) \<and>
          clName (heap (wSys w') (wcConn wc)) = uDisplayName u \<and>
          reader (wSys w') (wcConn wc) = Registering))"
proof (cases "authMiddleware K (chat_server ts cfg) wc rq w")
  case None
  then show ?thesis using assms(2-4)
    by (auto simp: ServeHTTP_def routes_def handleRooms_def handleWS_def http_Error_def respond_def)
next
  case (Some u)
  then obtain token where t: "session_token rq = Some token"
    "Authenticate K (NewService (auth_store_of ts (db_of cfg)) (cfgSessionTTL cfg)) (wcLookup wc) token (wAuth w) = Inr u"
    by (auto simp: authMiddleware_def split: option.splits sum.splits)
  from db_auth.Authenticate_session [unfolded db_ops, OF assms(1) t(2)] obtain e n h where s:
    "db_session (wAuth w) (hashToken K token) = Some (uID u, e)"
    "auth_clock (db_of cfg) (wcLookup wc) < e" "db_account (wAuth w) n = Some (u, h)"
    by blast
  have "wAuth w' = wAuth w" using Some assms(2-4)
    by (auto simp: ServeHTTP_def routes_def handleRooms_def handleWS_def split: option.splits prod.splits)
  moreover have "rsUpgrade r = Some (wcConn wc, cfgMaxMessageSize cfg) \<and>
      clID (heap (wSys w') (wcConn wc)) = FormatInt (uID u) \<and>
      clName (heap (wSys w') (wcConn wc)) = uDisplayName u \<and> reader (wSys w') (wcConn wc) = Registering"
    if "Accept lib (cfgAllowedOrigins cfg) rq = None" "rqPath rq = ''/ws''"
    using Some assms(2,4-6) that
    by (auto simp: ServeHTTP_def routes_def handleWS_def NewClient_def respond_def)
  ultimately show ?thesis using t(1) s
    by (intro disjI2 exI [of _ token] exI [of _ u] exI [of _ e] exI [of _ n] exI [of _ h]) simp
qed

theorem access_needs_a_live_session_witness:
  "\<exists>w' r w'' (u :: User) e. ServeHTTP toy lib0 (chat_server id Default) (wc_at 2000) (get_with ''/ws'' bob_token) w' = (r, w'') \<and>
     rsUpgrade r = Some (1, 4096) \<and> db_session (wAuth w') (hashToken toy bob_token) = Some (uID u, e) \<and>
     clName (heap (wSys w'') 1) = uDisplayName u \<and> reader (wSys w'') 1 = Registering"
proof -
  let ?rq = "get_with ''/ws'' bob_token" and ?sv = "chat_server id Default"
  obtain r0 w' where b: "ServeHTTP toy lib0 ?sv (wc_at 1000) register_bob start = (r0, w')"
    "signs_in register_bob" "rsCookies r0 = [session_cookie ?sv bob_token]"
    by (rule bob_over_http)
  have a: "auth_ok (wAuth start)" "rand_ok (wcCall (wc_at 1000))" "aFault (wcLookup (wc_at 2000)) = NoFault"
    using users_ok(2) call_rand by (simp_all add: start_def wc_at_def env_at_def)
  obtain u n where o: "wSys w' = wSys start"
    "db_auth.opened toy bob_token u (auth_expiry id (db_of Default) (callNow (wcCall (wc_at 1000)) + cfgSessionTTL Default)) n (wAuth w')"
    using sign_in_opens [OF a(1,2) b] by blast
  note t = bob_unexpired
  have m: "authMiddleware toy ?sv (wc_at 2000) ?rq w' = Some u"
    using db_auth.opened_Authenticate [unfolded db_ops, OF o(2) a(3)] t by (simp add: authMiddleware_get)
  obtain r w'' where s: "ServeHTTP toy lib0 ?sv (wc_at 2000) ?rq w' = (r, w'')" by fastforce
  have st: "rsStatus r \<noteq> 401" using s m
    by (auto simp: ServeHTTP_def routes_def get_with_def handleWS_def lib0_def respond_def)
  have ok: "auth_ok (wAuth w')" using o(2) by (simp add: db_auth.opened_def)
  have g: "rqMethod ?rq = ''GET''" and p: "rqPath ?rq = ''/api/rooms'' \<or> rqPath ?rq = ''/ws''"
    and unborn: "reader (wSys w') (wcConn (wc_at 2000)) = Unborn" and buf: "0 \<le> cfgSendBuffer Default"
    by (simp_all add: get_with_def o(1) start_def boot_def hub.extend_def wc_at_def Default_def)
  have c: "Accept lib0 (cfgAllowedOrigins Default) ?rq = None" "wcConn (wc_at 2000) = 1"
    "cfgMaxMessageSize Default = 4096" "rqPath ?rq = ''/ws''"
    by (simp_all add: get_with_def lib0_def wc_at_def Default_def)
  have tok: "session_token ?rq = Some bob_token"
    using newToken_token(3) [OF a(2), of bob_token]
    by (simp add: session_token_def get_with_def newToken_def wc_at_def call_at_def)
  have "\<exists>(v :: User) e. db_session (wAuth w') (hashToken toy bob_token) = Some (uID v, e) \<and>
      rsUpgrade r = Some (1, 4096) \<and> clName (heap (wSys w'') 1) = uDisplayName v \<and> reader (wSys w'') 1 = Registering"
    using access_needs_a_live_session [OF ok g p s unborn buf] st c unfolding tok by (simp only: simp_thms option.inject) blast
  then show ?thesis using s by blast
qed

text \<open>
  C33. The browser keeps the session cookie as long as the session lives, within a second, and
  exactly as long when the lifetime is a whole number of seconds: that is the \<^verbatim>\<open>Max-Age\<close> of the header. Only for a
  lifetime below one second the header can have no \<^verbatim>\<open>Max-Age\<close>, and the browser keeps the
  cookie until it is closed. The cookie is out of reach of scripts, and Secure when configured.
\<close>

theorem cookie_lives_as_long_as_the_session:
  assumes "Validate cfg = None"
    and "ServeHTTP K lib (chat_server ts cfg) wc rq w = (r, w')" and "signs_in rq" and "ck \<in> set (rsCookies r)"
  shows "(case max_age_attr ck of
      None \<Rightarrow> cfgSessionTTL cfg < Second
    | Some s \<Rightarrow> cfgSessionTTL cfg - Second < s * Second \<and> s * Second \<le> cfgSessionTTL cfg + Second \<and>
        (cfgSessionTTL cfg mod Second = 0 \<longrightarrow> s * Second = cfgSessionTTL cfg)) \<and>
    ckHttpOnly ck \<and> ckSameSiteLax ck \<and> ckSecure ck = cfgSecureCookies cfg"
proof -
  have "rsCookies r \<noteq> []" using assms(4) by auto
  then obtain token u where "rsCookies r = [session_cookie (chat_server ts cfg) token]"
    by (rule sign_in_cases [OF assms(2,3)]) simp
  then have "ck = session_cookie (chat_server ts cfg) token" using assms(4) by simp
  moreover have ttl: "0 < cfgSessionTTL cfg" using assms(1) by (simp add: Validate_None_iff)
  note s = int_Seconds_bounds [OF ttl]
  moreover have "0 \<le> int_Seconds (cfgSessionTTL cfg)" using ttl by (simp add: int_Seconds_def)
  ultimately show ?thesis unfolding Second_def by (auto simp: session_cookie_def NewService_def max_age_attr_def)
qed

theorem cookie_lives_as_long_as_the_session_witness:
  "\<exists>r w' ck. ServeHTTP toy lib0 (chat_server id Default) (wc_at 1000) register_bob start = (r, w') \<and>
     rsCookies r = [ck] \<and> max_age_attr ck = Some 604800"
proof -
  let ?ck = "session_cookie (chat_server id Default) bob_token"
  obtain r w' where b: "ServeHTTP toy lib0 (chat_server id Default) (wc_at 1000) register_bob start = (r, w')"
    "signs_in register_bob" "rsCookies r = [?ck]"
    by (rule bob_over_http)
  have "max_age_attr ?ck = Some 604800"
    using cookie_lives_as_long_as_the_session [OF Default_valid b(1,2), of ?ck] b(3)
    by (auto simp: Default_def Hour_def Second_def split: option.splits)
  then show ?thesis using b by blast
qed

end
