(* ===== verification/World_Props.thy ===== *)
theory World_Props
  imports World Web_Props
begin

text \<open>
  What holds in every execution of the whole server, from HTTP requests to the frames on the
  connections.
\<close>

section \<open>An example execution\<close>

text \<open>Bob registers, opens two connections, joins a room with both and says something.\<close>

definition bob :: User where
  "bob = \<lparr>uID = 2, uUsername = ''bob'', uDisplayName = ''Bob''\<rparr>"

definition wc_conn :: "cid \<Rightarrow> auth_env web_call" where
  "wc_conn c = (wc_at 2000)\<lparr>wcConn := c\<rparr>"

definition bob_talks :: "unit label list" where
  "bob_talks = [TakeRegister 1, TakeRegister 2] @ do_join 1 @ do_join 2 @ do_say 1 @
     [WriterTakes 2, WriteDone 2, WriterTakes 2, WriteDone 2]"

definition two_tabs :: sys where
  "two_tabs = (boot idle_hub)\<lparr>
     heap := demo_client(1 := \<lparr>clID = FormatInt 2, clName = ''Bob'', clSend = make_chan 16, clPingInterval = 30 * Second\<rparr>,
       2 := \<lparr>clID = FormatInt 2, clName = ''Bob'', clSend = make_chan 16, clPingInterval = 30 * Second\<rparr>),
     reader := (\<lambda>_. Unborn)(1 := Registering, 2 := Registering)\<rparr>"

lemma bob_talks_run: "\<exists>s. sys_run Default bob_talks two_tabs = Some s \<and> posts (wire s 2) \<noteq> []"
  by (simp add: bob_talks_def two_tabs_def run_eval go_simps posts_def chan_recv_def set_send_def)

lemma ServeHTTP_ws:
  assumes "authMiddleware K sv wc (get_with ''/ws'' token) w = Some u"
    and "Accept lib (cfgAllowedOrigins (svCfg sv)) (get_with ''/ws'' token) = None"
    and "steps (svCfg sv) (Connect (wcConn wc) (FormatInt (uID u)) (uDisplayName u) :: unit label) (wSys w) = Some s'"
  shows "\<exists>r. ServeHTTP K lib sv wc (get_with ''/ws'' token) w = (r, w\<lparr>wSys := s'\<rparr>)"
proof -
  have "routes (rqMethod (get_with ''/ws'' token)) (rqPath (get_with ''/ws'' token)) = Ws"
    by (simp add: get_with_def routes_def)
  then show ?thesis using assms by (simp add: ServeHTTP_def handleWS_def del: steps.simps)
qed

lemma serving_run:
  "serving K lib ts cfg w \<Longrightarrow> sys_run cfg (ls :: unit label list) (wSys w) = Some s' \<Longrightarrow> (\<And>c i n. Connect c i n \<notin> set ls) \<Longrightarrow>
     serving K lib ts cfg (w\<lparr>wSys := s'\<rparr>)"
proof (induction ls arbitrary: w)
  case (Cons l ls)
  then obtain t where t: "sys_step cfg l (wSys w) = Some t" "sys_run cfg ls t = Some s'"
    by (auto split: option.splits)
  have "serving K lib ts cfg (w\<lparr>wSys := t\<rparr>)"
    by (rule goroutine [OF Cons.prems(1) t(1)]) (use Cons.prems(3) in auto)
  from Cons.IH [OF this] t(2) Cons.prems(3) show ?case by simp
next
  case Nil
  then have s: "s' = wSys w" by simp
  show ?case unfolding s using Nil(1) by simp
qed

lemma example_rand: "rand_ok (wcCall (wc_conn c))" "rand_ok (wcCall (wc_at 1000))"
  using call_rand by (simp_all add: wc_conn_def wc_at_def)

text \<open>The three requests, each on the state the one before it left.\<close>

lemma two_tabs_requests:
  obtains r w1 r1 w2 r2 a where
    "ServeHTTP toy lib0 (chat_server id Default) (wc_at 1000) register_bob start = (r, w1)"
    "ServeHTTP toy lib0 (chat_server id Default) (wc_conn 1) (get_with ''/ws'' bob_token) w1 = (r1, w2)"
    "ServeHTTP toy lib0 (chat_server id Default) (wc_conn 2) (get_with ''/ws'' bob_token) w2 =
       (r2, \<lparr>wAuth = a, wSys = two_tabs\<rparr>)"
    "crashed (wSys start) = None" "crashed (wSys w1) = None" "crashed (wSys w2) = None"
proof -
  let ?sv = "chat_server id Default"
  obtain a where "Register toy (svc (cfgSessionTTL Default)) (call_at 1000 CHR ''x'') ''bob'' ''password2'' ''Bob'' one_user =
      (Inr (bob, bob_token), a)"
    using bob_registers unfolding bob_def by blast
  note reg = this
  have q0: "ServeHTTP toy lib0 ?sv (wc_at 1000) register_bob start =
      (setSessionCookie ?sv bob_token (writeJSON 201 (userResponse bob)), start\<lparr>wAuth := a\<rparr>)"
    using reg bob_decoded by (simp add: ServeHTTP_def routes_def register_bob_def handleRegister_def wc_at_def start_def default_stores)
  have o: "db_auth.opened toy bob_token bob
      (auth_expiry id (db_of Default) (callNow (wcCall (wc_at 1000)) + cfgSessionTTL Default)) (TrimSpace ''bob'') a"
    using db_auth.Register_opens [unfolded db_ops, OF users_ok(2) call_rand reg [folded default_stores(1) [of id]]]
    by (simp add: wc_at_def)
  have m: "authMiddleware toy ?sv (wc_conn c) (get_with ''/ws'' bob_token) w = Some bob" if "wAuth w = a" for c w
  proof -
    have "wcLookup (wc_conn c) = wcLookup (wc_at 2000)" "aFault (wcLookup (wc_at 2000)) = NoFault"
      by (simp_all add: wc_conn_def wc_at_def env_at_def)
    then show ?thesis
      using db_auth.opened_Authenticate [unfolded db_ops, OF o, of "wcLookup (wc_at 2000)"] that bob_unexpired
      by (simp add: authMiddleware_get)
  qed
  have acc: "Accept lib0 (cfgAllowedOrigins (svCfg ?sv)) rq = None" for rq by (simp add: lib0_def)
  define t1 where "t1 = (boot idle_hub)\<lparr>
     heap := demo_client(1 := \<lparr>clID = FormatInt 2, clName = ''Bob'', clSend = make_chan 16, clPingInterval = 30 * Second\<rparr>),
     reader := (\<lambda>_. Unborn)(1 := Registering)\<rparr>"
  have c1: "steps Default (Connect 1 (FormatInt 2) ''Bob'' :: unit label) (boot idle_hub) = Some t1"
    and c2: "steps Default (Connect 2 (FormatInt 2) ''Bob'' :: unit label) t1 = Some two_tabs"
    by (simp_all add: t1_def two_tabs_def boot_def hub.extend_def idle_hub_def New_def NewClient_def Default_def)
  have k: "wcConn (wc_conn c) = c" for c by (simp add: wc_conn_def)
  have w: "wSys (start\<lparr>wAuth := a\<rparr>) = boot idle_hub" "uID bob = 2" "uDisplayName bob = ''Bob''"
    "crashed (boot idle_hub) = None" "crashed t1 = None"
    by (simp_all add: start_def bob_def boot_def hub.extend_def t1_def)
  obtain r1 where q1: "ServeHTTP toy lib0 ?sv (wc_conn 1) (get_with ''/ws'' bob_token) (start\<lparr>wAuth := a\<rparr>) =
      (r1, start\<lparr>wAuth := a\<rparr>\<lparr>wSys := t1\<rparr>)"
    using ServeHTTP_ws [OF m acc, of "start\<lparr>wAuth := a\<rparr>" 1 t1] c1 k w by auto
  obtain r2 where q2: "ServeHTTP toy lib0 ?sv (wc_conn 2) (get_with ''/ws'' bob_token) (start\<lparr>wAuth := a\<rparr>\<lparr>wSys := t1\<rparr>) =
      (r2, start\<lparr>wAuth := a\<rparr>\<lparr>wSys := t1\<rparr>\<lparr>wSys := two_tabs\<rparr>)"
    using ServeHTTP_ws [OF m acc, of "start\<lparr>wAuth := a\<rparr>\<lparr>wSys := t1\<rparr>" 2 two_tabs] c2 k w by auto
  have "start\<lparr>wAuth := a\<rparr>\<lparr>wSys := t1\<rparr>\<lparr>wSys := two_tabs\<rparr> = \<lparr>wAuth = a, wSys = two_tabs\<rparr>"
    by (simp add: start_def)
  note q2 = q2 [unfolded this]
  have "crashed (wSys (start\<lparr>wAuth := a\<rparr>)) = None" "crashed (wSys (start\<lparr>wAuth := a\<rparr>\<lparr>wSys := t1\<rparr>)) = None"
    "crashed (wSys start) = None"
    using w by (simp_all add: start_def)
  then show thesis using that [OF q0 q1 q2] by blast
qed

lemma two_tabs_serving:
  obtains a where "serving toy lib0 id Default \<lparr>wAuth = a, wSys = two_tabs\<rparr>"
proof -
  obtain r w1 r1 w2 r2 a where q:
    "ServeHTTP toy lib0 (chat_server id Default) (wc_at 1000) register_bob start = (r, w1)"
    "ServeHTTP toy lib0 (chat_server id Default) (wc_conn 1) (get_with ''/ws'' bob_token) w1 = (r1, w2)"
    "ServeHTTP toy lib0 (chat_server id Default) (wc_conn 2) (get_with ''/ws'' bob_token) w2 =
       (r2, \<lparr>wAuth = a, wSys = two_tabs\<rparr>)"
    and c: "crashed (wSys start) = None" "crashed (wSys w1) = None" "crashed (wSys w2) = None"
    by (rule two_tabs_requests)
  have "serving toy lib0 id Default start"
    unfolding start_def by (rule started [OF idle_fresh users_ok(2)])
  from request [OF request [OF request [OF this c(1) example_rand(2) q(1)] c(2) example_rand(1) q(2)]
      c(3) example_rand(1) q(3)]
  show thesis by (rule that)
qed

section \<open>Identity\<close>

text \<open>
  Nobody speaks under another name: in every execution of the whole server, every chat
  message written to any connection carries as sender the id and the display name of one account
  in the database, whatever the clients sent.
\<close>

theorem senders_are_accounts:
  assumes "serving K lib ts cfg w" and "e \<in> set (posts (wire (wSys w) d))"
  shows "\<exists>name u h rm m. e = message_frame rm m \<and> db_account (wAuth w) name = Some (u, h) \<and>
    mSenderID m = FormatInt (uID u) \<and> mSenderName m = uDisplayName u"
proof -
  have inv: "world_inv cfg w" by (rule serving_inv [OF assms(1)])
  then have "reachable cfg (wSys w)" by (simp add: world_inv_def)
  from reachable_inv [OF this] have "prefix (posts (wire (wSys w) d)) (posted (wSys w) d)"
    using sys_invD(3) [of cfg "wSys w" d] data_wire by blast
  then have "e \<in> set (posted (wSys w) d)" using assms(2) set_mono_prefix by blast
  then have "genuine (wAuth w) e" using inv by (simp add: world_inv_def)
  then show ?thesis unfolding genuine_def account_identity_def by blast
qed

theorem senders_are_accounts_witness:
  "\<exists>w e name (u :: User) h m. serving toy lib0 id Default w \<and> e \<in> set (posts (wire (wSys w) 2)) \<and>
     eMessage e = Some m \<and> db_account (wAuth w) name = Some (u, h) \<and> mSenderName m = uDisplayName u"
proof -
  obtain a where a: "serving toy lib0 id Default \<lparr>wAuth = a, wSys = two_tabs\<rparr>" by (rule two_tabs_serving)
  obtain s e where s: "sys_run Default bob_talks two_tabs = Some s" "e \<in> set (posts (wire s 2))"
    using bob_talks_run by (metis ex_in_conv set_empty)
  have "serving toy lib0 id Default (\<lparr>wAuth = a, wSys = two_tabs\<rparr>\<lparr>wSys := s\<rparr>)"
    by (rule serving_run [OF a, of bob_talks]) (use s(1) in \<open>auto simp: bob_talks_def do_join_def do_say_def\<close>)
  then have w: "serving toy lib0 id Default \<lparr>wAuth = a, wSys = s\<rparr>" by simp
  have "e \<in> set (posts (wire (wSys \<lparr>wAuth = a, wSys = s\<rparr>) 2))" using s(2) by simp
  from senders_are_accounts [OF w this] obtain name and u :: User and h rm m where
    "e = message_frame rm m" "db_account (wAuth \<lparr>wAuth = a, wSys = s\<rparr>) name = Some (u, h)"
    "mSenderName m = uDisplayName u" by blast
  then show ?thesis using w s(2)
    by (intro exI [of _ "\<lparr>wAuth = a, wSys = s\<rparr>"] exI [of _ e] exI [of _ name] exI [of _ u] exI [of _ h] exI [of _ m])
      (simp add: message_frame_def)
qed

end
