(* ===== verification/Process_Props.thy ===== *)
theory Process_Props
  imports Process_Inv World_Props
begin

text \<open>
  The whole process: how it ends, what \<^verbatim>\<open>run\<close> reports, and whose messages anyone ever sees, live or
  from history.
\<close>

section \<open>Ending\<close>

lemma process_run_Cons_Some:
  "process_step K lib ts cfg l p = Some q \<Longrightarrow> process_run K lib ts cfg ls q = r \<Longrightarrow> process_run K lib ts cfg (l # ls) p = r"
  by simp

definition ending :: "process \<Rightarrow> bool" where
  "ending p \<longleftrightarrow> ctxDone (pcSys p) \<and> pcResult p = None \<and> crashed (pcSys p) = None"

definition http_ends :: "http_name \<Rightarrow> process \<Rightarrow> plabel list" where
  "http_ends n p = (if hpDown (pcHttp p n) then [] else [StopBegins n]) @
     (if hpServed (pcHttp p n) then [] else [ServeReturns n ErrServerClosed]) @
     (if hpStopped (pcHttp p n) then [] else [StopReturns n 0 None])"

lemma http_ends_run:
  assumes "ending p"
  shows "process_run K lib ts cfg (http_ends n p) p = Some (put_http n http_over p)"
proof -
  have same: "put_http n (pcHttp p n) p = p" by (simp add: put_http_def)
  have up: "put_http n x (put_http n y q) = put_http n x q" for x y q by (simp add: put_http_def)
  obtain dn sv st where hp: "pcHttp p n = \<lparr>hpDown = dn, hpServed = sv, hpStopped = st\<rparr>" by (cases "pcHttp p n")
  show ?thesis
    using assms same hp
    by (cases dn; cases sv; cases st)
      (simp_all add: http_ends_def process_step_def ending_def Serve_def http_over_def Let_def up)
qed

definition hub_ends :: "process \<Rightarrow> plabel list" where
  "hub_ends p = (if hubDone (pcSys p) then [] else [Goroutine HubReturns])"

lemma hub_ends_run:
  assumes "ending p"
  shows "process_run K lib ts cfg (hub_ends p) p = Some (put_sys ((pcSys p)\<lparr>hubDone := True\<rparr>) p)"
proof (cases "hubDone (pcSys p)")
  case True
  then have "(pcSys p)\<lparr>hubDone := True\<rparr> = pcSys p" by simp
  then show ?thesis using True by (simp add: hub_ends_def put_sys_def)
next
  case False
  then show ?thesis using assms
    by (simp add: hub_ends_def process_step_def ending_def own_step_def hub_takes_def addressed_def)
qed

definition persister_ends :: "(nat \<Rightarrow> db_env) \<Rightarrow> process \<Rightarrow> plabel list" where
  "persister_ends env p = (if pcPersisted p then [] else [PersistDrain env])"

lemma persister_ends_run:
  assumes "ending p" and "\<not> chClosed (persist (pcSys p))"
  shows "\<exists>s. process_run K lib ts cfg (persister_ends env p) p =
    Some ((put_sys s p)\<lparr>pcPersisted := True, pcMessages := (if pcPersisted p then pcMessages p
      else save_all (SaveMessage_of ts (db_of cfg)) (tagged env 0 (chBuf (persist (pcSys p)))) (pcMessages p))\<rparr>) \<and>
    hubDone s = hubDone (pcSys p) \<and> ctxDone s = ctxDone (pcSys p) \<and> crashed s = crashed (pcSys p)"
proof (cases "pcPersisted p")
  case True
  then show ?thesis by (intro exI [of _ "pcSys p"]) (simp add: persister_ends_def put_sys_def)
next
  case False
  then show ?thesis using assms persister_turn_drain [OF assms(2), of ts cfg env]
    by (intro exI [of _ "(pcSys p)\<lparr>persist := (persist (pcSys p))\<lparr>chBuf := []\<rparr>\<rparr>"])
      (simp add: persister_ends_def process_step_def ending_def put_persister_def put_sys_def)
qed

text \<open>
  C13. Once the context is cancelled, by a signal or by an error, a process that has neither crashed nor returned
  can end from every state it can reach, within nine steps: \<^verbatim>\<open>run\<close> returns the first error of the group, or
  none, and the accounts are untouched. If the persister has not returned yet, every message still
  queued has been offered to the store, in order; if it has, the table stays as it is, and what the
  hub queued since is lost (the shutdown race).
\<close>

theorem shutdown_completes:
  assumes "running K lib ts cfg p" and "ctxDone (pcSys p)" and "pcResult p = None" and "crashed (pcSys p) = None"
  shows "\<exists>ls p'. length ls \<le> 9 \<and> process_run K lib ts cfg ls p = Some p' \<and> pcResult p' = Some (pcErr p) \<and>
    wAuth (pcWorld p') = wAuth (pcWorld p) \<and>
    pcMessages p' = (if pcPersisted p then pcMessages p
      else save_all (SaveMessage_of ts (db_of cfg)) (tagged env 0 (chBuf (persist (pcSys p)))) (pcMessages p))"
proof -
  have e: "ending p" using assms(2-4) by (simp add: ending_def)
  have open_queue: "\<not> chClosed (persist (pcSys p))"
    using hub_invD(6) [OF sys_invD(1) [OF process_invD(2) [OF running_inv [OF assms(1)]]]] .
  define p1 where "p1 = put_sys ((pcSys p)\<lparr>hubDone := True\<rparr>) p"
  have e1: "ending p1" using e by (simp add: p1_def ending_def)
  have p1: "persist (pcSys p1) = persist (pcSys p)" "pcPersisted p1 = pcPersisted p" "pcMessages p1 = pcMessages p"
    "hubDone (pcSys p1)" "ctxDone (pcSys p1) = ctxDone (pcSys p)" "crashed (pcSys p1) = crashed (pcSys p)"
    by (simp_all add: p1_def)
  from persister_ends_run [OF e1 open_queue [folded p1(1)], of K lib ts cfg env, unfolded p1] obtain s where
    r2: "process_run K lib ts cfg (persister_ends env p1) p1 = Some ((put_sys s p1)\<lparr>pcPersisted := True,
      pcMessages := (if pcPersisted p then pcMessages p
        else save_all (SaveMessage_of ts (db_of cfg)) (tagged env 0 (chBuf (persist (pcSys p)))) (pcMessages p))\<rparr>)"
    and s0: "hubDone s = hubDone (pcSys p1)" and s1: "ctxDone s = ctxDone (pcSys p)" "crashed s = crashed (pcSys p)"
    by (elim exE conjE) (rule that)
  have s: "hubDone s" "ctxDone s = ctxDone (pcSys p)" "crashed s = crashed (pcSys p)"
    using s0 s1 p1(4) by simp_all
  define p2 where "p2 = (put_sys s p1)\<lparr>pcPersisted := True, pcMessages := (if pcPersisted p then pcMessages p
        else save_all (SaveMessage_of ts (db_of cfg)) (tagged env 0 (chBuf (persist (pcSys p)))) (pcMessages p))\<rparr>"
  define p3 where "p3 = put_http ChatHTTP http_over p2"
  define p4 where "p4 = put_http DebugHTTP http_over p3"
  have p2: "pcSys p2 = s" "pcResult p2 = None" "pcErr p2 = pcErr p" "wAuth (pcWorld p2) = wAuth (pcWorld p)" "pcPersisted p2"
    using assms(3) by (simp_all add: p2_def p1_def put_sys_def)
  have e2: "ending p2" "ending p3"
    using e s p2 by (simp_all add: ending_def p3_def)
  let ?ls = "hub_ends p @ persister_ends env p1 @ http_ends ChatHTTP p2 @ http_ends DebugHTTP p3 @ [RunReturns]"
  have "process_step K lib ts cfg RunReturns p4 = Some (p4\<lparr>pcResult := Some (pcErr p)\<rparr>)"
    using s(1,3) assms(4) p2 by (simp add: process_step_def p4_def p3_def http_over_def)
  then have "process_run K lib ts cfg ?ls p = Some (p4\<lparr>pcResult := Some (pcErr p)\<rparr>)"
    using hub_ends_run [OF e, of K lib ts cfg] r2 http_ends_run [OF e2(1), of K lib ts cfg ChatHTTP]
      http_ends_run [OF e2(2), of K lib ts cfg DebugHTTP]
    by (simp add: process_run_append flip: p1_def p2_def p3_def p4_def)
  moreover have "length ?ls \<le> 9" by (simp add: hub_ends_def persister_ends_def http_ends_def)
  ultimately show ?thesis
    using p2 by (intro exI [of _ ?ls] exI [of _ "p4\<lparr>pcResult := Some (pcErr p)\<rparr>"])
      (simp add: p4_def p3_def p2_def)
qed

definition signalled :: process where
  "signalled = cancel (launch Default idle_hub no_users empty_table)"

lemma launch_running: "running K lib ts cfg (launch cfg idle_hub no_users empty_table)"
  by (rule launched [OF idle_fresh]) (simp_all add: idle_hub_def New_def demo_client_def users_ok genuine_rows_def empty_table_def)

lemma signalled_running: "running K lib ts Default signalled"
  by (rule progressed [OF launch_running, of Signal])
    (simp_all add: signalled_def plabel_ok_def process_step_def launch_def boot_def hub.extend_def)

theorem shutdown_completes_witness:
  "\<exists>ls p'. length ls \<le> 9 \<and> process_run toy lib0 id Default ls signalled = Some p' \<and> pcResult p' = Some None"
proof -
  have "ctxDone (pcSys signalled)" "pcResult signalled = None" "crashed (pcSys signalled) = None" "pcErr signalled = None"
    by (simp_all add: signalled_def launch_def boot_def hub.extend_def)
  note s = this
  from shutdown_completes [OF signalled_running s(1-3), of toy lib0 id "\<lambda>_. \<lparr>envNow = 0, envFault = NoFault\<rparr>"] s(4)
  show ?thesis by auto
qed

section \<open>What is reported\<close>

lemma hub_takes_ctx:
  assumes "sys_inv cfg s" and "hub_takes ev after s = Some s'" and "\<And>t. ctxDone (after t) = ctxDone t"
    and "\<not> hubDone s \<Longrightarrow> ev_ok ev s \<or> (\<exists>p. run_step ev s = Inl p)"
  shows "ctxDone s' = ctxDone s"
proof (cases "run_step ev s")
  case (Inl p)
  then show ?thesis using assms(2) by (auto simp: hub_takes_def split: if_splits)
next
  case (Inr x)
  obtain st t where x: "x = (st, t)" by fastforce
  let ?t = "t\<lparr>posted := \<lambda>d. posted s d @ addressed ev s d\<rparr>"
  have ok: "ev_ok ev s" and s': "s' = after ?t"
    using assms(2,4) Inr x by (auto simp: hub_takes_def split: if_splits)
  have "ctxDone t = ctxDone s" using run_step_pumps(6) [OF sys_invD(1) [OF assms(1)] ok Inr [unfolded x]] .
  then show ?thesis unfolding s' assms(3) by simp
qed

lemma step_ctx:
  assumes inv: "sys_inv cfg s" and "sys_step cfg l s = Some s'" and "l \<noteq> CancelCtx"
  shows "ctxDone s' = ctxDone s"
proof -
  have st: "steps cfg l s = Some s'" using assms(2) by (auto simp: sys_step_def split: if_splits)
  note h = hub_takes_ctx [OF inv]
  show ?thesis
  proof (cases l)
    case (TakeRegister c)
    then have t: "hub_takes (EvRegister c) (client_Run c) s = Some s'" "reader s c = Registering"
      using st by (simp_all split: if_splits)
    have "ev_ok (EvRegister c) s"
      using sys_invD(2) [OF inv, of c] t(2) by (simp add: ctl_ok_def ev_ok_def)
    then show ?thesis by (intro h [OF t(1)]) (simp_all add: client_Run_def)
  next
    case (LoadHistory c ans)
    then obtain rm where r: "reader s c = Loading rm" using st by (auto split: reader.splits)
    show ?thesis using st LoadHistory r
      by (cases rule: handleJoin_cases [of c rm "History (Some (\<lambda>_ _. ans)) (historyLimit s) rm" s]) auto
  next
    case (TakeCommand c now)
    then obtain cmd where r: "reader s c = Submitting cmd"
      and t: "hub_takes (EvInbound cmd now (ctxDone s)) (goto_reader c Reading) s = Some s'"
      using st by (auto split: reader.splits)
    show ?thesis by (rule h [OF t]) (use command_ok_or_panic [OF inv r, where now = now and b = "ctxDone s"] in auto)
  next
    case (TakeUnregister c)
    then have "hub_takes (EvUnregister c) (goto_reader c Gone) s = Some s'" using st by (simp split: if_splits)
    from h [OF this] show ?thesis by (simp add: ev_ok_def)
  next
    case TakeQuery
    then have "hub_takes EvQuery (\<lambda>s. s) s = Some s'" using st by simp
    from h [OF this] show ?thesis by (simp add: ev_ok_def)
  next
    case Tick
    then have "hub_takes EvTick (\<lambda>s. s) s = Some s'" using st by simp
    from h [OF this] show ?thesis by (simp add: ev_ok_def)
  next
    case HubReturns
    then have "hub_takes EvDone (\<lambda>s. s) s = Some s'" using st by (simp split: if_splits)
    from h [OF this] show ?thesis by (simp add: ev_ok_def)
  next
    case (WriterTakes c)
    then show ?thesis using st by (auto simp: set_send_def writer_exit_def split: if_splits recv.splits)
  next
    case CancelCtx
    then show ?thesis using assms(3) by blast
  qed (use st in \<open>auto simp: writer_exit_def client_Run_def split: if_splits writer.splits reader.splits recv.splits sum.splits\<close>)
qed

text \<open>The error that ends a goroutine of the group in one step, if any.\<close>

fun failure :: "plabel \<Rightarrow> string option" where
  "failure (ServeReturns n (ServeFailed msg)) = Some msg"
| "failure (StopReturns n busy listenErr) = Shutdown busy listenErr"
| "failure _ = None"

definition first_failure :: "plabel list \<Rightarrow> string option" where
  "first_failure ls = (case List.map_filter failure ls of [] \<Rightarrow> None | e # _ \<Rightarrow> Some e)"

lemma first_failure_snoc:
  "first_failure [] = None"
  "first_failure (ls @ [l]) = (if first_failure ls = None then failure l else first_failure ls)"
  by (simp_all add: first_failure_def map_filter_def split: list.split option.split)

lemma all_http: "(\<forall>n. Q n) \<longleftrightarrow> Q ChatHTTP \<and> Q DebugHTTP"
  by (metis http_name.exhaust)

lemma process_step_group:
  assumes "process_inv cfg p" and "plabel_ok l" and "process_step K lib ts cfg l p = Some p'"
  shows "pcErr p' = (if pcErr p = None then failure l else pcErr p) \<and>
    (ctxDone (pcSys p') \<longleftrightarrow> ctxDone (pcSys p) \<or> l = Signal \<or> failure l \<noteq> None) \<and>
    (pcResult p' = None \<or> l = RunReturns \<and> pcResult p' = Some (pcErr p') \<and> hubDone (pcSys p') \<and> pcPersisted p' \<and>
       (\<forall>n. hpServed (pcHttp p' n) \<and> hpStopped (pcHttp p' n)))"
proof -
  have c: "crashed (pcSys p) = None" "pcResult p = None" and st: "process_steps K lib ts cfg l p = Some p'"
    using assms(3) by (auto simp: process_step_def split: if_splits)
  have open_queue: "\<not> chClosed (persist (pcSys p))"
    using hub_invD(6) [OF sys_invD(1) [OF process_invD(2) [OF assms(1)]]] .
  note ctx = step_ctx [OF process_invD(2) [OF assms(1)]]
  show ?thesis
  proof (cases l)
    case (Request wc rq)
    have a: "auth_ok (wAuth (pcWorld p))" and r: "rand_ok (wcCall wc)"
      using process_invD(1) [OF assms(1)] assms(2) Request by (simp_all add: world_inv_def plabel_ok_def)
    obtain x w where w: "ServeHTTP K lib (chat_server ts cfg) wc rq (pcWorld p) = (x, w)" by fastforce
    have "ctxDone (wSys w) = ctxDone (pcSys p)"
      using request_effect [OF a r c(1) w] ctx [of "TakeQuery :: unit label"] ctx [of "Connect i j k :: unit label" for i j k]
      by auto
    moreover have "p' = p\<lparr>pcWorld := w\<rparr>" using st Request w by simp
    ultimately show ?thesis using Request c by simp
  next
    case (Goroutine g)
    then obtain s where s: "own_step g" "steps cfg g (pcSys p) = Some s" "p' = put_sys s p"
      using st by (auto simp del: steps.simps split: if_splits)
    have g: "g \<noteq> CancelCtx" using s(1) by (auto simp: own_step_def)
    have "sys_step cfg g (pcSys p) = Some s" using s(2) c by (simp add: sys_step_def)
    from ctx [OF this g] show ?thesis using s(3) c Goroutine by simp
  next
    case (LoadFromStore i env)
    then obtain rm s where r: "steps cfg (LoadHistory i (answer (RecentByRoom_of (db_of cfg) env rm (historyLimit (pcSys p)) (pcMessages p)))) (pcSys p) = Some s"
      "p' = put_sys s p"
      using st by (auto simp del: steps.simps split: reader.splits)
    have "sys_step cfg (LoadHistory i (answer (RecentByRoom_of (db_of cfg) env rm (historyLimit (pcSys p)) (pcMessages p)))) (pcSys p) = Some s"
      using r(1) c by (simp add: sys_step_def)
    from ctx [OF this] show ?thesis using r(2) c LoadFromStore by simp
  next
    case (PersistOne env)
    then show ?thesis using st c persister_turn_take [OF open_queue, of ts cfg env] by (auto split: if_splits)
  next
    case (PersistDrain env)
    then show ?thesis using st c persister_turn_drain [OF open_queue, of ts cfg env] by (auto split: if_splits)
  next
    case (ServeReturns n e)
    then show ?thesis using st c by (cases e) (auto simp: Serve_def serve_text_def Let_def split: if_splits)
  next
    case (StopReturns n busy e)
    then show ?thesis using st c by (auto simp: Let_def split: if_splits)
  next
    case (StopBegins n)
    then show ?thesis using st c by (auto simp: Let_def split: if_splits)
  next
    case RunReturns
    then show ?thesis using st c by (auto simp: all_http split: if_splits)
  next
    case Signal
    then show ?thesis using st c by auto
  qed
qed

text \<open>
  C14. \<^verbatim>\<open>run\<close> reports the first failure: over any execution from the start, the error of the group is
  the first error with which serving or shutting down one of the HTTP servers ended, or
  none; the context is cancelled exactly when there was a signal or such an error; and \<^verbatim>\<open>run\<close>
  returns that error, once the hub, the persister and both servers have returned; the exit
  status tells whether there was one.
\<close>

theorem run_reports_the_first_failure:
  assumes "running K lib ts cfg (launch cfg h a t)" and "\<forall>l \<in> set ls. plabel_ok l"
    and "process_run K lib ts cfg ls (launch cfg h a t) = Some p"
  shows "pcErr p = first_failure ls \<and>
    (ctxDone (pcSys p) \<longleftrightarrow> Signal \<in> set ls \<or> first_failure ls \<noteq> None) \<and>
    (pcResult p \<noteq> None \<longrightarrow> last ls = RunReturns \<and> pcResult p = Some (first_failure ls) \<and>
       hubDone (pcSys p) \<and> pcPersisted p \<and> (\<forall>n. hpServed (pcHttp p n) \<and> hpStopped (pcHttp p n))) \<and>
    (\<forall>r. pcResult p = Some r \<longrightarrow> main_exit (map_option GroupFailed r) = (if first_failure ls = None then 0 else 1))"
  using assms(2,3)
proof (induction ls arbitrary: p rule: rev_induct)
  case Nil
  then show ?case by (auto simp: first_failure_snoc launch_def boot_def hub.extend_def)
next
  case (snoc l ls)
  then obtain q where q: "process_run K lib ts cfg ls (launch cfg h a t) = Some q" "process_step K lib ts cfg l q = Some p"
    by (auto simp: process_run_append split: option.splits)
  have "running K lib ts cfg q" by (rule running_run [OF assms(1) _ q(1)]) (use snoc.prems(1) in simp)
  note k = process_step_group [OF running_inv [OF this] _ q(2)]
  have "plabel_ok l" using snoc.prems(1) by simp
  from k [OF this] have g: "pcErr p = (if pcErr q = None then failure l else pcErr q)"
    "ctxDone (pcSys p) \<longleftrightarrow> ctxDone (pcSys q) \<or> l = Signal \<or> failure l \<noteq> None"
    "pcResult p = None \<or> l = RunReturns \<and> pcResult p = Some (pcErr p) \<and> hubDone (pcSys p) \<and> pcPersisted p \<and>
       (\<forall>n. hpServed (pcHttp p n) \<and> hpStopped (pcHttp p n))"
    by blast+
  have "pcErr q = first_failure ls" "ctxDone (pcSys q) \<longleftrightarrow> Signal \<in> set ls \<or> first_failure ls \<noteq> None"
    using snoc.IH [OF _ q(1)] snoc.prems(1) by simp_all
  then show ?case using g by (auto simp: first_failure_snoc main_exit_def)
qed

definition port_in_use :: "plabel list" where
  "port_in_use = [ServeReturns ChatHTTP (ServeFailed ''listen tcp: address already in use''), Goroutine HubReturns,
     PersistDrain (\<lambda>_. \<lparr>envNow = 0, envFault = NoFault\<rparr>), StopBegins ChatHTTP, StopReturns ChatHTTP (30 * Second) None, RunReturns]"

theorem run_reports_the_first_failure_witness:
  "\<exists>p. process_run toy lib0 id Default port_in_use (launch Default idle_hub no_users empty_table) = Some p \<and>
     pcResult p = Some (Some ''listen tcp: address already in use'')"
proof -
  have "\<exists>p. process_run toy lib0 id Default port_in_use (launch Default idle_hub no_users empty_table) = Some p \<and> pcResult p \<noteq> None"
    by (simp add: port_in_use_def process_step_def launch_def boot_def hub.extend_def idle_hub_def New_def Serve_def
        serve_text_def Let_def own_step_def hub_takes_def persister_turn_def drain_open make_chan_def
        http_running_def http_over_def Default_def)
  then obtain p where p: "process_run toy lib0 id Default port_in_use (launch Default idle_hub no_users empty_table) = Some p"
    "pcResult p \<noteq> None" by blast
  have "\<forall>l \<in> set port_in_use. plabel_ok l" by (simp add: port_in_use_def plabel_ok_def)
  from run_reports_the_first_failure [OF launch_running this p(1)] p show ?thesis
    by (simp add: port_in_use_def first_failure_def map_filter_def)
qed

section \<open>Whose messages anyone sees\<close>

text \<open>
  C4. Nobody speaks under another name, now or in the history: in every reachable state of the
  whole process, every chat message in any frame written so far to any connection, delivered live or
  loaded as history, carries as sender the id and the display name of one account in the
  database, whatever the clients sent; and so does every row of the message table, written to
  anyone or not.
\<close>

theorem every_message_is_from_an_account:
  assumes "running K lib ts cfg p"
  shows "(\<forall>d. \<forall>e \<in> set (wire (pcSys p) d). \<forall>m \<in> carried e.
      \<exists>name u h. db_account (wAuth (pcWorld p)) name = Some (u, h) \<and>
        mSenderID m = FormatInt (uID u) \<and> mSenderName m = uDisplayName u) \<and>
    (\<forall>r \<in> set (tblRows (pcMessages p)). \<exists>name u h. db_account (wAuth (pcWorld p)) name = Some (u, h) \<and>
      rowSenderID r = FormatInt (uID u) \<and> rowSenderName r = uDisplayName u)"
proof -
  note i = process_invD [OF running_inv [OF assms]]
  have "m \<in> travelling (pcSys p)" if "e \<in> set (wire (pcSys p) d)" "m \<in> carried e" for d e m
    using that unfolding travelling_def transit_def by blast
  with i(3,4) show ?thesis
    unfolding from_account_def genuine_rows_def account_identity_def by blast
qed

text \<open>
  Bob says something in one tab, it is saved, and the other tab gets it as history when it joins.
\<close>

definition calm_now :: db_env where
  "calm_now = \<lparr>envNow = 0, envFault = NoFault\<rparr>"

definition history_seen :: "plabel list" where
  "history_seen = [Goroutine (TakeRegister 1), Goroutine (TakeRegister 2),
     Goroutine (ReadFrame 1 (frame_of TypeJoin ''r'' '''')), LoadFromStore 1 calm_now, Goroutine (TakeCommand 1 5),
     Goroutine (ReadFrame 1 (frame_of TypeMessage ''r'' ''hi'')), Goroutine (TakeCommand 1 7), PersistOne calm_now,
     Goroutine (ReadFrame 2 (frame_of TypeJoin ''r'' '''')), LoadFromStore 2 calm_now,
     Goroutine (WriterTakes 2), Goroutine (WriteDone 2)]"

definition connected_twice :: "auth_db \<Rightarrow> process" where
  "connected_twice a = (launch Default idle_hub one_user empty_table)\<lparr>pcWorld := \<lparr>wAuth = a, wSys = two_tabs\<rparr>\<rparr>"

lemma connected_twice_running:
  obtains a where "running toy lib0 id Default (connected_twice a)"
proof -
  let ?p0 = "launch Default idle_hub one_user empty_table"
  obtain r w1 r1 w2 r2 a where q:
    "ServeHTTP toy lib0 (chat_server id Default) (wc_at 1000) register_bob start = (r, w1)"
    "ServeHTTP toy lib0 (chat_server id Default) (wc_conn 1) (get_with ''/ws'' bob_token) w1 = (r1, w2)"
    "ServeHTTP toy lib0 (chat_server id Default) (wc_conn 2) (get_with ''/ws'' bob_token) w2 =
       (r2, \<lparr>wAuth = a, wSys = two_tabs\<rparr>)"
    and c: "crashed (wSys start) = None" "crashed (wSys w1) = None" "crashed (wSys w2) = None"
    by (rule two_tabs_requests)
  have step: "running toy lib0 id Default (?p0\<lparr>pcWorld := snd x\<rparr>)"
    if "running toy lib0 id Default (?p0\<lparr>pcWorld := w\<rparr>)" "ServeHTTP toy lib0 (chat_server id Default) wc rq w = x"
      "crashed (wSys w) = None" "rand_ok (wcCall wc)" for w wc rq x
    using that by (intro progressed [OF that(1), of "Request wc rq"])
      (simp_all add: plabel_ok_def process_step_def launch_def)
  have "running toy lib0 id Default ?p0"
    by (rule launched [OF idle_fresh]) (simp_all add: idle_hub_def New_def demo_client_def users_ok genuine_rows_def empty_table_def)
  moreover have "?p0 = ?p0\<lparr>pcWorld := start\<rparr>" by (simp add: launch_def start_def)
  ultimately have s0: "running toy lib0 id Default (?p0\<lparr>pcWorld := start\<rparr>)" by simp
  from step [OF s0 q(1) c(1) example_rand(2)] have s1: "running toy lib0 id Default (?p0\<lparr>pcWorld := w1\<rparr>)" by simp
  from step [OF s1 q(2) c(2) example_rand(1)] have s2: "running toy lib0 id Default (?p0\<lparr>pcWorld := w2\<rparr>)" by simp
  from step [OF s2 q(3) c(3) example_rand(1)] have "running toy lib0 id Default (connected_twice a)"
    by (simp add: connected_twice_def)
  then show thesis by (rule that)
qed

lemma history_seen_run:
  "\<exists>p m. process_run toy lib0 id Default history_seen (connected_twice a) = Some p \<and>
     wire (pcSys p) 2 = [history_frame ''r'' [m]] \<and> mContent m = ''hi''"
  by (simp add: history_seen_def connected_twice_def launch_def two_tabs_def process_step_def own_step_def
      run_eval go_simps calm_now_def put_sys_def answer_def SQLite_RecentByRoom_def empty_table_def sqlite_limit_def
      sql_select_recent_def sqlite_row_def SQLite_SaveMessage_def sql_insert_message_def stamped_def IsZero_def
      zero_time_def persister_turn_def persist_save_def history_frame_def UnixNano_def Unix_nanos_def chan_recv_def put_persister_def
      RecentByRoom_of_def SaveMessage_of_def db_of_def choose_db_def HasPrefix_def TrimPrefix_def)

theorem every_message_is_from_an_account_witness:
  "\<exists>p e m name (u :: User) h. running toy lib0 id Default p \<and> e \<in> set (wire (pcSys p) 2) \<and> eType e = TypeHistory \<and>
     m \<in> carried e \<and> db_account (wAuth (pcWorld p)) name = Some (u, h) \<and> mSenderName m = uDisplayName u"
proof -
  obtain a where a: "running toy lib0 id Default (connected_twice a)" by (rule connected_twice_running)
  obtain p m where p: "process_run toy lib0 id Default history_seen (connected_twice a) = Some p"
    "wire (pcSys p) 2 = [history_frame ''r'' [m]]"
    using history_seen_run by blast
  have r: "running toy lib0 id Default p"
    by (rule running_run [OF a _ p(1)]) (simp add: history_seen_def plabel_ok_def)
  have e: "history_frame ''r'' [m] \<in> set (wire (pcSys p) 2)" "m \<in> carried (history_frame ''r'' [m])"
    using p(2) by simp_all
  from every_message_is_from_an_account [OF r] e obtain name and u :: User and h where
    "db_account (wAuth (pcWorld p)) name = Some (u, h)" "mSenderName m = uDisplayName u" by blast
  moreover have "eType (history_frame ''r'' [m]) = TypeHistory" by (simp add: history_frame_def)
  ultimately show ?thesis using r e by blast
qed

end
