(* ===== verification/Bus.thy ===== *)
theory Bus
  imports Wire Config
begin

text \<open>
  The broadcast seam of \<^verbatim>\<open>internal/bus/bus.go\<close>: the bus of one process, with a buffered channel per
  subscriber. The rest of the program does not use it yet. \<^verbatim>\<open>Publish\<close> and the registration
  and removal of a subscriber run under one lock, so each is a step of its own; the goroutine that
  \<^verbatim>\<open>Subscribe\<close> starts removes the channel in one step and closes it in a later one.
\<close>

section \<open>The bus\<close>

type_synonym bid = nat

text \<open>
  Where the goroutine of a subscription is: not started, waiting for its context, between removal
  and close, returned.
\<close>

datatype watch = NoWatch | Watching | Removed | Returned

text \<open>
  \<open>taken\<close> and \<open>offered\<close> record, for the statements only, what a subscriber received and what was
  published while it was subscribed.
\<close>

record bus =
  buffer :: nat
  subscribers :: "bid list"
  busChans :: "bid \<Rightarrow> Message chan"
  busRand :: "nat \<Rightarrow> nat"
  watch :: "bid \<Rightarrow> watch"
  taken :: "bid \<Rightarrow> Message list"
  offered :: "bid \<Rightarrow> Message list"

definition NewLocal :: "(nat \<Rightarrow> nat) \<Rightarrow> int \<Rightarrow> bus" where
  "NewLocal rnd n = \<lparr>buffer = nat (if n \<le> 0 then 1 else n), subscribers = [],
     busChans = \<lambda>_. make_chan 0, busRand = rnd, watch = \<lambda>_. NoWatch, taken = \<lambda>_. [], offered = \<lambda>_. []\<rparr>"

definition bus_send :: "bid \<Rightarrow> Message \<Rightarrow> bus \<Rightarrow> panic + bool \<times> bus" where
  "bus_send b m s = ebind (chan_offer None m (busChans s b))
     (\<lambda>(ok, ch). Inr (ok, s\<lparr>busChans := (busChans s)(b := ch)\<rparr>))"

fun publish_each :: "bid list \<Rightarrow> Message \<Rightarrow> bus \<Rightarrow> panic + bus" where
  "publish_each [] m s = Inr s"
| "publish_each (b # bs) m s = ebind (bus_send b m s) (\<lambda>(_, s'). publish_each bs m s')"

definition Publish :: "Message \<Rightarrow> bus \<Rightarrow> panic + bus" where
  "Publish m s = publish_each (shuffle (busRand s 0) (subscribers s)) m
     (s\<lparr>busRand := \<lambda>i. busRand s (Suc i)\<rparr>)"

definition Subscribe :: "bid \<Rightarrow> bus \<Rightarrow> bus" where
  "Subscribe b s = s\<lparr>subscribers := List.insert b (subscribers s),
     busChans := (busChans s)(b := make_chan (buffer s)), watch := (watch s)(b := Watching)\<rparr>"

definition remove_subscriber :: "bid \<Rightarrow> bus \<Rightarrow> bus" where
  "remove_subscriber b s = s\<lparr>subscribers := removeAll b (subscribers s), watch := (watch s)(b := Removed)\<rparr>"

definition close_subscriber :: "bid \<Rightarrow> bus \<Rightarrow> panic + bus" where
  "close_subscriber b s = ebind (chan_close None (busChans s b))
     (\<lambda>ch. Inr (s\<lparr>busChans := (busChans s)(b := ch), watch := (watch s)(b := Returned)\<rparr>))"

text \<open>One subscriber's channel is a non-blocking queue in the sense of the prelude.\<close>

interpretation subscriber_queue: lossy_queue "bus_send b" "\<lambda>s. chBuf (busChans s b)"
    "\<lambda>s. chCap (busChans s b)" "\<lambda>s. \<not> chClosed (busChans s b)"
  by unfold_locales (simp_all add: bus_send_def chan_offer_def chan_room_def)

section \<open>Steps\<close>

text \<open>
  A publisher, a new subscription at an unused channel, the two steps of the watching goroutine
  (its context may be cancelled at any time), a receive.
\<close>

inductive bus_step :: "bus \<Rightarrow> (panic + bus) \<Rightarrow> bool" where
  published: "Publish m s = r \<Longrightarrow> r' = map_sum id (\<lambda>s'. s'\<lparr>offered := \<lambda>b.
      if b \<in> set (subscribers s) then offered s b @ [m] else offered s b\<rparr>) r \<Longrightarrow> bus_step s r'"
| subscribed: "watch s b = NoWatch \<Longrightarrow> bus_step s (Inr (Subscribe b s))"
| removed: "watch s b = Watching \<Longrightarrow> bus_step s (Inr (remove_subscriber b s))"
| closed: "watch s b = Removed \<Longrightarrow> bus_step s (close_subscriber b s)"
| received: "chan_recv (busChans s b) = Received m ch \<Longrightarrow>
    bus_step s (Inr (s\<lparr>busChans := (busChans s)(b := ch), taken := (taken s)(b := taken s b @ [m])\<rparr>))"

inductive bus_reachable :: "bus \<Rightarrow> bool" where
  new: "bus_reachable (NewLocal rnd n)"
| step: "bus_reachable s \<Longrightarrow> bus_step s (Inr s') \<Longrightarrow> bus_reachable s'"

section \<open>Invariant\<close>

text \<open>What publishing does to the channels.\<close>

definition deliver_to :: "bid set \<Rightarrow> Message \<Rightarrow> (bid \<Rightarrow> Message chan) \<Rightarrow> bid \<Rightarrow> Message chan" where
  "deliver_to B m f b =
     (if b \<in> B \<and> chan_room (f b) then (f b)\<lparr>chBuf := chBuf (f b) @ [m]\<rparr> else f b)"

lemma deliver_to_insert:
  "b \<notin> B \<Longrightarrow> deliver_to B m (f(b := deliver_to {b} m f b)) = deliver_to (insert b B) m f"
  by (auto simp: deliver_to_def fun_eq_iff)

lemma bus_send_open:
  "\<not> chClosed (busChans s b) \<Longrightarrow> bus_send b m s = Inr (chan_room (busChans s b),
     s\<lparr>busChans := (busChans s)(b := deliver_to {b} m (busChans s) b)\<rparr>)"
  by (simp add: bus_send_def chan_offer_open deliver_to_def)

lemma publish_each_open:
  "distinct bs \<Longrightarrow> \<forall>b \<in> set bs. \<not> chClosed (busChans s b) \<Longrightarrow>
     publish_each bs m s = Inr (s\<lparr>busChans := deliver_to (set bs) m (busChans s)\<rparr>)"
proof (induction bs arbitrary: s)
  case Nil
  then show ?case by (simp add: deliver_to_def [abs_def])
next
  case (Cons b bs)
  then show ?case by (simp add: bus_send_open deliver_to_insert)
qed

text \<open>One subscription: its goroutine, its channel, and what went through it.\<close>

definition sub_ok :: "bool \<Rightarrow> watch \<Rightarrow> Message chan \<Rightarrow> Message list \<Rightarrow> Message list \<Rightarrow> bool" where
  "sub_ok isin w ch tk off \<longleftrightarrow> (isin \<longleftrightarrow> w = Watching) \<and> (chClosed ch \<longleftrightarrow> w = Returned) \<and> chan_ok ch \<and>
     (w = NoWatch \<longrightarrow> chBuf ch = [] \<and> tk = [] \<and> off = []) \<and> subseq (tk @ chBuf ch) off"

definition bus_inv :: "bus \<Rightarrow> bool" where
  "bus_inv s \<longleftrightarrow> distinct (subscribers s) \<and> 0 < buffer s \<and>
     (\<forall>b. sub_ok (b \<in> set (subscribers s)) (watch s b) (busChans s b) (taken s b) (offered s b)) \<and>
     (\<forall>b. watch s b \<noteq> NoWatch \<longrightarrow> chCap (busChans s b) = buffer s)"

lemma Publish_open:
  assumes "bus_inv s"
  shows "Publish m s = Inr (s\<lparr>busRand := \<lambda>i. busRand s (Suc i),
     busChans := deliver_to (set (subscribers s)) m (busChans s)\<rparr>)"
proof -
  have "\<forall>b \<in> set (subscribers s). \<not> chClosed (busChans s b)" "distinct (subscribers s)"
    using assms by (auto simp: bus_inv_def sub_ok_def)
  then show ?thesis unfolding Publish_def by (subst publish_each_open) simp_all
qed

lemma sub_ok_publish:
  "sub_ok True w ch tk off \<Longrightarrow>
     sub_ok True w (if chan_room ch then ch\<lparr>chBuf := chBuf ch @ [m]\<rparr> else ch) tk (off @ [m])"
  by (auto simp: sub_ok_def chan_ok_def chan_room_def subseq_append' simp flip: append_assoc
      intro: subseq_order.trans)

lemma sub_ok_receive:
  assumes "sub_ok isin w ch tk off" and "chan_recv ch = Received m ch'"
  shows "sub_ok isin w ch' (tk @ [m]) off" "chCap ch' = chCap ch"
proof -
  have "chBuf ch = m # chBuf ch'" "chClosed ch' = chClosed ch" "chCap ch' = chCap ch"
    using assms(2) by (auto simp: chan_recv_def split: list.splits if_splits)
  then show "sub_ok isin w ch' (tk @ [m]) off" "chCap ch' = chCap ch"
    using assms(1) by (auto simp: sub_ok_def chan_ok_def)
qed

lemma bus_step_inv:
  assumes "bus_inv s" and "bus_step s r"
  shows "\<exists>s'. r = Inr s' \<and> bus_inv s'"
  using assms(2)
proof (cases rule: bus_step.cases)
  case (published m r0)
  have i: "sub_ok (b \<in> set (subscribers s)) (watch s b) (busChans s b) (taken s b) (offered s b)" for b
    using assms(1) by (simp add: bus_inv_def)
  have p: "b \<in> set (subscribers s) \<Longrightarrow> sub_ok True (watch s b)
      (if chan_room (busChans s b) then (busChans s b)\<lparr>chBuf := chBuf (busChans s b) @ [m]\<rparr> else busChans s b)
      (taken s b) (offered s b @ [m])" for b
    using i [of b] by (intro sub_ok_publish) simp
  have q: "b \<notin> set (subscribers s) \<Longrightarrow> sub_ok False (watch s b) (busChans s b) (taken s b) (offered s b)" for b
    using i [of b] by simp
  show ?thesis
    using published assms(1) p q unfolding Publish_open [OF assms(1)]
    by (auto simp: bus_inv_def deliver_to_def)
next
  case (subscribed b)
  have "b \<notin> set (subscribers s)" using assms(1) subscribed(2) by (auto simp: bus_inv_def sub_ok_def)
  then show ?thesis
    using subscribed assms(1) by (auto simp: bus_inv_def sub_ok_def Subscribe_def)
next
  case (removed b)
  then show ?thesis using assms(1) by (auto simp: bus_inv_def sub_ok_def remove_subscriber_def distinct_removeAll)
next
  case (closed b)
  have i: "sub_ok (b \<in> set (subscribers s)) Removed (busChans s b) (taken s b) (offered s b)"
    using assms(1) closed(2) unfolding bus_inv_def by metis
  then have "b \<notin> set (subscribers s)" "\<not> chClosed (busChans s b)"
    "sub_ok False Returned ((busChans s b)\<lparr>chClosed := True\<rparr>) (taken s b) (offered s b)"
    by (auto simp: sub_ok_def chan_ok_def)
  then show ?thesis using closed assms(1)
    by (auto simp: bus_inv_def close_subscriber_def chan_close_def)
next
  case (received b m ch)
  have "sub_ok (b \<in> set (subscribers s)) (watch s b) (busChans s b) (taken s b) (offered s b)"
    using assms(1) by (simp add: bus_inv_def)
  from sub_ok_receive [OF this received(2)] show ?thesis
    using received(1) assms(1) by (auto simp: bus_inv_def)
qed

lemma bus_reachable_inv: "bus_reachable s \<Longrightarrow> bus_inv s"
proof (induction rule: bus_reachable.induct)
  case (new rnd n)
  then show ?case by (auto simp: bus_inv_def sub_ok_def NewLocal_def)
next
  case (step s s')
  then show ?case using bus_step_inv [of s "Inr s'"] by auto
qed

section \<open>Delivery\<close>

text \<open>
  C30. The bus, in every reachable state: publishing neither panics nor blocks and appends the
  message to the channel of every subscriber that has room, and to no other; what a
  subscriber has received and still has queued is a subsequence, in order, of what was
  published while it was subscribed; and its channel is closed only after it was removed.
\<close>

theorem bus_delivers_in_order:
  assumes "bus_reachable s"
  shows "(\<exists>s'. Publish m s = Inr s' \<and> (\<forall>b. chBuf (busChans s' b) = chBuf (busChans s b) @
      (if b \<in> set (subscribers s) \<and> length (chBuf (busChans s b)) < buffer s then [m] else []))) \<and>
    subseq (taken s b @ chBuf (busChans s b)) (offered s b) \<and>
    (watch s b \<noteq> NoWatch \<longrightarrow> length (chBuf (busChans s b)) \<le> buffer s) \<and>
    (chClosed (busChans s b) \<longrightarrow> b \<notin> set (subscribers s))"
proof -
  have inv: "bus_inv s" by (rule bus_reachable_inv [OF assms])
  then have i: "sub_ok (b \<in> set (subscribers s)) (watch s b) (busChans s b) (taken s b) (offered s b)"
    and cap: "watch s b \<noteq> NoWatch \<longrightarrow> chCap (busChans s b) = buffer s" for b
    by (simp_all add: bus_inv_def)
  have "b \<in> set (subscribers s) \<longrightarrow> chCap (busChans s b) = buffer s" for b
    using i [of b] cap [of b] by (auto simp: sub_ok_def)
  then have "\<exists>s'. Publish m s = Inr s' \<and> (\<forall>b. chBuf (busChans s' b) = chBuf (busChans s b) @
      (if b \<in> set (subscribers s) \<and> length (chBuf (busChans s b)) < buffer s then [m] else []))"
    unfolding Publish_open [OF inv, of m] by (auto simp: deliver_to_def chan_room_def)
  moreover have "watch s b \<noteq> NoWatch \<longrightarrow> length (chBuf (busChans s b)) \<le> buffer s"
    using i [of b] cap [of b] by (metis chan_ok_def sub_ok_def)
  ultimately show ?thesis using i [of b] by (auto simp: sub_ok_def)
qed

text \<open>Two subscribers with a buffer of one; channel 3 is nobody's.\<close>

definition two_subscribers :: bus where
  "two_subscribers = Subscribe 2 (Subscribe 1 (NewLocal (\<lambda>_. 0) 1))"

lemma two_subscribers_reachable: "bus_reachable two_subscribers"
  unfolding two_subscribers_def
  by (rule step [OF step [OF bus_reachable.new]]; rule subscribed) (simp_all add: NewLocal_def Subscribe_def)

theorem bus_delivers_in_order_witness:
  "\<exists>s. Publish zero_Message two_subscribers = Inr s \<and> chBuf (busChans s 1) = [zero_Message] \<and> chBuf (busChans s 3) = []"
proof -
  obtain s where s: "Publish zero_Message two_subscribers = Inr s"
    "\<forall>b. chBuf (busChans s b) = chBuf (busChans two_subscribers b) @
      (if b \<in> set (subscribers two_subscribers) \<and> length (chBuf (busChans two_subscribers b)) < buffer two_subscribers
       then [zero_Message] else [])"
    using bus_delivers_in_order [OF two_subscribers_reachable, of zero_Message] by blast
  show ?thesis
    using s(1) s(2) [rule_format, of 1] s(2) [rule_format, of 3]
    by (intro exI [of _ s]) (simp add: two_subscribers_def Subscribe_def NewLocal_def)
qed

end
