(* ===== verification/Go_Time.thy ===== *)
theory Go_Time
  imports Go_Strings "HOL-Library.Monad_Syntax"
begin

text \<open>
  How \<^verbatim>\<open>time.Time\<close> values in UTC travel through \<^verbatim>\<open>encoding/json\<close>: the RFC 3339 text with
  nanoseconds, and its strict reading. Dates are computed in the proleptic Gregorian calendar
  with years that begin in March, in eras of 400 years.
\<close>

section \<open>The calendar\<close>

definition civil :: "int \<Rightarrow> int \<times> int \<times> int" where
  "civil z =
     (let z' = z + 719468; era = z' div 146097; doe = z' mod 146097;
          c = min 3 (doe div 36524); r1 = doe - c * 36524;
          q = r1 div 1461; r2 = r1 - q * 1461;
          y = min 3 (r2 div 365); doy = r2 - y * 365;
          mp = (5 * doy + 2) div 153;
          d = doy - (153 * mp + 2) div 5 + 1;
          m = (if mp < 10 then mp + 3 else mp - 9)
      in (400 * era + 100 * c + 4 * q + y + (if m \<le> 2 then 1 else 0), m, d))"

definition day_number :: "int \<Rightarrow> int \<Rightarrow> int \<Rightarrow> int" where
  "day_number y m d =
     (let y' = (if m \<le> 2 then y - 1 else y); mp = (m + 9) mod 12;
          yoe = y' mod 400
      in y' div 400 * 146097 + 365 * yoe + yoe div 4 - yoe div 100 + (153 * mp + 2) div 5 + d - 1 - 719468)"

definition leap_year :: "int \<Rightarrow> bool" where
  "leap_year y \<longleftrightarrow> y mod 4 = 0 \<and> (y mod 100 \<noteq> 0 \<or> y mod 400 = 0)"

definition days_in :: "int \<Rightarrow> int \<Rightarrow> int" where
  "days_in y m = (if m = 2 then (if leap_year y then 29 else 28)
     else if m = 4 \<or> m = 6 \<or> m = 9 \<or> m = 11 then 30 else 31)"

lemma month_split:
  fixes doy :: int
  assumes "0 \<le> doy" and "doy \<le> 365" and "mp = (5 * doy + 2) div 153"
  shows "0 \<le> mp" "mp \<le> 11" "(153 * mp + 2) div 5 \<le> doy" "doy < (153 * (mp + 1) + 2) div 5"
proof -
  have b: "153 * mp \<le> 5 * doy + 2" "5 * doy + 2 < 153 * mp + 153" using assms(3) by auto
  show "0 \<le> mp" "mp \<le> 11" using b assms(1,2) by linarith+
  show "(153 * mp + 2) div 5 \<le> doy" using b(1) by linarith
  show "doy < (153 * (mp + 1) + 2) div 5" using b(2) by presburger
qed

lemma year_split:
  fixes doe :: int
  assumes "0 \<le> doe" and "doe < 146097" and "c = min 3 (doe div 36524)" and "r1 = doe - c * 36524"
    and "q = r1 div 1461" and "r2 = r1 - q * 1461" and "y = min 3 (r2 div 365)" and "doy = r2 - y * 365"
  shows "0 \<le> c \<and> c \<le> 3 \<and> 0 \<le> q \<and> q \<le> 24 \<and> 0 \<le> y \<and> y \<le> 3 \<and> 0 \<le> doy \<and> doy \<le> 365"
    "doy = 365 \<Longrightarrow> y = 3 \<and> (q < 24 \<or> c = 3)"
proof -
  have c: "0 \<le> c" "c \<le> 3" "c * 36524 \<le> doe" "doe < c * 36524 + 36524 \<or> c = 3"
    using assms(1-3) by (auto simp: min_def)
  have r1: "0 \<le> r1" "r1 \<le> 36524" "r1 = 36524 \<longrightarrow> c = 3" using c assms(2,4) by auto
  have q: "0 \<le> q" "q \<le> 24" "q * 1461 \<le> r1" "r1 < q * 1461 + 1461" using r1 assms(5) by auto
  have r2: "0 \<le> r2" "r2 \<le> 1460" using q assms(6) by auto
  have y: "0 \<le> y" "y \<le> 3" "y * 365 \<le> r2" "r2 < y * 365 + 365 \<or> y = 3"
    using r2 assms(7) by (auto simp: min_def)
  show "0 \<le> c \<and> c \<le> 3 \<and> 0 \<le> q \<and> q \<le> 24 \<and> 0 \<le> y \<and> y \<le> 3 \<and> 0 \<le> doy \<and> doy \<le> 365"
    using c q y r2 assms(8) by auto
  show "y = 3 \<and> (q < 24 \<or> c = 3)" if "doy = 365"
    using that c q y r1 r2 assms(6,8) by auto
qed

lemma civil_valid:
  assumes "civil z = (y, m, d)"
  shows "day_number y m d = z" "1 \<le> m" "m \<le> 12" "1 \<le> d" "d \<le> days_in y m"
proof -
  define era doe where "era = (z + 719468) div 146097" and "doe = (z + 719468) mod 146097"
  define c r1 q r2 a doy mp where "c = min 3 (doe div 36524)" and "r1 = doe - c * 36524"
    and "q = r1 div 1461" and "r2 = r1 - q * 1461" and "a = min 3 (r2 div 365)"
    and "doy = r2 - a * 365" and "mp = (5 * doy + 2) div 153"
  have doe: "0 \<le> doe" "doe < 146097" "z + 719468 = era * 146097 + doe"
    by (simp_all add: doe_def era_def)
  note y = year_split [OF doe(1,2) c_def r1_def q_def r2_def a_def doy_def]
  have mp: "0 \<le> mp" "mp \<le> 11" "(153 * mp + 2) div 5 \<le> doy" "doy < (153 * (mp + 1) + 2) div 5"
    using month_split [OF _ _ mp_def] y(1) by auto
  have e: "y = 400 * era + (100 * c + 4 * q + a) + (if m \<le> 2 then 1 else 0)"
    "m = (if mp < 10 then mp + 3 else mp - 9)" "d = doy - (153 * mp + 2) div 5 + 1"
    using assms unfolding civil_def Let_def era_def [symmetric] doe_def [symmetric] c_def [symmetric]
      r1_def [symmetric] q_def [symmetric] r2_def [symmetric] a_def [symmetric] doy_def [symmetric]
      mp_def [symmetric] by auto
  define yoe where "yoe = 100 * c + 4 * q + a"
  have yoe: "0 \<le> yoe" "yoe < 400" "yoe div 4 = 25 * c + q" "yoe div 100 = c"
    using y(1) by (auto simp: yoe_def)
  have m: "m \<le> 2 \<longleftrightarrow> 10 \<le> mp" "(m + 9) mod 12 = mp" "1 \<le> m" "m \<le> 12" using e(2) mp(1,2) by auto
  have y': "(if m \<le> 2 then y - 1 else y) = 400 * era + yoe" using e(1) by (simp add: yoe_def)
  have "(400 * era + yoe) div 400 = era" "(400 * era + yoe) mod 400 = yoe" using yoe by auto
  then show "day_number y m d = z"
    unfolding day_number_def Let_def y' m(2)
    using e(3) doe(3) yoe(3,4) by (simp add: yoe_def doy_def r2_def r1_def)
  show "1 \<le> m" "m \<le> 12" using m by auto
  show "1 \<le> d" using e(3) mp(3) by simp
  show "d \<le> days_in y m"
  proof (cases "mp = 11")
    case False
    then have "mp = 0 \<or> mp = 1 \<or> mp = 2 \<or> mp = 3 \<or> mp = 4 \<or> mp = 5 \<or> mp = 6 \<or> mp = 7 \<or> mp = 8 \<or>
        mp = 9 \<or> mp = 10"
      using mp(1,2) by presburger
    then show ?thesis using e(2,3) mp(3,4) by (elim disjE) (simp_all add: days_in_def)
  next
    case True
    then have d: "d = doy - 336" "m = 2" "y = 400 * era + yoe + 1" using e by (auto simp: yoe_def)
    have "leap_year y" if "doy = 365"
    proof -
      have a: "a = 3" "q < 24 \<or> c = 3" using y(2) that by auto
      then have Y: "y = 400 * era + 100 * c + 4 * (q + 1)" unfolding d(3) by (simp add: yoe_def)
      have "y = 4 * (100 * era + 25 * c + q + 1)" unfolding Y by simp
      then have four: "y mod 4 = 0" by simp
      show ?thesis
      proof (cases "q < 24")
        case True
        have "y = 4 * (q + 1) + 100 * (4 * era + c)" unfolding Y by simp
        then have "y mod 100 = 4 * (q + 1) mod 100" by (metis mod_mult_self2)
        also have "\<dots> = 4 * (q + 1)" using True y(1) by (intro mod_pos_pos_trivial) auto
        finally show ?thesis using four y(1) by (simp add: leap_year_def)
      next
        case False
        then have "y = 400 * (era + 1)" unfolding Y using a(2) y(1) by simp
        then show ?thesis using four by (simp add: leap_year_def)
      qed
    qed
    then show ?thesis using d y(1) by (cases "doy = 365") (auto simp: days_in_def)
  qed
qed

section \<open>Digits of a fixed width\<close>

fun fixed :: "nat \<Rightarrow> nat \<Rightarrow> string" where
  "fixed 0 n = []"
| "fixed (Suc k) n = fixed k (n div 10) @ [char_of (48 + n mod 10)]"

lemma length_fixed [simp]: "length (fixed k n) = k"
  by (induction k arbitrary: n) simp_all

lemma digit_of [simp]: "of_char (char_of (48 + n mod 10) :: char) = (48 + n mod 10 :: nat)"
proof -
  have "n mod 10 < 10" by simp
  then have "48 + n mod 10 < (256 :: nat)" by linarith
  then show ?thesis by simp
qed

lemma fixed_digits: "c \<in> set (fixed k n) \<Longrightarrow> is_digit c"
proof (induction k arbitrary: n)
  case (Suc k)
  have "n mod 10 < 10" by simp
  then have "n mod 10 \<le> 9" by linarith
  then show ?case using Suc by (auto simp: is_digit_def)
qed simp

lemma undigits_snoc: "undigits (s @ [c]) = 10 * undigits s + (of_char c - 48)"
  by (simp add: undigits_def)

lemma undigits_fixed: "undigits (fixed k n) = n mod 10 ^ k"
proof (induction k arbitrary: n)
  case (Suc k)
  have "n mod 10 ^ Suc k = 10 * (n div 10 mod 10 ^ k) + n mod 10"
    using mod_mult2_eq [of n 10 "10 ^ k"] by simp
  then show ?case using Suc by (simp add: undigits_snoc)
qed (simp add: undigits_def)

section \<open>Text\<close>

definition strip_zeros :: "string \<Rightarrow> string" where
  "strip_zeros s = rev (dropWhile (\<lambda>c. c = CHR ''0'') (rev s))"

definition fraction :: "nat \<Rightarrow> string" where
  "fraction ns = (if ns = 0 then [] else CHR ''.'' # strip_zeros (fixed 9 ns))"

definition seconds_text :: "int \<Rightarrow> int \<Rightarrow> int \<Rightarrow> nat \<Rightarrow> string" where
  "seconds_text y m d sod =
     fixed 4 (nat y) @ CHR ''-'' # fixed 2 (nat m) @ CHR ''-'' # fixed 2 (nat d) @
     CHR ''T'' # fixed 2 (sod div 3600) @ CHR '':'' # fixed 2 (sod div 60 mod 60) @
     CHR '':'' # fixed 2 (sod mod 60)"

text \<open>\<^verbatim>\<open>MarshalJSON\<close>: an error outside the years 0 to 9999.\<close>

definition format_time :: "gotime \<Rightarrow> string option" where
  "format_time t =
     (let secs = t div 10 ^ 9; (y, m, d) = civil (secs div 86400)
      in if y < 0 \<or> 9999 < y then None
         else Some (seconds_text y m d (nat (secs mod 86400)) @ fraction (nat (t mod 10 ^ 9)) @ ''Z''))"

text \<open>Reading, digit group by digit group.\<close>

definition take_num :: "nat \<Rightarrow> string \<Rightarrow> (nat \<times> string) option" where
  "take_num k s = (if k \<le> length s \<and> list_all is_digit (take k s)
     then Some (undigits (take k s), drop k s) else None)"

definition take_char :: "char \<Rightarrow> string \<Rightarrow> string option" where
  "take_char c s = (case s of a # as \<Rightarrow> if a = c then Some as else None | [] \<Rightarrow> None)"

definition take_fraction :: "string \<Rightarrow> nat \<times> string" where
  "take_fraction s = (case s of
       a # b # _ \<Rightarrow> if a = CHR ''.'' \<and> is_digit b
         then (undigits (take 9 (takeWhile is_digit (tl s) @ replicate 9 CHR ''0'')), dropWhile is_digit (tl s))
         else (0, s)
     | _ \<Rightarrow> (0, s))"

definition take_zone :: "string \<Rightarrow> int option" where
  "take_zone s =
     (if s = ''Z'' then Some 0
      else do {
        (h, s1) \<leftarrow> take_num 2 (tl s);
        s2 \<leftarrow> take_char CHR '':'' s1;
        (m, s3) \<leftarrow> take_num 2 s2;
        if s3 \<noteq> [] \<or> 24 \<le> h \<or> 60 \<le> m then None
        else if hd s = CHR ''+'' then Some (int (h * 3600 + m * 60))
        else if hd s = CHR ''-'' then Some (- int (h * 3600 + m * 60))
        else None })"

definition parse_time :: "string \<Rightarrow> gotime option" where
  "parse_time s0 = do {
     (y, s) \<leftarrow> take_num 4 s0;
     s \<leftarrow> take_char CHR ''-'' s;
     (mo, s) \<leftarrow> take_num 2 s;
     s \<leftarrow> take_char CHR ''-'' s;
     (d, s) \<leftarrow> take_num 2 s;
     s \<leftarrow> take_char CHR ''T'' s;
     (h, s) \<leftarrow> take_num 2 s;
     s \<leftarrow> take_char CHR '':'' s;
     (mi, s) \<leftarrow> take_num 2 s;
     s \<leftarrow> take_char CHR '':'' s;
     (sec, s) \<leftarrow> take_num 2 s;
     let (ns, s) = take_fraction s;
     off \<leftarrow> take_zone s;
     if mo < 1 \<or> 12 < mo \<or> d < 1 \<or> days_in (int y) (int mo) < int d \<or> 24 \<le> h \<or> 60 \<le> mi \<or> 60 \<le> sec
     then None
     else Some ((day_number (int y) (int mo) (int d) * 86400 + int (h * 3600 + mi * 60 + sec) - off) * 10 ^ 9 + int ns) }"

section \<open>Round trip\<close>

lemma take_num_fixed [simp]: "take_num k (fixed k n @ s) = Some (n mod 10 ^ k, s)"
  using fixed_digits [of _ k n] by (auto simp: take_num_def undigits_fixed list_all_iff)

lemma take_char_Cons [simp]: "take_char c (c # s) = Some s"
  by (simp add: take_char_def)

lemma strip_zeros_pad: "strip_zeros s @ replicate (length s - length (strip_zeros s)) CHR ''0'' = s"
proof (induction s rule: rev_induct)
  case (snoc c s)
  have len: "length (strip_zeros s) \<le> length s"
    using length_dropWhile_le [of "\<lambda>c. c = CHR ''0''" "rev s"] by (simp add: strip_zeros_def)
  show ?case
  proof (cases "c = CHR ''0''")
    case True
    then have z: "strip_zeros (s @ [c]) = strip_zeros s" by (simp add: strip_zeros_def)
    have "replicate (Suc n) c = replicate n c @ [c]" for n by (simp add: replicate_append_same)
    then have "strip_zeros s @ replicate (Suc (length s - length (strip_zeros s))) c =
        (strip_zeros s @ replicate (length s - length (strip_zeros s)) c) @ [c]" by simp
    then show ?thesis unfolding z using snoc len True by (simp add: Suc_diff_le)
  next
    case False
    then show ?thesis by (simp add: strip_zeros_def)
  qed
qed (simp add: strip_zeros_def)

lemma take_fraction_fraction:
  assumes "ns < 10 ^ 9"
  shows "take_fraction (fraction ns @ ''Z'') = (ns, ''Z'')"
proof (cases "ns = 0")
  case True
  then show ?thesis by (simp add: fraction_def take_fraction_def)
next
  case False
  let ?z = "strip_zeros (fixed 9 ns)"
  have pad: "?z @ replicate (9 - length ?z) CHR ''0'' = fixed 9 ns" "length ?z \<le> 9"
    using strip_zeros_pad [of "fixed 9 ns"] by (simp_all add: strip_zeros_def length_dropWhile_le [of _ "rev (fixed 9 ns)", simplified])
  have dig: "list_all is_digit ?z"
    using pad(1) fixed_digits [of _ 9 ns] by (metis Un_iff list_all_iff set_append)
  have "?z \<noteq> []"
  proof
    assume "?z = []"
    then have "fixed 9 ns = replicate 9 CHR ''0''" using pad(1) by simp
    moreover have "undigits (replicate 9 CHR ''0'') = 0" by (simp add: undigits_def numeral_eq_Suc)
    ultimately show False using undigits_fixed [of 9 ns] assms False by simp
  qed
  then obtain b bs where z: "?z = b # bs" by (cases ?z) auto
  have tw: "takeWhile is_digit (?z @ ''Z'') = ?z" "dropWhile is_digit (?z @ ''Z'') = ''Z''"
    using dig by (simp_all add: takeWhile_append2 dropWhile_append2 list_all_iff is_digit_def)
  have "take 9 (?z @ replicate 9 CHR ''0'') = ?z @ replicate (9 - length ?z) CHR ''0''"
    using pad(2) by (simp add: min_def)
  then have "undigits (take 9 (?z @ replicate 9 CHR ''0'')) = ns"
    using pad(1) undigits_fixed [of 9 ns] assms by simp
  then show ?thesis
    using False tw dig unfolding take_fraction_def fraction_def z by simp
qed

lemma parse_format_time:
  assumes "format_time t = Some s"
  shows "parse_time s = Some t"
proof -
  define secs where "secs = t div 10 ^ 9"
  obtain y m d where c: "civil (secs div 86400) = (y, m, d)" using prod_cases3 by blast
  define sod where "sod = nat (secs mod 86400)"
  define ns where "ns = nat (t mod 10 ^ 9)"
  have y: "0 \<le> y" "y \<le> 9999" and s: "s = seconds_text y m d sod @ fraction ns @ ''Z''"
    using assms c by (auto simp: format_time_def Let_def secs_def sod_def ns_def split: if_splits)
  note v = civil_valid [OF c]
  have d31: "d \<le> 31" using v(5) by (auto simp: days_in_def split: if_splits)
  have ns: "ns < 10 ^ 9" by (simp add: ns_def)
  have sod: "sod < 86400" by (simp add: sod_def nat_less_iff)
  define hh mi ss where "hh = sod div 3600" and "mi = sod div 60 mod 60" and "ss = sod mod 60"
  have lim: "hh < 24" "mi < 60" "ss < 60" using sod by (auto simp: hh_def mi_def ss_def)
  have hms: "int sod = int hh * 3600 + int mi * 60 + int ss"
  proof -
    have "sod div 3600 = sod div 60 div 60" by (simp add: div_mult2_eq [symmetric])
    moreover have "sod div 60 div 60 * 60 + sod div 60 mod 60 = sod div 60" "sod div 60 * 60 + sod mod 60 = sod"
      by (rule div_mult_mod_eq)+
    ultimately have "sod = hh * 3600 + mi * 60 + ss" unfolding hh_def mi_def ss_def by linarith
    then show ?thesis by simp
  qed
  have mods: "nat y mod 10 ^ 4 = nat y" "nat m mod 10 ^ 2 = nat m" "nat d mod 10 ^ 2 = nat d"
    "hh mod 10 ^ 2 = hh" "mi mod 10 ^ 2 = mi" "ss mod 10 ^ 2 = ss"
    using y v d31 lim by auto
  have t: "(day_number y m d * 86400 + int sod) * 10 ^ 9 + int ns = t"
    unfolding v(1) sod_def ns_def secs_def by simp
  show ?thesis
    using v(2-5) y(1) lim t hms take_fraction_fraction [OF ns]
    unfolding s parse_time_def seconds_text_def hh_def [symmetric] mi_def [symmetric] ss_def [symmetric]
    by (simp add: take_zone_def mods [simplified] algebra_simps)
qed

lemma format_time_Some:
  "format_time t \<noteq> None \<longleftrightarrow> 0 \<le> fst (civil (t div 10 ^ 9 div 86400)) \<and> fst (civil (t div 10 ^ 9 div 86400)) \<le> 9999"
  by (auto simp: format_time_def Let_def split: prod.splits)

end
