(* ===== verification/Frames.thy ===== *)
theory Frames
  imports Wire Json_Text Go_Time
begin

text \<open>
  Frames on a WebSocket: the JSON form of the protocol structs of \<^verbatim>\<open>internal/message/message.go\<close>, and
  the adapter of \<^verbatim>\<open>internal/web/conn.go\<close> that reads and writes them as the bytes of a text frame.
\<close>

section \<open>Writing\<close>

definition encode_Message :: "Message \<Rightarrow> json option" where
  "encode_Message m = map_option (\<lambda>t. JObj
     ((if mID m = 0 then [] else [(''id'', JInt (sint (mID m)))]) @
      [(''room'', enc_string (mRoom m)), (''sender_id'', enc_string (mSenderID m)),
       (''sender_name'', enc_string (mSenderName m)), (''content'', enc_string (mContent m)),
       (''created_at'', JStr t)])) (format_time (mCreatedAt m))"

definition encode_Presence :: "Presence \<Rightarrow> json" where
  "encode_Presence p = JObj [(''user'', enc_string (pUser p)), (''joined'', JBool (pJoined p)),
     (''members'', JArr (map enc_string (pMembers p)))]"

text \<open>
  The optional members of an envelope. Encoding fails when the time of a message has no RFC 3339
  form.
\<close>

definition message_member :: "Message option \<Rightarrow> (string \<times> json) list option" where
  "message_member mo = (case mo of
       None \<Rightarrow> Some [] | Some m \<Rightarrow> map_option (\<lambda>j. [(''message'', j)]) (encode_Message m))"

definition history_member :: "Message list \<Rightarrow> (string \<times> json) list option" where
  "history_member ms = (if ms = [] then Some []
     else map_option (\<lambda>js. [(''history'', JArr js)]) (those (map encode_Message ms)))"

definition presence_member :: "Presence option \<Rightarrow> (string \<times> json) list" where
  "presence_member po = (case po of None \<Rightarrow> [] | Some p \<Rightarrow> [(''presence'', encode_Presence p)])"

definition encode_Envelope :: "Envelope \<Rightarrow> json option" where
  "encode_Envelope e =
     (case (message_member (eMessage e), history_member (eHistory e)) of
        (Some msg, Some hist) \<Rightarrow>
          Some (JObj ((''type'', enc_string (eType e)) # omitempty ''room'' (eRoom e) @
            omitempty ''text'' (eText e) @ msg @ hist @ presence_member (ePresence e) @
            omitempty ''error'' (eError e)))
      | _ \<Rightarrow> None)"

section \<open>Reading\<close>

definition decode_time :: "json \<Rightarrow> gotime \<Rightarrow> gotime option" where
  "decode_time j old = (case j of JNull \<Rightarrow> Some old | JStr s \<Rightarrow> parse_time s | _ \<Rightarrow> None)"

definition Message_fields :: "Message fields" where
  "Message_fields =
     [(''id'', \<lambda>j m. map_option (\<lambda>v. m\<lparr>mID := v\<rparr>) (decode_int64 j (mID m))),
      (''room'', \<lambda>j m. map_option (\<lambda>v. m\<lparr>mRoom := v\<rparr>) (decode_string j (mRoom m))),
      (''sender_id'', \<lambda>j m. map_option (\<lambda>v. m\<lparr>mSenderID := v\<rparr>) (decode_string j (mSenderID m))),
      (''sender_name'', \<lambda>j m. map_option (\<lambda>v. m\<lparr>mSenderName := v\<rparr>) (decode_string j (mSenderName m))),
      (''content'', \<lambda>j m. map_option (\<lambda>v. m\<lparr>mContent := v\<rparr>) (decode_string j (mContent m))),
      (''created_at'', \<lambda>j m. map_option (\<lambda>v. m\<lparr>mCreatedAt := v\<rparr>) (decode_time j (mCreatedAt m)))]"

definition zero_Presence :: Presence where
  "zero_Presence = \<lparr>pUser = '''', pJoined = False, pMembers = []\<rparr>"

definition Presence_fields :: "Presence fields" where
  "Presence_fields =
     [(''user'', \<lambda>j p. map_option (\<lambda>v. p\<lparr>pUser := v\<rparr>) (decode_string j (pUser p))),
      (''joined'', \<lambda>j p. map_option (\<lambda>v. p\<lparr>pJoined := v\<rparr>) (decode_bool j (pJoined p))),
      (''members'', \<lambda>j p. map_option (\<lambda>v. p\<lparr>pMembers := v\<rparr>) (decode_slice decode_string '''' j))]"

definition Envelope_fields :: "Envelope fields" where
  "Envelope_fields =
     [(''type'', \<lambda>j e. map_option (\<lambda>v. e\<lparr>eType := v\<rparr>) (decode_string j (eType e))),
      (''room'', \<lambda>j e. map_option (\<lambda>v. e\<lparr>eRoom := v\<rparr>) (decode_string j (eRoom e))),
      (''text'', \<lambda>j e. map_option (\<lambda>v. e\<lparr>eText := v\<rparr>) (decode_string j (eText e))),
      (''message'', \<lambda>j e. map_option (\<lambda>v. e\<lparr>eMessage := v\<rparr>)
         (decode_pointer (decode_struct Message_fields) zero_Message j (eMessage e))),
      (''history'', \<lambda>j e. map_option (\<lambda>v. e\<lparr>eHistory := v\<rparr>)
         (decode_slice (decode_struct Message_fields) zero_Message j)),
      (''presence'', \<lambda>j e. map_option (\<lambda>v. e\<lparr>ePresence := v\<rparr>)
         (decode_pointer (decode_struct Presence_fields) zero_Presence j (ePresence e))),
      (''error'', \<lambda>j e. map_option (\<lambda>v. e\<lparr>eError := v\<rparr>) (decode_string j (eError e)))]"

section \<open>The connection\<close>

datatype conn_error = ReadError | DecodingInbound | EncodingOutbound | WriteError

text \<open>
  \<open>frame\<close> is what \<^verbatim>\<open>conn.Read\<close> delivered: the bytes of a frame, or nothing when it failed.
\<close>

definition wsConn_Read :: "string option \<Rightarrow> conn_error + Envelope" where
  "wsConn_Read frame = (case frame of
       None \<Rightarrow> Inl ReadError
     | Some data \<Rightarrow> (case Unmarshal data of
           None \<Rightarrow> Inl DecodingInbound
         | Some j \<Rightarrow> (case decode_struct Envelope_fields j zero_Envelope of
               None \<Rightarrow> Inl DecodingInbound | Some e \<Rightarrow> Inr e)))"

text \<open>\<open>fails\<close> is the failure of \<^verbatim>\<open>conn.Write\<close>; the result is the frame that was sent.\<close>

definition wsConn_Write :: "bool \<Rightarrow> Envelope \<Rightarrow> conn_error + string" where
  "wsConn_Write fails e = (case encode_Envelope e of
       None \<Rightarrow> Inl EncodingOutbound
     | Some j \<Rightarrow> if fails then Inl WriteError else Inr (Marshal j))"

section \<open>Round trip\<close>

text \<open>What a frame loses on the wire: bytes of strings that are not UTF-8.\<close>

definition scrub_Message :: "Message \<Rightarrow> Message" where
  "scrub_Message m = m\<lparr>mRoom := to_valid (mRoom m), mSenderID := to_valid (mSenderID m),
     mSenderName := to_valid (mSenderName m), mContent := to_valid (mContent m)\<rparr>"

definition scrub_Presence :: "Presence \<Rightarrow> Presence" where
  "scrub_Presence p = p\<lparr>pUser := to_valid (pUser p), pMembers := map to_valid (pMembers p)\<rparr>"

definition scrub :: "Envelope \<Rightarrow> Envelope" where
  "scrub e = \<lparr>eType = to_valid (eType e), eRoom = to_valid (eRoom e), eText = to_valid (eText e),
     eMessage = map_option scrub_Message (eMessage e), eHistory = map scrub_Message (eHistory e),
     ePresence = map_option scrub_Presence (ePresence e), eError = to_valid (eError e)\<rparr>"

lemma fixed_ascii: "c \<in> set (fixed k n) \<Longrightarrow> byte c < 128"
  using fixed_digits [of c k n] by (auto simp: is_digit_def)

lemma fraction_ascii: "c \<in> set (fraction n) \<Longrightarrow> byte c < 128"
  using fixed_ascii [of c 9 n] set_dropWhileD [of c _ "rev (fixed 9 n)"]
  by (auto simp: fraction_def strip_zeros_def split: if_splits)

lemma format_time_ascii:
  assumes "format_time t = Some s"
  shows "to_valid s = s"
proof (rule to_valid_ascii, rule ballI)
  fix c
  assume "c \<in> set s"
  then show "byte c < 128" using assms
    by (auto simp: format_time_def seconds_text_def Let_def fixed_ascii fraction_ascii split: prod.splits if_splits)
qed

lemma decode_encode_Message:
  assumes "encode_Message m = Some j"
  shows "decode_struct Message_fields (scrub_json j) zero_Message = Some (scrub_Message m)"
    "j \<noteq> JNull" "0 < d \<Longrightarrow> fits d j"
proof -
  obtain t where t: "format_time (mCreatedAt m) = Some t"
    and j: "j = JObj ((if mID m = 0 then [] else [(''id'', JInt (sint (mID m)))]) @
      [(''room'', enc_string (mRoom m)), (''sender_id'', enc_string (mSenderID m)),
       (''sender_name'', enc_string (mSenderName m)), (''content'', enc_string (mContent m)),
       (''created_at'', JStr t)])"
    using assms by (auto simp: encode_Message_def)
  show "decode_struct Message_fields (scrub_json j) zero_Message = Some (scrub_Message m)"
    using parse_format_time [OF t] format_time_ascii [OF t] unfolding j
    by (cases m) (simp add: decode_struct_def Message_fields_def lookup_field_def decode_time_def
        scrub_Message_def zero_Message_def to_valid_ascii)
  show "j \<noteq> JNull" "0 < d \<Longrightarrow> fits d j" by (simp_all add: j enc_string_def)
qed

lemma decode_encode_Presence:
  "decode_struct Presence_fields (scrub_json (encode_Presence p)) zero_Presence = Some (scrub_Presence p)"
  "1 < d \<Longrightarrow> fits d (encode_Presence p)"
proof -
  have "decode_elements decode_string '''' (map (scrub_json \<circ> enc_string) ms) = Some (map to_valid ms)" for ms
    by (induction ms) simp_all
  then show "decode_struct Presence_fields (scrub_json (encode_Presence p)) zero_Presence = Some (scrub_Presence p)"
    by (cases p) (simp add: decode_struct_def Presence_fields_def lookup_field_def encode_Presence_def
        scrub_Presence_def zero_Presence_def decode_slice_def to_valid_ascii)
  show "1 < d \<Longrightarrow> fits d (encode_Presence p)"
    by (simp add: encode_Presence_def enc_string_def list_all_iff)
qed

lemma decode_encode_history:
  "those (map encode_Message ms) = Some js \<Longrightarrow>
     decode_elements (decode_struct Message_fields) zero_Message (map scrub_json js) = Some (map scrub_Message ms) \<and>
     (0 < d \<longrightarrow> list_all (fits d) js)"
  by (induction ms arbitrary: js) (auto split: option.splits simp: decode_encode_Message(1,3))

text \<open>Each member of the envelope, in the order it is written.\<close>

definition scrub_members :: "(string \<times> json) list \<Rightarrow> (string \<times> json) list" where
  "scrub_members = map (\<lambda>(k, v). (to_valid k, scrub_json v))"

lemma envelope_members:
  "decode_members Envelope_fields (scrub_members [(''type'', enc_string v)]) e = Some (e\<lparr>eType := to_valid v\<rparr>)"
  "decode_members Envelope_fields (scrub_members (omitempty ''room'' v)) e =
     Some (if v = '''' then e else e\<lparr>eRoom := to_valid v\<rparr>)"
  "decode_members Envelope_fields (scrub_members (omitempty ''text'' v)) e =
     Some (if v = '''' then e else e\<lparr>eText := to_valid v\<rparr>)"
  "decode_members Envelope_fields (scrub_members (omitempty ''error'' v)) e =
     Some (if v = '''' then e else e\<lparr>eError := to_valid v\<rparr>)"
  by (simp_all add: omitempty_def Envelope_fields_def lookup_field_def scrub_members_def to_valid_ascii)

lemma envelope_message:
  assumes "message_member mo = Some msg"
  shows "eMessage e = None \<Longrightarrow>
      decode_members Envelope_fields (scrub_members msg) e = Some (e\<lparr>eMessage := map_option scrub_Message mo\<rparr>)"
    "0 < d \<Longrightarrow> list_all (\<lambda>(k, v). fits d v) msg"
proof -
  have "(eMessage e = None \<longrightarrow>
      decode_members Envelope_fields (scrub_members msg) e = Some (e\<lparr>eMessage := map_option scrub_Message mo\<rparr>)) \<and>
    (0 < d \<longrightarrow> list_all (\<lambda>(k, v). fits d v) msg)"
  proof (cases mo)
    case None
    then show ?thesis using assms by (cases e) (simp add: message_member_def scrub_members_def)
  next
    case (Some m)
    then obtain j where j: "encode_Message m = Some j" "msg = [(''message'', j)]"
      using assms by (auto simp: message_member_def)
    have "decode_pointer (decode_struct Message_fields) zero_Message (scrub_json j) None = Some (Some (scrub_Message m))"
      using decode_encode_Message(1,2) [OF j(1)] by (cases j) (simp_all add: decode_pointer_def)
    then show ?thesis using Some j(2) decode_encode_Message(3) [OF j(1)]
      by (simp add: Envelope_fields_def lookup_field_def scrub_members_def to_valid_ascii)
  qed
  then show "eMessage e = None \<Longrightarrow>
      decode_members Envelope_fields (scrub_members msg) e = Some (e\<lparr>eMessage := map_option scrub_Message mo\<rparr>)"
    "0 < d \<Longrightarrow> list_all (\<lambda>(k, v). fits d v) msg" by simp_all
qed

lemma envelope_history:
  assumes "history_member ms = Some hist"
  shows "eHistory e = [] \<Longrightarrow>
      decode_members Envelope_fields (scrub_members hist) e = Some (e\<lparr>eHistory := map scrub_Message ms\<rparr>)"
    "1 < d \<Longrightarrow> list_all (\<lambda>(k, v). fits d v) hist"
proof -
  have "(eHistory e = [] \<longrightarrow>
      decode_members Envelope_fields (scrub_members hist) e = Some (e\<lparr>eHistory := map scrub_Message ms\<rparr>)) \<and>
    (1 < d \<longrightarrow> list_all (\<lambda>(k, v). fits d v) hist)"
  proof (cases "ms = []")
    case True
    then show ?thesis using assms by (cases e) (simp add: history_member_def scrub_members_def)
  next
    case False
    then obtain js where "those (map encode_Message ms) = Some js" "hist = [(''history'', JArr js)]"
      using assms by (auto simp: history_member_def)
    then show ?thesis using decode_encode_history [of ms js "d - 1"]
      by (simp add: Envelope_fields_def lookup_field_def decode_slice_def scrub_members_def to_valid_ascii)
  qed
  then show "eHistory e = [] \<Longrightarrow>
      decode_members Envelope_fields (scrub_members hist) e = Some (e\<lparr>eHistory := map scrub_Message ms\<rparr>)"
    "1 < d \<Longrightarrow> list_all (\<lambda>(k, v). fits d v) hist" by simp_all
qed

lemma envelope_presence:
  "ePresence e = None \<Longrightarrow>
     decode_members Envelope_fields (scrub_members (presence_member po)) e =
       Some (e\<lparr>ePresence := map_option scrub_Presence po\<rparr>)"
  "1 < d \<Longrightarrow> list_all (\<lambda>(k, v). fits d v) (presence_member po)"
proof -
  have "decode_pointer (decode_struct Presence_fields) zero_Presence (scrub_json (encode_Presence p)) None =
      Some (Some (scrub_Presence p))" for p
    using decode_encode_Presence(1) [of p] by (simp add: decode_pointer_def encode_Presence_def)
  then show "ePresence e = None \<Longrightarrow>
     decode_members Envelope_fields (scrub_members (presence_member po)) e =
       Some (e\<lparr>ePresence := map_option scrub_Presence po\<rparr>)"
    by (cases e) (auto simp: Envelope_fields_def lookup_field_def presence_member_def scrub_members_def
        to_valid_ascii split: option.split)
  show "1 < d \<Longrightarrow> list_all (\<lambda>(k, v). fits d v) (presence_member po)"
    using decode_encode_Presence(2) by (simp add: presence_member_def split: option.split)
qed

lemma fits_omitempty: "list_all (\<lambda>(k, v). fits d v) (omitempty name s)"
  by (simp add: omitempty_def enc_string_def)

lemma decode_encode_Envelope:
  assumes "encode_Envelope e = Some j"
  shows "decode_struct Envelope_fields (scrub_json j) zero_Envelope = Some (scrub e)"
    "2 < d \<Longrightarrow> fits d j"
proof -
  obtain msg hist where m: "message_member (eMessage e) = Some msg" and h: "history_member (eHistory e) = Some hist"
    and j: "j = JObj ([(''type'', enc_string (eType e))] @ omitempty ''room'' (eRoom e) @
      omitempty ''text'' (eText e) @ msg @ hist @ presence_member (ePresence e) @ omitempty ''error'' (eError e))"
    using assms unfolding encode_Envelope_def by (auto split: option.splits)
  have append: "scrub_members (xs @ ys) = scrub_members xs @ scrub_members ys" for xs ys
    by (simp add: scrub_members_def)
  show "decode_struct Envelope_fields (scrub_json j) zero_Envelope = Some (scrub e)"
    unfolding j scrub_json.simps scrub_members_def [symmetric] append decode_struct_def json.case decode_members_append
    by (simp add: envelope_members envelope_message(1) [OF m] envelope_history(1) [OF h] envelope_presence(1)
        zero_Envelope_def scrub_def del: decode_members.simps)
  show "fits d j" if "2 < d"
    using that envelope_message(2) [OF m, of "d - 1"] envelope_history(2) [OF h, of "d - 1"]
      envelope_presence(2) [of "d - 1" "ePresence e"] fits_omitempty [of "d - 1"]
    by (simp add: j enc_string_def)
qed

text \<open>All strings of a frame are valid UTF-8, and all its times have an RFC 3339 form.\<close>

definition clean_Message :: "Message \<Rightarrow> bool" where
  "clean_Message m \<longleftrightarrow> valid_utf8 (mRoom m) \<and> valid_utf8 (mSenderID m) \<and> valid_utf8 (mSenderName m) \<and>
     valid_utf8 (mContent m) \<and> format_time (mCreatedAt m) \<noteq> None"

definition clean :: "Envelope \<Rightarrow> bool" where
  "clean e \<longleftrightarrow> valid_utf8 (eType e) \<and> valid_utf8 (eRoom e) \<and> valid_utf8 (eText e) \<and> valid_utf8 (eError e) \<and>
     (\<forall>m. eMessage e = Some m \<longrightarrow> clean_Message m) \<and> (\<forall>m \<in> set (eHistory e). clean_Message m) \<and>
     (\<forall>p. ePresence e = Some p \<longrightarrow> valid_utf8 (pUser p) \<and> (\<forall>n \<in> set (pMembers p). valid_utf8 n))"

lemma scrub_clean_Message: "clean_Message m \<Longrightarrow> scrub_Message m = m"
  by (cases m) (simp add: scrub_Message_def clean_Message_def valid_utf8_def)

lemma scrub_clean:
  assumes "clean e"
  shows "scrub e = e"
proof -
  have "map to_valid (pMembers p) = pMembers p \<and> to_valid (pUser p) = pUser p" if "ePresence e = Some p" for p
    using assms that by (auto simp: clean_def valid_utf8_def intro: map_idI)
  then have "map_option scrub_Presence (ePresence e) = ePresence e"
    by (cases "ePresence e") (simp_all add: scrub_Presence_def)
  moreover have "map_option scrub_Message (eMessage e) = eMessage e"
    using assms scrub_clean_Message by (cases "eMessage e") (auto simp: clean_def)
  moreover have "map scrub_Message (eHistory e) = eHistory e"
    using assms scrub_clean_Message by (auto simp: clean_def intro: map_idI)
  ultimately show ?thesis using assms by (cases e) (simp add: scrub_def clean_def valid_utf8_def)
qed

lemma encode_clean_Message: "clean_Message m \<Longrightarrow> encode_Message m \<noteq> None"
  by (auto simp: clean_Message_def encode_Message_def)

lemma encode_clean_history: "(\<forall>m \<in> set ms. clean_Message m) \<Longrightarrow> those (map encode_Message ms) \<noteq> None"
proof (induction ms)
  case (Cons m ms)
  then show ?case using encode_clean_Message [of m] by (auto split: option.splits)
qed simp

lemma encode_clean:
  assumes "clean e"
  shows "\<exists>j. encode_Envelope e = Some j"
proof -
  have "\<exists>msg. message_member (eMessage e) = Some msg"
    using assms encode_clean_Message
    by (cases "eMessage e") (auto simp: clean_def message_member_def)
  moreover have "\<forall>m \<in> set (eHistory e). clean_Message m" using assms by (simp add: clean_def)
  then have "\<exists>hist. history_member (eHistory e) = Some hist"
    using encode_clean_history by (auto simp: history_member_def)
  ultimately show ?thesis unfolding encode_Envelope_def by auto
qed

section \<open>Properties\<close>

text \<open>
  C17. Frames survive the wire: every frame whose strings are valid UTF-8 and whose times lie in the
  years 0 to 9999 can be written, and reading what was written gives back exactly the same
  frame, down to the nanosecond; other strings come back with the offending bytes replaced.
\<close>

theorem frames_round_trip:
  assumes "clean e"
  shows "\<exists>t. wsConn_Write False e = Inr t \<and> wsConn_Read (Some t) = Inr e \<and>
    (\<forall>e' t'. wsConn_Write False e' = Inr t' \<longrightarrow> wsConn_Read (Some t') = Inr (scrub e'))"
proof -
  obtain j where j: "encode_Envelope e = Some j" using encode_clean [OF assms] by blast
  have r: "wsConn_Read (Some (Marshal i)) = Inr (scrub f)" if "encode_Envelope f = Some i" for f i
    using decode_encode_Envelope(1) [OF that] decode_encode_Envelope(2) [OF that, of maxNestingDepth] Unmarshal_Marshal [of i]
    by (simp add: wsConn_Read_def maxNestingDepth_def)
  then have "wsConn_Read (Some (Marshal j)) = Inr e" using j scrub_clean [OF assms] by auto
  moreover have "wsConn_Read (Some t') = Inr (scrub e')" if "wsConn_Write False e' = Inr t'" for e' t'
    using that r by (auto simp: wsConn_Write_def split: option.splits)
  ultimately show ?thesis using j by (auto simp: wsConn_Write_def)
qed

definition sample :: Envelope where
  "sample = zero_Envelope\<lparr>eType := TypeMessage, eRoom := ''lobby'', eMessage := Some \<lparr>mID = 0, mRoom = ''lobby'',
     mSenderID = ''7'', mSenderName = ''Bob'', mContent = ''hi <all>'', mCreatedAt = 1709210096000000500\<rparr>\<rparr>"

lemma leap_day_2024: "civil 19782 = (2024, 2, 29)" by code_simp

lemma sample_time: "(1709210096000000500 :: int) div 10 ^ 9 div 86400 = 19782" by simp

lemma sample_clean: "clean sample"
proof -
  have "format_time 1709210096000000500 \<noteq> None"
    unfolding format_time_Some sample_time leap_day_2024 by simp
  then show ?thesis
    by (simp add: clean_def sample_def clean_Message_def valid_utf8_ascii TypeMessage_def zero_Envelope_def)
qed

theorem frames_round_trip_witness:
  "\<exists>t. wsConn_Write False sample = Inr t \<and> wsConn_Read (Some t) = Inr sample"
  using frames_round_trip [OF sample_clean] by blast

end
