(* ===== verification/Deadlines.thy ===== *)
theory Deadlines
  imports Frames Config
begin

text \<open>
  The clock of the write pump (\<^verbatim>\<open>writePump\<close>, \<^verbatim>\<open>writeWithDeadline\<close> and \<^verbatim>\<open>pingWithDeadline\<close> of
  \<^verbatim>\<open>internal/hub/client.go\<close>) over the adapter of \<^verbatim>\<open>internal/web/conn.go\<close>: how long a peer can hold
  it up. \<^verbatim>\<open>Pumps\<close> has the same pump among the other goroutines, without the clock. The
  WebSocket library is a parameter; of it the code relies on two things its documentation says:
  a call returns once its context is done, and \<^verbatim>\<open>Close\<close>, which has no context, gives up on the
  closing handshake after a fixed time (five seconds to write the close frame and
  five to wait for that of the peer).
\<close>

section \<open>Contexts and connections\<close>

text \<open>A context is the moment it is done, if there is one.\<close>

type_synonym ctx = "gotime option"

definition WithTimeout :: "ctx \<Rightarrow> gotime \<Rightarrow> int \<Rightarrow> ctx" where
  "WithTimeout ctx now d = Some (case ctx of None \<Rightarrow> now + d | Some t \<Rightarrow> min t (now + d))"

text \<open>
  A call gets its number, the context and the time it starts, and answers whether it
  failed and when it returned.
\<close>

record ws_lib =
  wsRead :: "nat \<Rightarrow> ctx \<Rightarrow> gotime \<Rightarrow> string option \<times> gotime"
  wsWrite :: "nat \<Rightarrow> ctx \<Rightarrow> string \<Rightarrow> gotime \<Rightarrow> bool \<times> gotime"
  wsPing :: "nat \<Rightarrow> ctx \<Rightarrow> gotime \<Rightarrow> bool \<times> gotime"
  wsClose :: "gotime \<Rightarrow> bool \<times> gotime"

record conn =
  cnRead :: "nat \<Rightarrow> ctx \<Rightarrow> gotime \<Rightarrow> (conn_error + Envelope) \<times> gotime"
  cnWrite :: "nat \<Rightarrow> ctx \<Rightarrow> Envelope \<Rightarrow> gotime \<Rightarrow> bool \<times> gotime"
  cnPing :: "nat \<Rightarrow> ctx \<Rightarrow> gotime \<Rightarrow> bool \<times> gotime"
  cnClose :: "gotime \<Rightarrow> bool \<times> gotime"

definition wsConn_Ping :: "ws_lib \<Rightarrow> nat \<Rightarrow> ctx \<Rightarrow> gotime \<Rightarrow> bool \<times> gotime" where
  "wsConn_Ping ws k ctx now = wsPing ws k ctx now"

definition wsConn_Close :: "ws_lib \<Rightarrow> gotime \<Rightarrow> bool \<times> gotime" where
  "wsConn_Close ws now = wsClose ws now"

text \<open>
  The adapter: what the library read is decoded (no frame is its error), and a frame that cannot be
  encoded fails before the library is called.
\<close>

definition wsConn :: "ws_lib \<Rightarrow> conn" where
  "wsConn ws = \<lparr>
     cnRead = \<lambda>k ctx now. (case wsRead ws k ctx now of (frame, t) \<Rightarrow> (wsConn_Read frame, t)),
     cnWrite = \<lambda>k ctx e now. (case wsConn_Write False e of
         Inl _ \<Rightarrow> (True, now) | Inr data \<Rightarrow> wsWrite ws k ctx data now),
     cnPing = wsConn_Ping ws,
     cnClose = wsConn_Close ws\<rparr>"

definition returns_in_time :: "ctx \<Rightarrow> gotime \<Rightarrow> bool \<times> gotime \<Rightarrow> bool" where
  "returns_in_time ctx now r \<longleftrightarrow> now \<le> snd r \<and> (\<forall>t. ctx = Some t \<longrightarrow> snd r \<le> max now t)"

definition heeds_context :: "ws_lib \<Rightarrow> bool" where
  "heeds_context ws \<longleftrightarrow> (\<forall>k ctx data now. returns_in_time ctx now (wsWrite ws k ctx data now) \<and>
     returns_in_time ctx now (wsPing ws k ctx now))"

text \<open>The closing handshake takes at most \<open>d\<close>, whatever the peer does.\<close>

definition closes_within :: "ws_lib \<Rightarrow> int \<Rightarrow> bool" where
  "closes_within ws d \<longleftrightarrow> (\<forall>now. now \<le> snd (wsClose ws now) \<and> snd (wsClose ws now) \<le> now + d)"

section \<open>The pump\<close>

definition writeWait :: int where
  "writeWait = 10 * Second"

definition writeWithDeadline :: "conn \<Rightarrow> nat \<Rightarrow> ctx \<Rightarrow> Envelope \<Rightarrow> gotime \<Rightarrow> bool \<times> gotime" where
  "writeWithDeadline cn k ctx e now = cnWrite cn k (WithTimeout ctx now writeWait) e now"

definition pingWithDeadline :: "conn \<Rightarrow> nat \<Rightarrow> ctx \<Rightarrow> gotime \<Rightarrow> bool \<times> gotime" where
  "pingWithDeadline cn k ctx now = cnPing cn k (WithTimeout ctx now writeWait) now"

text \<open>
  What the \<^verbatim>\<open>select\<close> chose, after waiting for it: the context is done, a receive from the queue (nothing when
  it is closed and empty), the ticker. The result is the frames written, whether the loop was left,
  and the time.
\<close>

datatype selected = CtxDone | Recv "Envelope option" | PingDue

fun write_loop :: "conn \<Rightarrow> ctx \<Rightarrow> nat \<Rightarrow> gotime \<Rightarrow> (int \<times> selected) list \<Rightarrow> Envelope list \<times> bool \<times> gotime" where
  "write_loop cn ctx k now [] = ([], False, now)"
| "write_loop cn ctx k now ((w, CtxDone) # cs) = ([], True, now + w)"
| "write_loop cn ctx k now ((w, Recv None) # cs) = ([], True, now + w)"
| "write_loop cn ctx k now ((w, Recv (Some e)) # cs) =
     (case writeWithDeadline cn k ctx e (now + w) of
        (True, t) \<Rightarrow> ([], True, t)
      | (False, t) \<Rightarrow> (case write_loop cn ctx (Suc k) t cs of (es, ret, t') \<Rightarrow> (e # es, ret, t')))"
| "write_loop cn ctx k now ((w, PingDue) # cs) =
     (case pingWithDeadline cn k ctx (now + w) of
        (True, t) \<Rightarrow> ([], True, t)
      | (False, t) \<Rightarrow> write_loop cn ctx (Suc k) t cs)"

text \<open>
  The pump: every way out of the loop runs the deferred \<^verbatim>\<open>conn.Close()\<close> (its error is dropped), and
  the pump returns when that has.
\<close>

definition writePump :: "conn \<Rightarrow> ctx \<Rightarrow> nat \<Rightarrow> gotime \<Rightarrow> (int \<times> selected) list \<Rightarrow> Envelope list \<times> bool \<times> gotime" where
  "writePump cn ctx k now cs = (case write_loop cn ctx k now cs of
     (es, ret, t) \<Rightarrow> (es, ret, if ret then snd (cnClose cn t) else t))"

text \<open>
  The waits of a \<^verbatim>\<open>select\<close>: it does not wait once the context is done, and chooses that case only
  then.
\<close>

definition wait_ok :: "ctx \<Rightarrow> gotime \<Rightarrow> int \<Rightarrow> selected \<Rightarrow> bool" where
  "wait_ok ctx now w c \<longleftrightarrow> 0 \<le> w \<and> (\<forall>t. ctx = Some t \<longrightarrow> now + w \<le> max now t) \<and>
     (c = CtxDone \<longrightarrow> (\<exists>t. ctx = Some t \<and> t \<le> now + w))"

fun selects_ok :: "conn \<Rightarrow> ctx \<Rightarrow> nat \<Rightarrow> gotime \<Rightarrow> (int \<times> selected) list \<Rightarrow> bool" where
  "selects_ok cn ctx k now [] \<longleftrightarrow> True"
| "selects_ok cn ctx k now ((w, c) # cs) \<longleftrightarrow> wait_ok ctx now w c \<and>
     (case c of
        CtxDone \<Rightarrow> True
      | Recv None \<Rightarrow> True
      | Recv (Some e) \<Rightarrow> selects_ok cn ctx (Suc k) (snd (writeWithDeadline cn k ctx e (now + w))) cs
      | PingDue \<Rightarrow> selects_ok cn ctx (Suc k) (snd (pingWithDeadline cn k ctx (now + w))) cs)"

text \<open>The frames received before the queue was closed or the context done.\<close>

fun received :: "(int \<times> selected) list \<Rightarrow> Envelope list" where
  "received ((w, Recv (Some e)) # cs) = e # received cs"
| "received ((w, PingDue) # cs) = received cs"
| "received cs = []"

section \<open>How long it takes\<close>

lemma deadline_calls:
  assumes "heeds_context ws"
  shows "returns_in_time (WithTimeout ctx now writeWait) now (writeWithDeadline (wsConn ws) k ctx e now)"
    "returns_in_time (WithTimeout ctx now writeWait) now (pingWithDeadline (wsConn ws) k ctx now)"
  using assms
  by (auto simp: heeds_context_def writeWithDeadline_def pingWithDeadline_def wsConn_def wsConn_Ping_def returns_in_time_def
      split: sum.split)

lemma in_time:
  assumes "returns_in_time (WithTimeout ctx now writeWait) now (err, t)"
  shows "now \<le> t" "t \<le> now + writeWait" "ctx = Some d \<Longrightarrow> t \<le> max now d"
  using assms
  by (auto simp: returns_in_time_def WithTimeout_def writeWait_def Second_def split: option.splits)

text \<open>One call of the loop, for the induction below.\<close>

definition on_time :: "ctx \<Rightarrow> gotime \<Rightarrow> (int \<times> selected) list \<Rightarrow> gotime \<Rightarrow> bool" where
  "on_time ctx now cs t \<longleftrightarrow> now \<le> t \<and> t \<le> now + (sum_list (map fst cs) + writeWait * int (length cs)) \<and>
     (\<forall>d. ctx = Some d \<longrightarrow> t \<le> max now d)"

lemma on_time_Cons:
  assumes "wait_ok ctx now w c"
    and "returns_in_time (WithTimeout ctx (now + w) writeWait) (now + w) (err, u)"
    and "on_time ctx u cs t"
  shows "on_time ctx now ((w, c) # cs) t"
proof -
  have "now \<le> t" using assms(1,3) in_time(1) [OF assms(2)] by (simp add: wait_ok_def on_time_def)
  moreover have "t \<le> now + (sum_list (map fst ((w, c) # cs)) + writeWait * int (length ((w, c) # cs)))"
    using assms(3) in_time(2) [OF assms(2)] by (simp add: on_time_def distrib_left)
  moreover have "t \<le> max now d" if "ctx = Some d" for d
    using assms(1,3) in_time(3) [OF assms(2) that] that by (auto simp: wait_ok_def on_time_def max_def split: if_splits)
  ultimately show ?thesis by (simp add: on_time_def)
qed

lemma on_time_now: "wait_ok ctx now w c \<Longrightarrow> \<forall>x \<in> set cs. 0 \<le> fst x \<Longrightarrow> on_time ctx now ((w, c) # cs) (now + w)"
proof -
  assume "wait_ok ctx now w c" "\<forall>x \<in> set cs. 0 \<le> fst x"
  moreover from this have "0 \<le> sum_list (map fst cs)" by (intro sum_list_nonneg) auto
  ultimately show ?thesis by (simp add: on_time_def wait_ok_def writeWait_def Second_def)
qed

lemma on_time_failed:
  assumes "wait_ok ctx now w c" and "\<forall>x \<in> set cs. 0 \<le> fst x"
    and "returns_in_time (WithTimeout ctx (now + w) writeWait) (now + w) (err, t)"
  shows "on_time ctx now ((w, c) # cs) t"
proof (rule on_time_Cons [OF assms(1,3)])
  have "0 \<le> sum_list (map fst cs)" using assms(2) by (intro sum_list_nonneg) auto
  then show "on_time ctx t cs t" by (simp add: on_time_def writeWait_def Second_def)
qed

lemma write_loop_on_time:
  assumes "heeds_context ws"
  shows "selects_ok (wsConn ws) ctx k now cs \<Longrightarrow> \<forall>x \<in> set cs. 0 \<le> fst x \<Longrightarrow>
    write_loop (wsConn ws) ctx k now cs = (es, ret, t) \<Longrightarrow>
      on_time ctx now cs t \<and> prefix es (received cs) \<and> (\<not> ret \<longrightarrow> es = received cs)"
proof (induction "wsConn ws" ctx k now cs arbitrary: es rule: write_loop.induct)
  case (1 ctx k now)
  then show ?case by (auto simp: on_time_def)
next
  case (2 ctx k now w cs)
  then show ?case using on_time_now by auto
next
  case (3 ctx k now w cs)
  then show ?case using on_time_now by auto
next
  case (4 ctx k now w e cs)
  obtain err u where wr: "writeWithDeadline (wsConn ws) k ctx e (now + w) = (err, u)" by fastforce
  have w: "wait_ok ctx now w (Recv (Some e))" "returns_in_time (WithTimeout ctx (now + w) writeWait) (now + w) (err, u)"
    using 4(2) deadline_calls(1) [OF assms, of ctx "now + w" k e] wr by simp_all
  show ?case
  proof (cases err)
    case True
    then show ?thesis using 4(3,4) wr on_time_failed [OF w(1) _ w(2), of cs] by auto
  next
    case False
    obtain es' r' t' where p: "write_loop (wsConn ws) ctx (Suc k) u cs = (es', r', t')" by (metis prod_cases3)
    then have r: "es = e # es'" "r' = ret" "t' = t" using 4(4) wr False by simp_all
    have "on_time ctx u cs t \<and> prefix es' (received cs) \<and> (\<not> ret \<longrightarrow> es' = received cs)"
      using 4(1) [OF wr [symmetric]] False 4(2,3) wr p r by simp
    then show ?thesis using on_time_Cons [OF w, of cs t] r by simp
  qed
next
  case (5 ctx k now w cs)
  obtain err u where wr: "pingWithDeadline (wsConn ws) k ctx (now + w) = (err, u)" by fastforce
  have w: "wait_ok ctx now w PingDue" "returns_in_time (WithTimeout ctx (now + w) writeWait) (now + w) (err, u)"
    using 5(2) deadline_calls(2) [OF assms, of ctx "now + w" k] wr by simp_all
  show ?case
  proof (cases err)
    case True
    then show ?thesis using 5(3,4) wr on_time_failed [OF w(1) _ w(2), of cs] by auto
  next
    case False
    have "on_time ctx u cs t \<and> prefix es (received cs) \<and> (\<not> ret \<longrightarrow> es = received cs)"
      using 5(1) [OF wr [symmetric]] False 5(2-4) wr by simp
    then show ?thesis using on_time_Cons [OF w, of cs t] by simp
  qed
qed

section \<open>Properties\<close>

text \<open>
  C21. No peer can pin a write pump: if the WebSocket library heeds its contexts and gives up
  closing after \<open>d\<close>, then besides waiting for work the pump spends at most ten seconds on each
  frame or ping and, once it leaves its loop, \<open>d\<close> on closing the connection; it is never
  more than that closing past the moment its context is done; and what it has written is what it
  received, in order, up to the first failure.
\<close>

theorem no_peer_can_pin_the_write_pump:
  assumes "heeds_context ws" and "closes_within ws d"
    and "selects_ok (wsConn ws) ctx k now cs" and "\<forall>x \<in> set cs. 0 \<le> fst x"
    and "writePump (wsConn ws) ctx k now cs = (es, ret, t)"
  shows "t \<le> now + sum_list (map fst cs) + 10 * Second * int (length cs) + (if ret then d else 0) \<and>
    (\<forall>e. ctx = Some e \<longrightarrow> t \<le> max now e + (if ret then d else 0)) \<and>
    prefix es (received cs) \<and> (\<not> ret \<longrightarrow> es = received cs)"
proof -
  obtain u where loop: "write_loop (wsConn ws) ctx k now cs = (es, ret, u)"
    and t: "t = (if ret then snd (cnClose (wsConn ws) u) else u)"
    using assms(5) by (auto simp: writePump_def split: prod.splits)
  have u: "on_time ctx now cs u \<and> prefix es (received cs) \<and> (\<not> ret \<longrightarrow> es = received cs)"
    by (rule write_loop_on_time [OF assms(1,3,4) loop])
  have "t \<le> u + (if ret then d else 0)"
    using assms(2) unfolding t by (simp add: closes_within_def wsConn_def wsConn_Close_def)
  then show ?thesis using u by (auto simp: on_time_def writeWait_def)
qed

text \<open>A peer that never answers: every call runs into its deadline, and so does the closing handshake.\<close>

definition dead_peer :: ws_lib where
  "dead_peer = \<lparr>
     wsRead = \<lambda>k ctx now. (None, case ctx of None \<Rightarrow> now | Some t \<Rightarrow> max now t),
     wsWrite = \<lambda>k ctx data now. (True, case ctx of None \<Rightarrow> now | Some t \<Rightarrow> max now t),
     wsPing = \<lambda>k ctx now. (True, case ctx of None \<Rightarrow> now | Some t \<Rightarrow> max now t),
     wsClose = \<lambda>now. (True, now + 10 * Second)\<rparr>"

theorem no_peer_can_pin_the_write_pump_witness:
  "snd (snd (writePump (wsConn dead_peer) None 0 0 [(5, Recv (Some sample)), (0, PingDue)])) \<le> 5 + 30 * Second"
proof -
  obtain es ret t where w: "writePump (wsConn dead_peer) None 0 0 [(5, Recv (Some sample)), (0, PingDue)] = (es, ret, t)"
    by (metis prod_cases3)
  have "heeds_context dead_peer"
    by (simp add: heeds_context_def dead_peer_def returns_in_time_def split: option.split)
  moreover have "closes_within dead_peer (10 * Second)"
    by (simp add: closes_within_def dead_peer_def Second_def)
  moreover have "selects_ok (wsConn dead_peer) None 0 0 [(5, Recv (Some sample)), (0, PingDue)]"
    by (simp add: wait_ok_def)
  ultimately have "t \<le> 0 + sum_list (map fst [(5, Recv (Some sample)), (0, PingDue)]) + 10 * Second * int 2 +
      (if ret then 10 * Second else 0)"
    using no_peer_can_pin_the_write_pump [OF _ _ _ _ w] by simp
  then show ?thesis unfolding w by (simp add: Second_def split: if_splits)
qed

end
