(* ===== verification/Spec2Isabelle.thy ===== *)
theory Spec2Isabelle
  imports Store_Props Pipeline_Props Pumps_Props Auth_Props Process_Props Bus Deadlines
begin

text \<open>
  A model of the chat server, with the theorems that make it correct.

  \<^bold>\<open>The program.\<close> \<^verbatim>\<open>cmd/chat\<close> wires the parts together. \<^verbatim>\<open>internal/web\<close> is the HTTP edge: it registers
  accounts and logs them in through \<^verbatim>\<open>internal/auth\<close>, and upgrades \<^verbatim>\<open>/ws\<close> to a WebSocket. Each
  connection is a client of \<^verbatim>\<open>internal/hub\<close> with a read pump and a write pump; the hub's single
  goroutine owns rooms and memberships, delivers messages without blocking, and drops
  clients whose queue is full. Accepted messages go through a bounded queue to the worker of
  \<^verbatim>\<open>internal/persist\<close>, which saves them in \<^verbatim>\<open>internal/store\<close>; a joining client gets recent history
  from there. \<^verbatim>\<open>internal/message\<close> has the frames of the protocol, \<^verbatim>\<open>internal/config\<close> the limits,
  \<^verbatim>\<open>internal/bus\<close> a broadcast seam that nothing uses yet.

  \<^bold>\<open>Preludes.\<close> \<open>Go_Prelude\<close>: addresses, panics as values, channels (a buffer, a capacity, whether
  closed) with the locale \<open>lossy_queue\<close> of non-blocking queues, map iteration in an order the runtime
  picks, 64-bit integers as words, times as nanoseconds since 1970 without bound.
  \<open>Go_Strings\<close>: trimming, prefixes, decimal, base64. \<open>Go_Time\<close>: RFC 3339. \<open>Utf8\<close>: the code points of a byte
  string and the replacement of invalid bytes. \<open>Json\<close>: JSON values and the rules by which
  \<^verbatim>\<open>encoding/json\<close> fills a struct from one. \<open>Json_Text\<close>: \<^verbatim>\<open>Marshal\<close>, \<^verbatim>\<open>Unmarshal\<close> and the decoder of a stream, from
  values to bytes and back, with the round trip between them.

  \<^bold>\<open>Data.\<close> \<open>Wire\<close> (message.go), \<open>Config\<close> (config.go), \<open>Frames\<close> (the JSON form of the frames and the
  adapter web/conn.go; the bytes that are written are read back).

  \<^bold>\<open>The hub.\<close> \<open>Room_Client\<close> (room.go, and the client's queue from client.go) and \<open>Hub\<close> (hub.go, one
  definition per method, in the code's order). \<open>Hub_Inv\<close>: the hub's invariant and what
  disconnecting does. \<open>Hub_Safe\<close>: every operation has a closed form, keeps the invariant and
  does not panic, save a join of a dropped client. \<open>Hub_Spec\<close>: the abstract chat (who is connected,
  who is in which room) that every event refines. \<open>Hub_Trace\<close>: what an execution puts into
  each queue. \<open>Hub_Props\<close>: the properties of the actor alone.
  \<open>Pumps\<close> is the concurrent system: the hub's loop and, per connection, the handler with the
  read pump and the write pump (client.go), as steps of one state; \<open>Pumps_Inv\<close> its
  invariant; \<open>Pumps_Props\<close> its properties, among them the execution that crashes the server. \<open>Deadlines\<close>: the write pump once more, with a
  clock, the deadline of every write and ping, the deferred closing, and what it owes when the peer stops reading.

  \<^bold>\<open>Storing messages.\<close> \<open>Message_Store\<close>: the interface of store.go as a locale, with what follows from
  the contract alone; histories as stable sorts by time. \<open>Store\<close>: sqlite.go and postgres.go on a model of their SQL, both interpretations of the locale.
  \<open>Migrations\<close>: the embedded SQL files, statement by statement. \<open>Store_Open\<close>: opening, the schema, running the
  migrations. \<open>Persist\<close>: persist.go. \<open>Pipeline\<close> interleaves hub and
  persister over any store. \<open>Store_Props\<close> and \<open>Pipeline_Props\<close>: their properties.

  \<^bold>\<open>Accounts.\<close> \<open>Auth_Store\<close>: auth/sqlite.go and auth/postgres.go, with their contract as a locale. \<open>Auth\<close>:
  auth.go over any store. \<open>Auth_Laws\<close>: what the service owes over any lawful store, with both stores as
  interpretations. \<open>Auth_Props\<close>: the properties.

  \<^bold>\<open>Either database.\<close> \<open>Backend\<close>: the choice main.go makes from the configuration, and the two locales
  interpreted on whatever it chooses. So the properties of accounts, of the pipeline, over HTTP and of
  the whole process hold for SQLite and for Postgres alike; \<open>Store_Props\<close> also shows that the two keep the same messages, up to ids.

  \<^bold>\<open>The edge and the whole.\<close> \<open>Web\<close>: server.go and web/auth.go, one definition per handler, cookies,
  bodies, routes. \<open>Web_Laws\<close>, \<open>Web_Props\<close>: sessions over HTTP, and every answer of a registration. \<open>World\<close>: requests and goroutines
  interleaved, with the invariant that ties identities to accounts. \<open>Startup\<close>: main.go up to the
  goroutines. \<open>Process\<close>: the running process, that is the world, the message table with its
  persister, the HTTP servers' goroutines, the error group and signals. \<open>Flow\<close>: where
  messages travel. \<open>Process_Inv\<close>, \<open>Process_Props\<close>: the invariant and the properties of whole
  executions, from requests to frames and from the signal to the exit. \<open>Bus\<close>: bus.go, with
  its properties.

  \<^bold>\<open>Conventions.\<close> A pointer to a client is a natural number and the clients live in a heap, so
  sharing is explicit. A panic is the left side of a sum, an error a value of a datatype
  per component. Whatever the code cannot control is an argument: the clock, the random source, faults of
  databases and connections, the choices of the runtime. A step of the hub handles one
  event to its end, a simplification that \<open>Pumps\<close> discusses. Unbuffered channels
  exchange in one step. Loops are recursions over lists; the drain loop of the persister, which
  would not end on a closed queue, is a partial function whose result is shown to exist exactly for open
  queues. No fuel is used. A shutdown takes at most nine steps: one each of the hub and
  the persister, three for each HTTP server, and the return.

  \<^bold>\<open>Bounds.\<close> The parser of JSON recurses on the text it is given; a value nests at most 10000 deep, as
  in \<^verbatim>\<open>encoding/json\<close>. The write pump of \<open>Deadlines\<close> recurses on what it selects.

  \<^bold>\<open>Parameters.\<close> bcrypt and SHA-256 (the record \<open>crypto\<close>; the laws used of them are named hypotheses),
  the WebSocket handshake and the embedded files of the client (\<open>web_lib\<close>), the WebSocket library's reads, writes
  and closing handshake (\<open>ws_lib\<close>; that it heeds its contexts, and gives up closing after a fixed time, are named
  hypotheses), the SQL engines, the precision of Postgres timestamps. Any database call may fail; a
  statement that succeeds does what its text says, and one that fails has changed no row, except
  that a row may be there whose id could not be read back, and that a Postgres sequence does not take back an id. The
  error group of \<open>Process\<close> (\<^verbatim>\<open>golang.org/x/sync/errgroup\<close>) is modelled by its documented behaviour: the first
  error is kept and cancels the context, and \<^verbatim>\<open>Wait\<close> returns it when all have returned; so is
  what \<^verbatim>\<open>net/http\<close> writes for a cookie's \<^verbatim>\<open>MaxAge\<close>.

  \<^bold>\<open>Not modelled.\<close> The text of HTTP and the inside of the router; WebSocket framing; logging; the pprof handlers; the
  browser client under \<^verbatim>\<open>web/static\<close>. Cookies, paths and methods are given parsed. A time in a JSON
  frame is read from the string after its escapes are resolved, while Go reads the raw literal. In \<open>Pumps\<close> a write or a
  ping may fail at any time, without a clock; \<open>Deadlines\<close> has the clock for one connection.
\<close>

end
